(* ===== verification/Prelude.thy ===== *)
theory Prelude
  imports Main "HOL-Library.Word" "HOL-Library.Sublist"
begin

text \<open>
  What every theory of the development shares: results with errors and panics, effectful
  code as functions on the history of effects, the \<open>Option\<close>, \<open>Result\<close> and \<open>String\<close>
  operations of Rust's standard library that the sources use, and the collections of
  facts the component proofs draw on.
\<close>

named_theorems res_simps \<open>unfolding of the result combinators\<close>
named_theorems io_simps \<open>unfolding of the effect combinators\<close>
named_theorems panic_free_intros \<open>results that are values or errors, never panics\<close>
named_theorems no_panic_intros \<open>effectful code that never panics\<close>
named_theorems within_intros \<open>operations that stay within a set of events and of panics\<close>

subsection \<open>Machine integers and bytes\<close>

type_synonym u8 = "8 word"
type_synonym u16 = "16 word"
type_synonym byte = "8 word"
type_synonym bytes = "8 word list"

text \<open>A \<open>String\<close> is the list of its UTF-8 bytes, so \<open>String::into_bytes\<close> is the identity
  on the representation, up to the type of a byte.\<close>

definition into_bytes :: "string \<Rightarrow> bytes" where
  "into_bytes s = map of_char s"

text \<open>The cast of Rust from \<open>u32\<close> to \<open>i32\<close>.\<close>

lemma sint_u32: "sint (n :: 32 word) = (if unat n < 2 ^ 31 then int (unat n) else int (unat n) - 2 ^ 32)"
proof -
  have sint: "sint n = (uint n + 2 ^ 31) mod 2 ^ 32 - 2 ^ 31"
    by (simp add: sint_uint signed_take_bit_eq_take_bit_shift take_bit_eq_mod)
  have range: "0 \<le> uint n" "uint n < 2 ^ 32" using uint_lt2p[of n] by simp_all
  have unat: "int (unat n) = uint n" by simp
  have less: "unat n < 2 ^ 31 \<longleftrightarrow> int (unat n) < 2 ^ 31" by (metis of_nat_less_iff of_nat_numeral of_nat_power)
  show ?thesis
  proof (cases "uint n < 2 ^ 31")
    case True
    with range have "(uint n + 2 ^ 31) mod 2 ^ 32 = uint n + 2 ^ 31" by (intro mod_pos_pos_trivial) simp_all
    with True show ?thesis unfolding less unat sint by simp
  next
    case False
    have "(uint n + 2 ^ 31) mod 2 ^ 32 = (uint n - 2 ^ 31 + 2 ^ 32) mod 2 ^ 32" by (simp add: add.commute)
    also have "\<dots> = uint n - 2 ^ 31" unfolding mod_add_self2 using False range by (intro mod_pos_pos_trivial) simp_all
    finally show ?thesis using False unfolding less unat sint by simp
  qed
qed

subsection \<open>Results: errors and panics\<close>

text \<open>\<open>Anyhow m\<close> is an error the sources build with \<open>anyhow!(m)\<close> (or an \<open>io::Error\<close> with
  that message); \<open>External m\<close> is an error value of a library or of the system. A panic is
  not an error value: the \<open>?\<close> operator and \<open>match\<close> see errors, a panic unwinds through
  both. \<open>Diverge\<close> is the outcome of a loop that never ends, so that returning at all is
  something to prove.\<close>

datatype error = Anyhow string | External string

text \<open>The display of an error.\<close>

fun error_text :: "error \<Rightarrow> string" where
  "error_text (Anyhow m) = m"
| "error_text (External m) = m"

datatype failure = Error error | Panic string | Diverge

type_synonym 'a res = "failure + 'a"

definition bail :: "string \<Rightarrow> 'a res" where
  "bail msg = Inl (Error (Anyhow msg))"

definition panic :: "string \<Rightarrow> 'a res" where
  "panic msg = Inl (Panic msg)"

text \<open>A library call that can fail: its error becomes an error of the caller (\<open>?\<close>).\<close>

definition ext :: "error + 'a \<Rightarrow> 'a res" where
  "ext r = (case r of Inl e \<Rightarrow> Inl (Error e) | Inr a \<Rightarrow> Inr a)"

definition res_bind :: "'a res \<Rightarrow> ('a \<Rightarrow> 'b res) \<Rightarrow> 'b res" where
  "res_bind r f = (case r of Inl e \<Rightarrow> Inl e | Inr a \<Rightarrow> f a)"

lemma res_bind_simps [simp]:
  "res_bind (Inl e) f = Inl e"
  "res_bind (Inr a) f = f a"
  by (simp_all add: res_bind_def)

lemma ext_simps [simp]:
  "ext (Inl x) = Inl (Error x)"
  "ext (Inr a) = Inr a"
  by (simp_all add: ext_def)

lemma res_bind_Inr_iff:
  "res_bind r f = Inr b \<longleftrightarrow> (\<exists>a. r = Inr a \<and> f a = Inr b)"
  by (cases r) auto

lemma ext_Inr_iff [simp]: "ext r = Inr a \<longleftrightarrow> r = Inr a"
  by (cases r) auto

lemma ext_not_panic [simp]: "ext r \<noteq> Inl (Panic m)"
  by (cases r) auto

lemma bail_neq_Inr [simp]: "bail m \<noteq> Inr a"
  by (simp add: bail_def)

lemma panic_neq_Inr [simp]: "panic m \<noteq> Inr a"
  by (simp add: panic_def)

text \<open>\<open>opt.map(f).transpose()\<close>: convert the payload of an option, an error wins.\<close>

definition opt_traverse :: "('a \<Rightarrow> 'b res) \<Rightarrow> 'a option \<Rightarrow> 'b option res" where
  "opt_traverse f x = (case x of None \<Rightarrow> Inr None
     | Some a \<Rightarrow> res_bind (f a) (\<lambda>b. Inr (Some b)))"

lemma opt_traverse_simps [simp]:
  "opt_traverse f None = Inr None"
  "opt_traverse f (Some a) = res_bind (f a) (\<lambda>b. Inr (Some b))"
  by (simp_all add: opt_traverse_def)

lemma opt_traverse_Inr_iff:
  "opt_traverse f x = Inr y \<longleftrightarrow> rel_option (\<lambda>a b. f a = Inr b) x y"
  by (cases x; cases y) (auto simp: res_bind_Inr_iff)

text \<open>\<open>iter.map(f).collect::<Result<Vec<_>, _>>()\<close>: stops at the first error.\<close>

fun res_collect :: "('a \<Rightarrow> 'b res) \<Rightarrow> 'a list \<Rightarrow> 'b list res" where
  "res_collect f [] = Inr []"
| "res_collect f (x # xs) =
     res_bind (f x) (\<lambda>y. res_bind (res_collect f xs) (\<lambda>ys. Inr (y # ys)))"

lemma res_collect_Inr_iff:
  "res_collect f xs = Inr ys \<longleftrightarrow> list_all2 (\<lambda>x y. f x = Inr y) xs ys"
proof (induction xs arbitrary: ys)
  case Nil
  then show ?case by auto
next
  case (Cons x xs)
  then show ?case by (cases ys) (auto simp: res_bind_Inr_iff)
qed

lemma res_collect_Inl_first:
  assumes "f x = Inl e" and "list_all2 (\<lambda>a b. f a = Inr b) pre bs"
  shows "res_collect f (pre @ x # post) = Inl e"
  using assms(2,1) by (induction pre bs rule: list_all2_induct) auto

subsection \<open>Results that are not panics\<close>

definition panic_free :: "'a res \<Rightarrow> bool" where
  "panic_free r \<longleftrightarrow> (\<forall>m. r \<noteq> Inl (Panic m))"

lemma panic_free_basic [panic_free_intros]:
  "panic_free (Inr a)" "panic_free (ext r)" "panic_free (bail m)"
  by (simp_all add: panic_free_def bail_def)

lemma panic_free_bind [panic_free_intros]:
  "panic_free r \<Longrightarrow> (\<And>a. r = Inr a \<Longrightarrow> panic_free (f a)) \<Longrightarrow> panic_free (res_bind r f)"
  by (cases r) (auto simp: panic_free_def)

lemma panic_free_traverse [panic_free_intros]:
  "(\<And>a. x = Some a \<Longrightarrow> panic_free (f a)) \<Longrightarrow> panic_free (opt_traverse f x)"
  by (cases x) (auto intro: panic_free_intros)

lemma panic_free_collect [panic_free_intros]:
  "(\<And>x. panic_free (f x)) \<Longrightarrow> panic_free (res_collect f xs)"
  by (induction xs) (auto intro!: panic_free_intros)

lemma panic_freeD: "panic_free r \<Longrightarrow> r \<noteq> Inl (Panic m)"
  by (simp add: panic_free_def)

lemma res_bind_panic:
  "res_bind r f = Inl (Panic m) \<Longrightarrow> r = Inl (Panic m) \<or> (\<exists>a. r = Inr a \<and> f a = Inl (Panic m))"
  by (cases r) auto

lemma opt_traverse_panic:
  "opt_traverse f x = Inl (Panic m) \<Longrightarrow> \<exists>a. x = Some a \<and> f a = Inl (Panic m)"
  by (cases x) (auto dest: res_bind_panic)

subsection \<open>Polling\<close>

datatype 'a poll = Pending | Ready 'a

subsection \<open>Options and maps\<close>

text \<open>\<open>opt.iter().all(p)\<close>: an absent value satisfies every predicate.\<close>

definition opt_all :: "('a \<Rightarrow> bool) \<Rightarrow> 'a option \<Rightarrow> bool" where
  "opt_all p x = (case x of None \<Rightarrow> True | Some a \<Rightarrow> p a)"

lemma opt_all_simps [simp]:
  "opt_all p None"
  "opt_all p (Some a) = p a"
  by (simp_all add: opt_all_def)

lemma opt_all_iff: "opt_all p x \<longleftrightarrow> (\<forall>a. x = Some a \<longrightarrow> p a)"
  by (cases x) auto

definition unwrap_or :: "'a \<Rightarrow> 'a option \<Rightarrow> 'a" where
  "unwrap_or d x = (case x of None \<Rightarrow> d | Some a \<Rightarrow> a)"

lemma unwrap_or_simps [simp]:
  "unwrap_or d None = d"
  "unwrap_or d (Some a) = a"
  by (simp_all add: unwrap_or_def)

subsection \<open>Effects: code as a function on the history\<close>

text \<open>
  Effectful code is a function on the history of effects performed so far. What a call to
  the outside world answers is a parameter that sees the whole history, so a theorem that
  holds for every such parameter holds for every behaviour of the environment, however it
  depends on what the program did before.
\<close>

type_synonym ('e, 'a) io = "'e list \<Rightarrow> 'a res \<times> 'e list"

definition io_ok :: "'a \<Rightarrow> ('e, 'a) io" where
  "io_ok a = (\<lambda>h. (Inr a, h))"

definition io_lift :: "'a res \<Rightarrow> ('e, 'a) io" where
  "io_lift r = (\<lambda>h. (r, h))"

definition io_emit :: "'e \<Rightarrow> ('e, unit) io" where
  "io_emit e = (\<lambda>h. (Inr (), h @ [e]))"

text \<open>\<open>io_call e ask\<close> performs the call \<open>e\<close>; the environment's answer is a function of the
  history before the call.\<close>

definition io_call :: "'e \<Rightarrow> ('e list \<Rightarrow> error + 'a) \<Rightarrow> ('e, 'a) io" where
  "io_call e ask = (\<lambda>h. (ext (ask h), h @ [e]))"

definition io_bind :: "('e, 'a) io \<Rightarrow> ('a \<Rightarrow> ('e, 'b) io) \<Rightarrow> ('e, 'b) io" where
  "io_bind m f = (\<lambda>h. case m h of (Inl e, h') \<Rightarrow> (Inl e, h') | (Inr a, h') \<Rightarrow> f a h')"

text \<open>\<open>io_try m\<close> hands an error of \<open>m\<close> to the code that follows as a value (\<open>match\<close>,
  \<open>let _ =\<close>, \<open>unwrap_or_else\<close>); a panic still unwinds.\<close>

definition io_try :: "('e, 'a) io \<Rightarrow> ('e, error + 'a) io" where
  "io_try m = (\<lambda>h. case m h of
     (Inl (Error e), h') \<Rightarrow> (Inr (Inl e), h')
   | (Inl (Panic p), h') \<Rightarrow> (Inl (Panic p), h')
   | (Inl Diverge, h') \<Rightarrow> (Inl Diverge, h')
   | (Inr a, h') \<Rightarrow> (Inr (Inr a), h'))"

text \<open>\<open>io_unwrap msg m\<close> is \<open>m.unwrap()\<close>: an error of \<open>m\<close> becomes a panic.\<close>

definition io_unwrap :: "string \<Rightarrow> ('e, 'a) io \<Rightarrow> ('e, 'a) io" where
  "io_unwrap msg m = (\<lambda>h. case m h of
     (Inl (Error e), h') \<Rightarrow> (Inl (Panic msg), h') | r \<Rightarrow> r)"

text \<open>A \<open>for\<close> loop that threads a value through fallible steps and leaves at the first
  failure.\<close>

fun io_foldl :: "('m \<Rightarrow> 'r \<Rightarrow> ('e, 'm) io) \<Rightarrow> 'm \<Rightarrow> 'r list \<Rightarrow> ('e, 'm) io" where
  "io_foldl step m [] = io_ok m"
| "io_foldl step m (r # rs) = io_bind (step m r) (\<lambda>m'. io_foldl step m' rs)"

lemma io_ok_run [simp, io_simps]: "io_ok a h = (Inr a, h)"
  by (simp add: io_ok_def)

lemma io_lift_run [simp, io_simps]: "io_lift r h = (r, h)"
  by (simp add: io_lift_def)

lemma io_emit_run [simp, io_simps]: "io_emit e h = (Inr (), h @ [e])"
  by (simp add: io_emit_def)

lemma io_call_run [simp, io_simps]: "io_call e ask h = (ext (ask h), h @ [e])"
  by (simp add: io_call_def)

lemma io_bind_run [io_simps]:
  "io_bind m f h = (case m h of (Inl e, h') \<Rightarrow> (Inl e, h') | (Inr a, h') \<Rightarrow> f a h')"
  by (simp add: io_bind_def)

lemma io_bind_step [simp]:
  "m h = (Inr a, h') \<Longrightarrow> io_bind m f h = f a h'"
  "m h = (Inl e, h') \<Longrightarrow> io_bind m f h = (Inl e, h')"
  by (simp_all add: io_bind_def)

lemma io_bind_ok [simp]: "io_bind (io_ok a) f = f a"
  by (simp add: io_bind_def fun_eq_iff)

lemma io_try_run [io_simps]:
  "io_try m h = (case m h of
     (Inl (Error e), h') \<Rightarrow> (Inr (Inl e), h')
   | (Inl (Panic p), h') \<Rightarrow> (Inl (Panic p), h')
   | (Inl Diverge, h') \<Rightarrow> (Inl Diverge, h')
   | (Inr a, h') \<Rightarrow> (Inr (Inr a), h'))"
  by (simp add: io_try_def)

lemma io_unwrap_run [io_simps]:
  "io_unwrap msg m h = (case m h of
     (Inl (Error e), h') \<Rightarrow> (Inl (Panic msg), h') | r \<Rightarrow> r)"
  by (simp add: io_unwrap_def)

lemma io_foldl_append:
  "io_foldl step m (rs @ rs') = io_bind (io_foldl step m rs) (\<lambda>m'. io_foldl step m' rs')"
  by (induction rs arbitrary: m) (auto simp: io_bind_def fun_eq_iff split: prod.splits sum.splits)

subsection \<open>Effectful code without panics\<close>

definition no_panic :: "('e, 'a) io \<Rightarrow> bool" where
  "no_panic m \<longleftrightarrow> (\<forall>h. panic_free (fst (m h)))"

lemma no_panicI: "(\<And>h. panic_free (fst (m h))) \<Longrightarrow> no_panic m"
  by (simp add: no_panic_def)

lemma no_panicD: "no_panic m \<Longrightarrow> m h \<noteq> (Inl (Panic p), h')"
  unfolding no_panic_def panic_free_def by (metis fst_conv)

lemma no_panic_basic [no_panic_intros]:
  "no_panic (io_ok a)" "no_panic (io_emit e)" "no_panic (io_call e ask)"
  "panic_free r \<Longrightarrow> no_panic (io_lift r)"
  by (auto intro!: no_panicI panic_free_intros)

lemma no_panic_bind [no_panic_intros]:
  assumes "no_panic m" and "\<And>a. no_panic (f a)"
  shows "no_panic (io_bind m f)"
proof (rule no_panicI)
  fix h
  obtain r h1 where m: "m h = (r, h1)" by (cases "m h")
  with assms(1) have "panic_free r" unfolding no_panic_def by (metis fst_conv)
  then show "panic_free (fst (io_bind m f h))"
    using m assms(2) by (cases r) (auto simp: no_panic_def panic_free_def)
qed

lemma no_panic_try [no_panic_intros]: "no_panic m \<Longrightarrow> no_panic (io_try m)"
  unfolding no_panic_def io_try_def panic_free_def
  by (auto split: prod.splits sum.splits failure.splits) (metis fst_conv)

lemma no_panic_foldl [no_panic_intros]:
  "(\<And>m r. no_panic (step m r)) \<Longrightarrow> no_panic (io_foldl step m rs)"
  by (induction rs arbitrary: m) (auto intro!: no_panic_intros)

lemma no_panic_cases [no_panic_intros]:
  "no_panic a \<Longrightarrow> (\<And>x. no_panic (f x)) \<Longrightarrow> no_panic (case opt of None \<Rightarrow> a | Some x \<Rightarrow> f x)"
  "(\<And>x. no_panic (g x)) \<Longrightarrow> (\<And>y. no_panic (k y)) \<Longrightarrow>
    no_panic (case r of Inl x \<Rightarrow> g x | Inr y \<Rightarrow> k y)"
  "no_panic a \<Longrightarrow> no_panic b \<Longrightarrow> no_panic (if c then a else b)"
  by (cases opt; cases r; simp)+

lemma panic_free_cases [panic_free_intros]:
  "panic_free a \<Longrightarrow> (\<And>x. opt = Some x \<Longrightarrow> panic_free (f x)) \<Longrightarrow>
    panic_free (case opt of None \<Rightarrow> a | Some x \<Rightarrow> f x)"
  "panic_free a \<Longrightarrow> panic_free b \<Longrightarrow> panic_free (if c then a else b)"
  by (cases opt; simp)+

subsection \<open>What code may do\<close>

text \<open>\<open>within E P m\<close>: whatever happens, \<open>m\<close> only appends events of \<open>E\<close> to the history, and
  panics only with a message of \<open>P\<close>.\<close>

definition within :: "('e \<Rightarrow> bool) \<Rightarrow> string set \<Rightarrow> ('e, 'a) io \<Rightarrow> bool" where
  "within E P m \<longleftrightarrow> (\<forall>h. \<exists>t. snd (m h) = h @ t \<and> list_all E t \<and>
     (\<forall>x. fst (m h) = Inl (Panic x) \<longrightarrow> x \<in> P))"

lemma withinI:
  "(\<And>h. \<exists>t. snd (m h) = h @ t \<and> list_all E t \<and> (\<forall>x. fst (m h) = Inl (Panic x) \<longrightarrow> x \<in> P))
    \<Longrightarrow> within E P m"
  by (simp add: within_def)

lemma withinE:
  assumes "within E P m" and "m h = (r, h')"
  obtains t where "h' = h @ t" and "list_all E t" and "\<forall>x. r = Inl (Panic x) \<longrightarrow> x \<in> P"
  using assms unfolding within_def by (metis fst_conv snd_conv)

lemma within_basic [within_intros]:
  "within E P (io_ok a)"
  "E e \<Longrightarrow> within E P (io_emit e)"
  "E e \<Longrightarrow> within E P (io_call e ask)"
  by (auto intro!: withinI)

lemma within_lift [within_intros]: "(\<And>x. r = Inl (Panic x) \<Longrightarrow> x \<in> P) \<Longrightarrow> within E P (io_lift r)"
  by (auto intro!: withinI)

lemma within_Pair [within_intros]:
  "(\<And>x. r = Inl (Panic x) \<Longrightarrow> x \<in> P) \<Longrightarrow> within E P (Pair r)"
  by (auto intro!: withinI)

lemma within_bind_strong:
  assumes "within E P m" and "\<And>a h0 h1. m h0 = (Inr a, h1) \<Longrightarrow> within E P (f a)"
  shows "within E P (io_bind m f)"
proof (rule withinI)
  fix h
  obtain r h1 where m: "m h = (r, h1)" by (cases "m h")
  with assms(1) obtain t1 where h1: "h1 = h @ t1" "list_all E t1"
    "\<forall>x. r = Inl (Panic x) \<longrightarrow> x \<in> P" by (rule withinE)
  show "\<exists>t. snd (io_bind m f h) = h @ t \<and> list_all E t \<and>
      (\<forall>x. fst (io_bind m f h) = Inl (Panic x) \<longrightarrow> x \<in> P)"
  proof (cases r)
    case (Inl e)
    with m h1 show ?thesis by simp
  next
    case (Inr a)
    obtain r2 h2 where fa: "f a h1 = (r2, h2)" by (cases "f a h1")
    with assms(2)[of h a h1] m Inr obtain t2 where "h2 = h1 @ t2" "list_all E t2"
      "\<forall>x. r2 = Inl (Panic x) \<longrightarrow> x \<in> P" by (blast elim: withinE)
    with m Inr fa h1 show ?thesis by simp
  qed
qed

lemma within_bind [within_intros]:
  "within E P m \<Longrightarrow> (\<And>a. within E P (f a)) \<Longrightarrow> within E P (io_bind m f)"
  by (rule within_bind_strong)

lemma within_try [within_intros]:
  assumes "within E P m"
  shows "within E P (io_try m)"
proof (rule withinI)
  fix h
  obtain r h1 where m: "m h = (r, h1)" by (cases "m h")
  with assms obtain t where "h1 = h @ t" "list_all E t" "\<forall>x. r = Inl (Panic x) \<longrightarrow> x \<in> P"
    by (rule withinE)
  then show "\<exists>t. snd (io_try m h) = h @ t \<and> list_all E t \<and>
      (\<forall>x. fst (io_try m h) = Inl (Panic x) \<longrightarrow> x \<in> P)"
    by (auto simp: io_try_run m split: sum.splits failure.splits)
qed

lemma within_unwrap [within_intros]:
  assumes "within E P m" and "msg \<in> P"
  shows "within E P (io_unwrap msg m)"
proof (rule withinI)
  fix h
  obtain r h1 where m: "m h = (r, h1)" by (cases "m h")
  with assms(1) obtain t where "h1 = h @ t" "list_all E t" "\<forall>x. r = Inl (Panic x) \<longrightarrow> x \<in> P"
    by (rule withinE)
  with assms(2) show "\<exists>t. snd (io_unwrap msg m h) = h @ t \<and> list_all E t \<and>
      (\<forall>x. fst (io_unwrap msg m h) = Inl (Panic x) \<longrightarrow> x \<in> P)"
    by (auto simp: io_unwrap_run m split: sum.splits failure.splits)
qed

lemma within_cases [within_intros]:
  "within E P a \<Longrightarrow> (\<And>x. within E P (f x)) \<Longrightarrow>
    within E P (case opt of None \<Rightarrow> a | Some x \<Rightarrow> f x)"
  "(\<And>x. within E P (g x)) \<Longrightarrow> (\<And>y. within E P (k y)) \<Longrightarrow>
    within E P (case r of Inl x \<Rightarrow> g x | Inr y \<Rightarrow> k y)"
  "within E P a \<Longrightarrow> within E P b \<Longrightarrow> within E P (if c then a else b)"
  "(\<And>x y. within E P (p x y)) \<Longrightarrow> within E P (case z of (x, y) \<Rightarrow> p x y)"
  by (cases opt; cases r; cases z; simp)+

lemma within_mono:
  "within E P m \<Longrightarrow> (\<And>e. E e \<Longrightarrow> E' e) \<Longrightarrow> P \<subseteq> P' \<Longrightarrow> within E' P' m"
  unfolding within_def list_all_iff by (meson subsetD)

subsection \<open>Successful runs\<close>

lemma io_bind_Inr:
  assumes "io_bind m f h = (Inr b, h')"
  obtains a h1 where "m h = (Inr a, h1)" "f a h1 = (Inr b, h')"
  using assms by (auto simp: io_bind_run split: prod.splits sum.splits)

end
