(* ===== verification/Std_Text.thy ===== *)
theory Std_Text
  imports Prelude
begin

text \<open>
  The text formatting of Rust's standard library that the sources rely on: decimal numbers
  (\<open>ToString\<close> of the unsigned integers), joining with a separator, and the addresses of
  \<open>std::net\<close>. Decimal text and its joined lists read back, so no two port lists share a text.
\<close>

subsection \<open>Addresses\<close>

type_synonym ipv4_addr = "32 word"
type_synonym ipv6_addr = "128 word"

datatype ip_addr = V4 ipv4_addr | V6 ipv6_addr

text \<open>\<open>std::net::SocketAddr\<close>: an address and a port.\<close>

record socket_addr =
  ip :: ip_addr
  port :: u16

subsection \<open>Decimal numbers\<close>

definition digit :: "nat \<Rightarrow> char" where
  "digit d = char_of (48 + d)"

fun dec :: "nat \<Rightarrow> string" where
  "dec n = (if n < 10 then [digit n] else dec (n div 10) @ [digit (n mod 10)])"

declare dec.simps [simp del]

definition undigit :: "char \<Rightarrow> nat" where
  "undigit c = of_char c - 48"

definition is_digit :: "char \<Rightarrow> bool" where
  "is_digit c \<longleftrightarrow> 48 \<le> (of_char c :: nat) \<and> (of_char c :: nat) \<le> 57"

definition undec :: "string \<Rightarrow> nat" where
  "undec s = foldl (\<lambda>n c. 10 * n + undigit c) 0 s"

lemma undigit_digit [simp]: "d < 10 \<Longrightarrow> undigit (digit d) = d"
  by (simp add: undigit_def digit_def of_char_of take_bit_eq_mod)

lemma is_digit_digit [simp]: "d < 10 \<Longrightarrow> is_digit (digit d)"
  by (simp add: is_digit_def digit_def of_char_of take_bit_eq_mod)

lemma undec_dec [simp]: "undec (dec n) = n"
proof (induction n rule: dec.induct)
  case (1 n)
  show ?case
  proof (cases "n < 10")
    case True
    then show ?thesis by (simp add: dec.simps [of n] undec_def)
  next
    case False
    with "1.IH" have "undec (dec (n div 10) @ [digit (n mod 10)]) = 10 * (n div 10) + n mod 10"
      by (simp add: undec_def)
    with False show ?thesis by (simp add: dec.simps [of n])
  qed
qed

lemma dec_digits: "list_all is_digit (dec n)"
proof (induction n rule: dec.induct)
  case (1 n)
  then show ?case by (cases "n < 10") (simp_all add: dec.simps [of n])
qed

lemma dec_not_empty [simp]: "dec n \<noteq> []"
  by (subst dec.simps) simp

lemma dec_inject [simp]: "dec m = dec n \<longleftrightarrow> m = n"
  by (metis undec_dec)

lemma length_dec_le: "n < 10 ^ k \<Longrightarrow> 0 < k \<Longrightarrow> length (dec n) \<le> k"
proof (induction n arbitrary: k rule: dec.induct)
  case (1 n)
  show ?case
  proof (cases "n < 10")
    case True
    with 1 show ?thesis by (simp add: dec.simps [of n])
  next
    case False
    with "1.prems" obtain j where k: "k = Suc j" and "0 < j"
      by (cases k; cases "k - 1") auto
    moreover from "1.prems" k have "n div 10 < 10 ^ j"
      by (simp add: less_mult_imp_div_less mult.commute)
    ultimately have "length (dec (n div 10)) \<le> j" using "1.IH"[OF False] by blast
    with False k show ?thesis by (simp add: dec.simps [of n])
  qed
qed

subsection \<open>Joining and splitting\<close>

text \<open>\<open>slice.join(sep)\<close> for a one-character separator, and its inverse.\<close>

fun join :: "char \<Rightarrow> string list \<Rightarrow> string" where
  "join sep [] = []"
| "join sep [x] = x"
| "join sep (x # y # xs) = x @ sep # join sep (y # xs)"

fun split_on :: "char \<Rightarrow> string \<Rightarrow> string list" where
  "split_on sep [] = [[]]"
| "split_on sep (c # s) =
     (if c = sep then [] # split_on sep s
      else case split_on sep s of [] \<Rightarrow> [[c]] | w # ws \<Rightarrow> (c # w) # ws)"

lemma split_on_not_empty [simp]: "split_on sep s \<noteq> []"
  by (induction s) (auto split: list.splits)

lemma split_on_plain: "sep \<notin> set w \<Longrightarrow> split_on sep w = [w]"
  by (induction w) auto

lemma split_on_sep: "sep \<notin> set w \<Longrightarrow> split_on sep (w @ sep # s) = w # split_on sep s"
  by (induction w) auto

lemma split_on_join:
  "list_all (\<lambda>w. sep \<notin> set w) ws \<Longrightarrow> ws \<noteq> [] \<Longrightarrow> split_on sep (join sep ws) = ws"
  by (induction sep ws rule: join.induct) (simp_all add: split_on_plain split_on_sep)

lemma join_eq_Nil_iff: "list_all (\<lambda>w. w \<noteq> []) ws \<Longrightarrow> join sep ws = [] \<longleftrightarrow> ws = []"
  by (induction sep ws rule: join.induct) simp_all

subsection \<open>Displaying addresses\<close>

definition ipv4_octets :: "ipv4_addr \<Rightarrow> nat list" where
  "ipv4_octets a = (let n = unat a in
     [n div 16777216, n div 65536 mod 256, n div 256 mod 256, n mod 256])"

definition ipv4_to_string :: "ipv4_addr \<Rightarrow> string" where
  "ipv4_to_string a = join (CHR ''.'') (map dec (ipv4_octets a))"

fun hex :: "nat \<Rightarrow> string" where
  "hex n = (if n < 16 then [''0123456789abcdef'' ! n] else hex (n div 16) @ [''0123456789abcdef'' ! (n mod 16)])"

declare hex.simps [simp del]

definition ipv6_segments :: "ipv6_addr \<Rightarrow> nat list" where
  "ipv6_segments a = map (\<lambda>i. unat a div 2 ^ (16 * (7 - i)) mod 65536) [0..<8]"

text \<open>The first longest run of zero segments, as start and length.\<close>

fun zero_run :: "nat \<Rightarrow> nat \<Rightarrow> nat \<times> nat \<Rightarrow> nat list \<Rightarrow> nat \<times> nat" where
  "zero_run i cur best [] = best"
| "zero_run i cur best (x # xs) =
     (if x = 0 then
        let cur' = Suc cur;
            best' = (if cur' > snd best then (Suc i - cur', cur') else best)
        in zero_run (Suc i) cur' best' xs
      else zero_run (Suc i) 0 best xs)"

definition ipv6_to_string :: "ipv6_addr \<Rightarrow> string" where
  "ipv6_to_string a =
     (let segs = ipv6_segments a in
      if take 5 segs = [0, 0, 0, 0, 0] \<and> segs ! 5 = 65535 then
        ''::ffff:'' @ ipv4_to_string (ucast a)
      else let (start, len) = zero_run 0 0 (0, 0) segs in
        if 1 < len then
          join (CHR '':'') (map hex (take start segs)) @ ''::'' @
          join (CHR '':'') (map hex (drop (start + len) segs))
        else join (CHR '':'') (map hex segs))"

fun ip_to_string :: "ip_addr \<Rightarrow> string" where
  "ip_to_string (V4 a) = ipv4_to_string a"
| "ip_to_string (V6 a) = ipv6_to_string a"

definition socket_addr_to_string :: "socket_addr \<Rightarrow> string" where
  "socket_addr_to_string s = (case ip s of
       V4 a \<Rightarrow> ipv4_to_string a @ '':'' @ dec (unat (port s))
     | V6 a \<Rightarrow> ''['' @ ipv6_to_string a @ '']:'' @ dec (unat (port s)))"

lemma ipv4_octets_bound: "\<forall>x \<in> set (ipv4_octets a). x < 256"
proof -
  have "unat a < 4294967296" using unsigned_less[of a, where 'a = nat] by simp
  then have "unat a div 16777216 < 256" by (simp add: less_mult_imp_div_less)
  then show ?thesis by (simp add: ipv4_octets_def Let_def)
qed

lemma bytes_of_nat:
  "(n::nat) = ((n div 16777216 * 256 + n div 65536 mod 256) * 256 + n div 256 mod 256) * 256 + n mod 256"
proof -
  have "n div 16777216 = n div 65536 div 256" and "n div 65536 = n div 256 div 256"
    by (simp_all add: div_mult2_eq [symmetric])
  then have "n div 16777216 * 256 + n div 65536 mod 256 = n div 256 div 256"
    and "n div 256 div 256 * 256 + n div 256 mod 256 = n div 256"
    and "n div 256 * 256 + n mod 256 = n"
    by (simp_all only: div_mult_mod_eq)
  then show ?thesis by (simp only:)
qed

lemma ipv4_octets_inject [simp]: "ipv4_octets a = ipv4_octets b \<longleftrightarrow> a = b"
proof
  assume "ipv4_octets a = ipv4_octets b"
  then have "unat a = unat b"
    using bytes_of_nat[of "unat a"] bytes_of_nat[of "unat b"]
    by (simp add: ipv4_octets_def Let_def)
  then show "a = b" by (simp add: word_unat_eq_iff)
qed simp

lemma digit_not_dot: "is_digit c \<Longrightarrow> c \<noteq> CHR ''.'' \<and> c \<noteq> CHR '','' \<and> c \<noteq> CHR ''/'' \<and> c \<noteq> CHR '':''"
  by (auto simp: is_digit_def)

lemma dec_no_separator:
  "CHR ''.'' \<notin> set (dec n)" "CHR '','' \<notin> set (dec n)" "CHR ''/'' \<notin> set (dec n)"
  "CHR '':'' \<notin> set (dec n)"
  using dec_digits[of n] digit_not_dot by (auto simp: list_all_iff)

lemma split_join_dec:
  assumes "sep = CHR ''.'' \<or> sep = CHR '',''" and "ms \<noteq> []"
  shows "map undec (split_on sep (join sep (map dec ms))) = ms"
proof -
  have "list_all (\<lambda>w. sep \<notin> set w) (map dec ms)"
    using assms(1) dec_no_separator by (auto simp: list_all_iff)
  then have "split_on sep (join sep (map dec ms)) = map dec ms"
    using assms(2) by (intro split_on_join) simp_all
  then show ?thesis by (simp add: comp_def)
qed

lemma join_dec_inject:
  assumes "sep = CHR ''.'' \<or> sep = CHR '',''" and "ms \<noteq> []" and "ns \<noteq> []"
    and "join sep (map dec ms) = join sep (map dec ns)"
  shows "ms = ns"
  using assms split_join_dec by metis

lemma ipv4_to_string_inject [simp]: "ipv4_to_string a = ipv4_to_string b \<longleftrightarrow> a = b"
proof
  assume "ipv4_to_string a = ipv4_to_string b"
  moreover have "ipv4_octets a \<noteq> []" and "ipv4_octets b \<noteq> []"
    by (simp_all add: ipv4_octets_def Let_def)
  ultimately have "ipv4_octets a = ipv4_octets b"
    unfolding ipv4_to_string_def by (intro join_dec_inject[of "CHR ''.''"]) auto
  then show "a = b" by simp
qed simp

end
