(* ===== verification/Http_Lib.thy ===== *)
theory Http_Lib
  imports Std_Text
begin

text \<open>
  The interface of the third-party crates the proxy calls: \<open>http\<close> (\<open>Uri\<close>, \<open>HeaderMap\<close>,
  \<open>Method\<close>, \<open>StatusCode\<close>), \<open>hyper::Body\<close>, \<open>serde_json\<close>, \<open>json_patch\<close>,
  \<open>serde_urlencoded\<close>, \<open>wildmatch\<close> and \<open>base64\<close>. None of that code is in the repository,
  so every operation is a field of a record of parameters: a URI, a path-and-query, a
  header map and a JSON value are opaque types \<open>'u\<close>, \<open>'q\<close>, \<open>'h\<close>, \<open>'j\<close>. The laws the code
  relies on are predicates on the record, stating what the crates document; they are
  hypotheses of the theorems that need them. At the end, a small concrete instance on
  which the theorems are applied to inputs.

  A method is represented by its token, a status code by its number, a header name by its
  (lower-case) text, a header value by its bytes, a scheme and an authority by their text:
  the views on which the crates define equality.
\<close>

type_synonym hname = string
type_synonym hvalue = bytes

text \<open>A \<open>hyper::Body\<close> is the stream of items it yields.\<close>

type_synonym body = "(error + bytes) list"

text \<open>\<open>http::uri::Parts\<close>.\<close>

record 'q uri_parts =
  scheme :: "string option"
  authority :: "string option"
  path_and_query :: "'q option"

record ('u, 'q, 'h, 'j) lib =
  uri_path :: "'u \<Rightarrow> string"
  uri_into_parts :: "'u \<Rightarrow> 'q uri_parts"
  uri_from_parts :: "'q uri_parts \<Rightarrow> error + 'u"
  paq_parse :: "string \<Rightarrow> error + 'q"
  paq_show :: "'q \<Rightarrow> string"
  paq_path :: "'q \<Rightarrow> string"
  paq_query :: "'q \<Rightarrow> string option"
  authority_parse :: "string \<Rightarrow> error + string"
  authority_of_bytes :: "bytes \<Rightarrow> error + string"
  method_parse :: "string \<Rightarrow> error + string"
  status_from_u16 :: "u16 \<Rightarrow> error + u16"
  hname_parse :: "string \<Rightarrow> error + hname"
  hvalue_parse :: "string \<Rightarrow> error + hvalue"
  hm_new :: "'h"
  hm_iter :: "'h \<Rightarrow> (hname \<times> hvalue) list"
  hm_get_all :: "'h \<Rightarrow> hname \<Rightarrow> hvalue list"
  hm_insert :: "hname \<Rightarrow> hvalue \<Rightarrow> 'h \<Rightarrow> 'h"
  hm_append :: "hname \<Rightarrow> hvalue \<Rightarrow> 'h \<Rightarrow> 'h"
  hm_remove :: "hname \<Rightarrow> 'h \<Rightarrow> 'h"
  hm_of_hash_map :: "(string \<rightharpoonup> string) \<Rightarrow> error + 'h"
  body_of :: "bytes \<Rightarrow> body"
  body_default :: body
  json_from_slice :: "bytes \<Rightarrow> error + 'j"
  json_from_str :: "string \<Rightarrow> error + 'j"
  json_merge :: "'j \<Rightarrow> 'j \<Rightarrow> 'j"
  json_to_vec :: "'j \<Rightarrow> error + bytes"
  urlencode_pairs :: "(string \<times> string) list \<Rightarrow> error + string"
  urlencode_map :: "(string \<rightharpoonup> string) \<Rightarrow> error + string"
  urldecode_map :: "string \<Rightarrow> error + (string \<rightharpoonup> string)"
  wild_matches :: "string \<Rightarrow> string \<Rightarrow> bool"
  base64_decode :: "string \<Rightarrow> error + bytes"

text \<open>Well-known header names.\<close>

definition CONTENT_LENGTH :: hname where
  "CONTENT_LENGTH = ''content-length''"

definition HOST :: hname where
  "HOST = ''host''"

subsection \<open>The documented laws\<close>

text \<open>
  \<open>HeaderMap\<close> is a multimap: \<open>insert\<close> replaces all values of a key, \<open>append\<close> adds one after
  them, \<open>remove\<close> drops them all; \<open>iter\<close> visits every stored pair.
\<close>

definition header_laws :: "('u, 'q, 'h, 'j) lib \<Rightarrow> bool" where
  "header_laws L \<longleftrightarrow>
     (\<forall>k. hm_get_all L (hm_new L) k = []) \<and>
     (\<forall>h k v k'. hm_get_all L (hm_insert L k v h) k' =
        (if k' = k then [v] else hm_get_all L h k')) \<and>
     (\<forall>h k v k'. hm_get_all L (hm_append L k v h) k' =
        (if k' = k then hm_get_all L h k @ [v] else hm_get_all L h k')) \<and>
     (\<forall>h k k'. hm_get_all L (hm_remove L k h) k' =
        (if k' = k then [] else hm_get_all L h k')) \<and>
     (\<forall>h k v. v \<in> set (hm_get_all L h k) \<longleftrightarrow> (k, v) \<in> set (hm_iter L h))"

text \<open>A URI that is built from parts gives them back: with all three parts present, and with
  a path-and-query parsed from a text that is not empty; its path is the path of its
  path-and-query.\<close>

definition uri_laws :: "('u, 'q, 'h, 'j) lib \<Rightarrow> bool" where
  "uri_laws L \<longleftrightarrow>
     (\<forall>s a q u. uri_from_parts L \<lparr>scheme = Some s, authority = Some a, path_and_query = Some q\<rparr> = Inr u
        \<longrightarrow> uri_into_parts L u = \<lparr>scheme = Some s, authority = Some a, path_and_query = Some q\<rparr>) \<and>
     (\<forall>t q s a u. t \<noteq> [] \<and> hd t \<noteq> CHR ''#'' \<and> paq_parse L t = Inr q \<and>
        uri_from_parts L \<lparr>scheme = s, authority = a, path_and_query = Some q\<rparr> = Inr u
        \<longrightarrow> uri_into_parts L u = \<lparr>scheme = s, authority = a, path_and_query = Some q\<rparr>) \<and>
     (\<forall>u q. path_and_query (uri_into_parts L u) = Some q \<longrightarrow> uri_path L u = paq_path L q)"

text \<open>A path-and-query is a path that is not empty, and an optional query, without a fragment;
  parsing splits a text at its first question mark, displaying puts the two together.\<close>

definition paq_laws :: "('u, 'q, 'h, 'j) lib \<Rightarrow> bool" where
  "paq_laws L \<longleftrightarrow>
     (\<forall>x. paq_path L x \<noteq> [] \<and> CHR ''?'' \<notin> set (paq_path L x) \<and> CHR ''#'' \<notin> set (paq_path L x)) \<and>
     (\<forall>x q. paq_query L x = Some q \<longrightarrow> CHR ''#'' \<notin> set q) \<and>
     (\<forall>p q x. p \<noteq> [] \<and> CHR ''?'' \<notin> set p \<and> CHR ''#'' \<notin> set p \<and> CHR ''#'' \<notin> set q \<and>
        paq_parse L (p @ ''?'' @ q) = Inr x \<longrightarrow> paq_path L x = p \<and> paq_query L x = Some q) \<and>
     (\<forall>p x. p \<noteq> [] \<and> CHR ''?'' \<notin> set p \<and> CHR ''#'' \<notin> set p \<and>
        paq_parse L p = Inr x \<longrightarrow> paq_path L x = p \<and> paq_query L x = None) \<and>
     (\<forall>x r. paq_path L x = CHR ''/'' # r \<longrightarrow>
        paq_show L x = paq_path L x @ (case paq_query L x of None \<Rightarrow> '''' | Some q \<Rightarrow> ''?'' @ q))"

text \<open>Encoding a map of query parameters and decoding the result gives the map back; the
  encoding is percent-escaped, so it holds no number sign.\<close>

definition query_laws :: "('u, 'q, 'h, 'j) lib \<Rightarrow> bool" where
  "query_laws L \<longleftrightarrow> (\<forall>m s. urlencode_map L m = Inr s \<longrightarrow>
     urldecode_map L s = Inr m \<and> CHR ''#'' \<notin> set s)"

text \<open>A stream body made of a byte string yields that byte string.\<close>

fun body_bytes :: "bytes \<Rightarrow> body \<Rightarrow> error + bytes" where
  "body_bytes acc [] = Inr acc"
| "body_bytes acc (Inl e # rest) = Inl e"
| "body_bytes acc (Inr seg # rest) = body_bytes (acc @ seg) rest"

definition body_laws :: "('u, 'q, 'h, 'j) lib \<Rightarrow> bool" where
  "body_laws L \<longleftrightarrow> (\<forall>bs. body_bytes [] (body_of L bs) = Inr bs) \<and>
     body_bytes [] (body_default L) = Inr []"

lemma header_laws_simps:
  assumes "header_laws L"
  shows "hm_get_all L (hm_new L) k = []"
    and "hm_get_all L (hm_insert L k v h) k' = (if k' = k then [v] else hm_get_all L h k')"
    and "hm_get_all L (hm_append L k v h) k' =
           (if k' = k then hm_get_all L h k @ [v] else hm_get_all L h k')"
    and "hm_get_all L (hm_remove L k h) k' = (if k' = k then [] else hm_get_all L h k')"
    and "(k, v) \<in> set (hm_iter L h) \<longleftrightarrow> v \<in> set (hm_get_all L h k)"
  using assms unfolding header_laws_def by auto

lemma uri_laws_rebuild:
  assumes "uri_laws L"
    and "uri_from_parts L \<lparr>scheme = Some s, authority = Some a, path_and_query = Some q\<rparr> = Inr u"
  shows "uri_into_parts L u = \<lparr>scheme = Some s, authority = Some a, path_and_query = Some q\<rparr>"
  using assms unfolding uri_laws_def by blast

lemma uri_laws_parsed:
  assumes "uri_laws L" and "paq_parse L t = Inr q" and "t \<noteq> []" and "hd t \<noteq> CHR ''#''"
    and "uri_from_parts L (parts\<lparr>path_and_query := Some q\<rparr>) = Inr u"
  shows "uri_into_parts L u = parts\<lparr>path_and_query := Some q\<rparr>"
proof (cases parts)
  case (fields s a q0)
  with assms(5) have "uri_from_parts L \<lparr>scheme = s, authority = a, path_and_query = Some q\<rparr> = Inr u"
    by simp
  with assms(1-4) have "uri_into_parts L u = \<lparr>scheme = s, authority = a, path_and_query = Some q\<rparr>"
    unfolding uri_laws_def by blast
  with fields show ?thesis by simp
qed

lemma uri_laws_path:
  assumes "uri_laws L" and "path_and_query (uri_into_parts L u) = Some q"
  shows "uri_path L u = paq_path L q"
  using assms unfolding uri_laws_def by blast

lemma paq_laws_query:
  assumes "paq_laws L" and "p \<noteq> []" and "CHR ''?'' \<notin> set p" and "CHR ''#'' \<notin> set p"
    and "CHR ''#'' \<notin> set q" and "paq_parse L (p @ ''?'' @ q) = Inr x"
  shows "paq_path L x = p" and "paq_query L x = Some q"
  using assms unfolding paq_laws_def by blast+

lemma paq_laws_plain:
  assumes "paq_laws L" and "p \<noteq> []" and "CHR ''?'' \<notin> set p" and "CHR ''#'' \<notin> set p"
    and "paq_parse L p = Inr x"
  shows "paq_path L x = p" and "paq_query L x = None"
  using assms unfolding paq_laws_def by blast+

lemma paq_laws_form:
  assumes "paq_laws L"
  shows "paq_path L x \<noteq> []" and "CHR ''?'' \<notin> set (paq_path L x)"
    and "CHR ''#'' \<notin> set (paq_path L x)"
    and "paq_query L x = Some q \<Longrightarrow> CHR ''#'' \<notin> set q"
  using assms unfolding paq_laws_def by blast+

lemma paq_laws_show:
  assumes "paq_laws L" and "paq_path L x = CHR ''/'' # r"
  shows "paq_show L x = paq_path L x @ (case paq_query L x of None \<Rightarrow> '''' | Some q \<Rightarrow> ''?'' @ q)"
  using assms unfolding paq_laws_def by blast

lemma query_laws_decode:
  assumes "query_laws L" and "urlencode_map L m = Inr s"
  shows "urldecode_map L s = Inr m" and "CHR ''#'' \<notin> set s"
  using assms unfolding query_laws_def by blast+

lemma body_bytes_append:
  "body_bytes acc b = Inr bs \<Longrightarrow> \<exists>t. bs = acc @ t"
  by (induction acc b rule: body_bytes.induct) auto

subsection \<open>A concrete instance\<close>

text \<open>
  Text is kept as it is: a path-and-query is its text split at the first question mark, a
  header map is its list of pairs, a JSON document is its bytes and a merge appends the
  patch. It serves to apply the theorems to inputs, and nothing in the model depends on it.
\<close>

type_synonym demo_paq = "string \<times> string option"

definition demo_split :: "string \<Rightarrow> demo_paq" where
  "demo_split s = (let p = takeWhile (\<lambda>c. c \<noteq> CHR ''?'') s; r = dropWhile (\<lambda>c. c \<noteq> CHR ''?'') s
     in (p, case r of [] \<Rightarrow> None | _ # q \<Rightarrow> Some q))"

definition demo_path :: "demo_paq \<Rightarrow> string" where
  "demo_path x = (let p = filter (\<lambda>c. c \<noteq> CHR ''?'' \<and> c \<noteq> CHR ''#'') (fst x)
     in if p = [] then ''/'' else p)"

definition demo_query :: "demo_paq \<Rightarrow> string option" where
  "demo_query x = map_option (filter (\<lambda>c. c \<noteq> CHR ''#'')) (snd x)"

definition demo_show :: "demo_paq \<Rightarrow> string" where
  "demo_show x = demo_path x @ (case demo_query x of None \<Rightarrow> '''' | Some q \<Rightarrow> ''?'' @ q)"

definition demo_encode :: "(string \<rightharpoonup> string) \<Rightarrow> error + string" where
  "demo_encode m = (if m = Map.empty then Inr ''''
     else if m = [''x'' \<mapsto> the (m ''x'')] \<and> CHR ''#'' \<notin> set (the (m ''x''))
       then Inr (''x='' @ the (m ''x''))
     else Inl (External ''encode''))"

definition demo_pairs :: "(string \<times> string) list \<Rightarrow> string" where
  "demo_pairs kvs = concat (map (\<lambda>(k, v). k @ ''='' @ v @ ''&'') kvs)"

definition demo_lib ::
  "(demo_paq uri_parts, demo_paq, (hname \<times> hvalue) list, bytes) lib" where
  "demo_lib = \<lparr>
     uri_path = (\<lambda>u. case path_and_query u of None \<Rightarrow> '''' | Some q \<Rightarrow> demo_path q),
     uri_into_parts = (\<lambda>u. u),
     uri_from_parts = (\<lambda>p. Inr p),
     paq_parse = (\<lambda>s. if s = [] then Inl (External ''empty'') else Inr (demo_split s)),
     paq_show = demo_show,
     paq_path = demo_path,
     paq_query = demo_query,
     authority_parse = (\<lambda>s. Inr s),
     authority_of_bytes = (\<lambda>bs. Inr (map (\<lambda>b. char_of (unat b)) bs)),
     method_parse = (\<lambda>s. if s = [] then Inl (External ''method'') else Inr s),
     status_from_u16 = (\<lambda>c. if 100 \<le> c \<and> c < 1000 then Inr c else Inl (External ''status'')),
     hname_parse = (\<lambda>s. if s = [] then Inl (External ''name'') else Inr s),
     hvalue_parse = (\<lambda>s. Inr (into_bytes s)),
     hm_new = [],
     hm_iter = (\<lambda>h. h),
     hm_get_all = (\<lambda>h k. map snd (filter (\<lambda>p. fst p = k) h)),
     hm_insert = (\<lambda>k v h. filter (\<lambda>p. fst p \<noteq> k) h @ [(k, v)]),
     hm_append = (\<lambda>k v h. h @ [(k, v)]),
     hm_remove = (\<lambda>k h. filter (\<lambda>p. fst p \<noteq> k) h),
     hm_of_hash_map = (\<lambda>m. Inr (case m ''x'' of None \<Rightarrow> [] | Some v \<Rightarrow> [(''x'', into_bytes v)])),
     body_of = (\<lambda>bs. [Inr bs]),
     body_default = [],
     json_from_slice = (\<lambda>bs. Inr bs),
     json_from_str = (\<lambda>s. Inr (into_bytes s)),
     json_merge = (\<lambda>v p. v @ p),
     json_to_vec = (\<lambda>v. Inr v),
     urlencode_pairs = (\<lambda>kvs. Inr (demo_pairs kvs)),
     urlencode_map = demo_encode,
     urldecode_map = (\<lambda>s. Inr (if s = [] then Map.empty else [''x'' \<mapsto> drop 2 s])),
     wild_matches = (\<lambda>p s. p = s \<or> p = ''*''),
     base64_decode = (\<lambda>s. if s = [] then Inl (External ''base64'') else Inr (into_bytes s))\<rparr>"

lemma filter_other_key:
  "k' \<noteq> k \<Longrightarrow> filter (\<lambda>x. fst x \<noteq> k \<and> fst x = k') h = filter (\<lambda>x. fst x = k') h"
  by (rule filter_cong) auto

lemma demo_header_laws [simp]: "header_laws demo_lib"
  unfolding header_laws_def
  by (auto simp: demo_lib_def filter_other_key image_iff Bex_def)

lemma demo_uri_laws [simp]: "uri_laws demo_lib"
  unfolding uri_laws_def by (auto simp: demo_lib_def split: option.splits)

lemma demo_split_query: "CHR ''?'' \<notin> set p \<Longrightarrow> demo_split (p @ ''?'' @ q) = (p, Some q)"
  by (induction p) (auto simp: demo_split_def Let_def)

lemma demo_split_plain: "CHR ''?'' \<notin> set p \<Longrightarrow> demo_split p = (p, None)"
  by (induction p) (auto simp: demo_split_def Let_def)

lemma filter_none_removed: "c \<notin> set xs \<Longrightarrow> filter (\<lambda>d. d \<noteq> c) xs = xs"
  by (rule filter_True) auto

lemma demo_path_plain:
  "p \<noteq> [] \<Longrightarrow> CHR ''?'' \<notin> set p \<Longrightarrow> CHR ''#'' \<notin> set p \<Longrightarrow> demo_path (p, q) = p"
proof -
  assume "p \<noteq> []" and "CHR ''?'' \<notin> set p" and "CHR ''#'' \<notin> set p"
  moreover from this have "filter (\<lambda>c. c \<noteq> CHR ''?'' \<and> c \<noteq> CHR ''#'') p = p"
    by (intro filter_True) auto
  ultimately show ?thesis by (simp add: demo_path_def)
qed

lemma demo_path_form:
  "demo_path x \<noteq> [] \<and> CHR ''?'' \<notin> set (demo_path x) \<and> CHR ''#'' \<notin> set (demo_path x)"
  by (auto simp: demo_path_def Let_def)

lemma demo_paq_laws [simp]: "paq_laws demo_lib"
  unfolding paq_laws_def using demo_split_query demo_split_plain demo_path_form
  by (auto simp: demo_lib_def demo_path_plain demo_query_def demo_show_def filter_none_removed
      split: if_splits)

lemma demo_query_laws [simp]: "query_laws demo_lib"
  unfolding query_laws_def by (auto simp: demo_lib_def demo_encode_def split: if_splits)

lemma demo_body_laws [simp]: "body_laws demo_lib"
  by (simp add: body_laws_def demo_lib_def)

end
