(* ===== verification/Selector.thy ===== *)
theory Selector
  imports Http_Lib
begin

text \<open>
  \<open>handler/http/selector.rs\<close> and \<open>handler/http/rule.rs\<close> of the proxy: which requests and
  responses a rule is about. The messages are the parts of \<open>http::Request\<close> and
  \<open>http::Response\<close> the proxy reads or writes, with the version as the part it never
  touches.
\<close>

datatype role = Client "ipv4_addr list" | Server "ipv4_addr list"

record ('u, 'h) request =
  req_method :: string
  req_uri :: 'u
  req_version :: string
  req_headers :: 'h
  req_body :: body

record 'h response =
  rsp_status :: u16
  rsp_version :: string
  rsp_headers :: 'h
  rsp_body :: body

text \<open>A compiled pattern \<open>WildMatch::new(p)\<close> is represented by its pattern.\<close>

datatype wild_match = WildMatch string

fun wm_matches :: "('u, 'q, 'h, 'j) lib \<Rightarrow> wild_match \<Rightarrow> string \<Rightarrow> bool" where
  "wm_matches L (WildMatch p) s = wild_matches L p s"

record 'h selector =
  sel_port :: "u16 option"
  sel_path :: "wild_match option"
  sel_method :: "string option"
  sel_code :: "u16 option"
  sel_request_headers :: "'h option"
  sel_response_headers :: "'h option"

datatype target = Request | Response

definition select_role :: "ip_addr \<Rightarrow> ip_addr \<Rightarrow> role \<Rightarrow> bool" where
  "select_role src_ip dst_ip r =
     (case src_ip of V6 _ \<Rightarrow> False | V4 src_ipv4 \<Rightarrow>
       (case dst_ip of V6 _ \<Rightarrow> False | V4 dst_ipv4 \<Rightarrow>
         (case r of
            Client ipv4s \<Rightarrow> list_ex (\<lambda>ipv4. ipv4 = src_ipv4) ipv4s
          | Server ipv4s \<Rightarrow> list_ex (\<lambda>ipv4. ipv4 = dst_ipv4) ipv4s)))"

text \<open>The header criterion of both selectors: every (name, value) pair of the selector is
  among the message's values of that name.\<close>

definition headers_match :: "('u, 'q, 'h, 'j) lib \<Rightarrow> 'h \<Rightarrow> 'h \<Rightarrow> bool" where
  "headers_match L hdrs flds =
     list_all (\<lambda>(header, v). list_ex (\<lambda>f. f = v) (hm_get_all L hdrs header)) (hm_iter L flds)"

definition select_request ::
  "('u, 'q, 'h, 'j) lib \<Rightarrow> u16 \<Rightarrow> ('u, 'h) request \<Rightarrow> 'h selector \<Rightarrow> bool" where
  "select_request L prt req sel =
     (opt_all (\<lambda>p. prt = p) (sel_port sel)
      \<and> opt_all (\<lambda>p. wm_matches L p (uri_path L (req_uri req))) (sel_path sel)
      \<and> opt_all (\<lambda>m. req_method req = m) (sel_method sel)
      \<and> opt_all (headers_match L (req_headers req)) (sel_request_headers sel))"

definition select_response ::
  "('u, 'q, 'h, 'j) lib \<Rightarrow> u16 \<Rightarrow> 'u \<Rightarrow> string \<Rightarrow> 'h \<Rightarrow> 'h response \<Rightarrow> 'h selector \<Rightarrow> bool"
  where
  "select_response L prt uri method request_headers rsp sel =
     (opt_all (\<lambda>p. prt = p) (sel_port sel)
      \<and> opt_all (\<lambda>p. wm_matches L p (uri_path L uri)) (sel_path sel)
      \<and> opt_all (\<lambda>m. method = m) (sel_method sel)
      \<and> opt_all (\<lambda>code. rsp_status rsp = code) (sel_code sel)
      \<and> opt_all (headers_match L request_headers) (sel_request_headers sel)
      \<and> opt_all (headers_match L (rsp_headers rsp)) (sel_response_headers sel))"

lemmas select_defs = select_request_def select_response_def

subsection \<open>Roles\<close>

lemma select_role_iff:
  "select_role src dst r \<longleftrightarrow>
     (\<exists>s d. src = V4 s \<and> dst = V4 d \<and>
        (case r of Client ips \<Rightarrow> s \<in> set ips | Server ips \<Rightarrow> d \<in> set ips))"
  by (auto simp: select_role_def list_ex_iff split: ip_addr.splits role.splits)

subsection \<open>The header criterion\<close>

lemma headers_match_iter:
  "headers_match L hdrs flds \<longleftrightarrow>
     (\<forall>(k, v) \<in> set (hm_iter L flds). v \<in> set (hm_get_all L hdrs k))"
  by (auto simp: headers_match_def list_all_iff list_ex_iff)

lemma headers_match_iff:
  assumes "header_laws L"
  shows "headers_match L hdrs flds \<longleftrightarrow>
     (\<forall>k. set (hm_get_all L flds k) \<subseteq> set (hm_get_all L hdrs k))"
  by (auto simp: headers_match_iter header_laws_simps[OF assms] subset_iff)

lemma headers_match_append:
  assumes "header_laws L" and "headers_match L hdrs flds"
  shows "headers_match L (hm_append L k v hdrs) flds"
  using assms(2) by (auto simp: headers_match_iff[OF assms(1)] header_laws_simps[OF assms(1)])

lemma headers_match_mono:
  assumes "set (hm_iter L flds) \<subseteq> set (hm_iter L flds')" and "headers_match L hdrs flds'"
  shows "headers_match L hdrs flds"
  using assms by (auto simp: headers_match_iter)

subsection \<open>Selectors as sets of criteria\<close>

text \<open>\<open>weaker c c'\<close>: an absent criterion is weaker than any, a present one only than itself.\<close>

definition weaker :: "'a option \<Rightarrow> 'a option \<Rightarrow> bool" where
  "weaker c c' \<longleftrightarrow> c = None \<or> c = c'"

definition weaker_headers :: "('u, 'q, 'h, 'j) lib \<Rightarrow> 'h option \<Rightarrow> 'h option \<Rightarrow> bool" where
  "weaker_headers L c c' \<longleftrightarrow> c = None \<or>
     (\<exists>f f'. c = Some f \<and> c' = Some f' \<and> set (hm_iter L f) \<subseteq> set (hm_iter L f'))"

text \<open>The narrowing order on selectors: \<open>s'\<close> has every criterion of \<open>s\<close>, perhaps more.\<close>

definition narrows :: "('u, 'q, 'h, 'j) lib \<Rightarrow> 'h selector \<Rightarrow> 'h selector \<Rightarrow> bool" where
  "narrows L s s' \<longleftrightarrow>
     weaker (sel_port s) (sel_port s') \<and> weaker (sel_path s) (sel_path s') \<and>
     weaker (sel_method s) (sel_method s') \<and> weaker (sel_code s) (sel_code s') \<and>
     weaker_headers L (sel_request_headers s) (sel_request_headers s') \<and>
     weaker_headers L (sel_response_headers s) (sel_response_headers s')"

lemma opt_all_weaker: "weaker c c' \<Longrightarrow> opt_all p c' \<Longrightarrow> opt_all p c"
  by (auto simp: weaker_def)

lemma opt_all_weaker_headers:
  "weaker_headers L c c' \<Longrightarrow> opt_all (headers_match L h) c' \<Longrightarrow> opt_all (headers_match L h) c"
  by (auto simp: weaker_headers_def dest: headers_match_mono)

lemmas narrowing = opt_all_weaker opt_all_weaker_headers

definition any_selector :: "'h selector" where
  "any_selector = \<lparr>sel_port = None, sel_path = None, sel_method = None, sel_code = None,
     sel_request_headers = None, sel_response_headers = None\<rparr>"

lemma any_selector_selects [simp]:
  "select_request L prt req any_selector"
  "select_response L prt uri meth hdrs rsp any_selector"
  by (simp_all add: select_defs any_selector_def)

lemma any_selector_narrows: "narrows L any_selector s"
  by (simp add: narrows_def any_selector_def weaker_def weaker_headers_def)

text \<open>Criteria only narrow. A selector that has every criterion of another one (and
  perhaps more) selects no message the other does not: on requests, and on responses with
  the request they answer.\<close>

theorem selectors_narrow:
  assumes "narrows L s s'"
  shows "(select_request L prt req s' \<longrightarrow> select_request L prt req s) \<and>
         (select_response L prt uri meth hdrs rsp s' \<longrightarrow> select_response L prt uri meth hdrs rsp s)"
  using assms unfolding narrows_def select_defs by (auto elim: narrowing)

definition path_selector :: "'h selector" where
  "path_selector = any_selector\<lparr>sel_path := Some (WildMatch ''/a'')\<rparr>"

definition path_get_selector :: "'h selector" where
  "path_get_selector = path_selector\<lparr>sel_method := Some ''GET''\<rparr>"

definition demo_uri :: "string \<Rightarrow> demo_paq uri_parts" where
  "demo_uri s = \<lparr>scheme = None, authority = None, path_and_query = Some (demo_split s)\<rparr>"

definition demo_request :: "(demo_paq uri_parts, (hname \<times> hvalue) list) request" where
  "demo_request = \<lparr>req_method = ''GET'', req_uri = demo_uri ''/a?k=v'', req_version = ''1.1'',
     req_headers = [(HOST, into_bytes ''h''), (CONTENT_LENGTH, into_bytes ''2'')],
     req_body = [Inr (into_bytes ''o''), Inr (into_bytes ''k'')]\<rparr>"

lemmas demo_defs = demo_lib_def demo_request_def demo_uri_def demo_split_def demo_show_def
  demo_path_def demo_query_def demo_encode_def
  HOST_def CONTENT_LENGTH_def into_bytes_def

theorem selectors_narrow_witness:
  "narrows demo_lib path_selector path_get_selector \<and>
   select_request demo_lib 80 demo_request path_get_selector \<and>
   select_request demo_lib 80 demo_request path_selector"
proof -
  have n: "narrows demo_lib path_selector path_get_selector"
    by (simp add: narrows_def path_get_selector_def path_selector_def any_selector_def
        weaker_def weaker_headers_def)
  have s: "select_request demo_lib 80 demo_request path_get_selector"
    by (simp add: select_request_def path_get_selector_def path_selector_def any_selector_def
        demo_defs Let_def)
  from n s show ?thesis using selectors_narrow [OF n] by blast
qed

text \<open>What a response rule sees of the request is what a request rule would have seen. A
  response is selected exactly when the request criteria select the request it answers
  (its URI, method and headers, on the same port), the status is the selector's, and the
  response carries the selector's response headers.\<close>

theorem select_response_factors:
  "select_response L prt (req_uri req) (req_method req) (req_headers req) rsp sel \<longleftrightarrow>
     select_request L prt req sel \<and>
     (sel_code sel = None \<or> sel_code sel = Some (rsp_status rsp)) \<and>
     (sel_response_headers sel = None \<or>
       headers_match L (rsp_headers rsp) (the (sel_response_headers sel)))"
  by (auto simp: select_defs opt_all_def split: option.splits)

end
