(* ===== verification/Action.thy ===== *)
theory Action
  imports Selector
begin

text \<open>
  \<open>handler/http/action.rs\<close> of the proxy: the chaos actions and their application to a
  request or a response. The effects an application can have are the sleep of a delay and
  nothing else; the proxy's later effect, forwarding a request, is declared here too so that
  one history covers a whole exchange.
\<close>

text \<open>A \<open>Duration\<close> is its number of nanoseconds.\<close>

type_synonym duration = nat

datatype 'j patch_body_contents = JSON 'j

record 'j patch_body_action =
  pb_contents :: "'j patch_body_contents"

record replace_body_action =
  rb_contents :: bytes

record ('h, 'j) patch_action =
  pa_body :: "'j patch_body_action option"
  pa_queries :: "string option"
  pa_headers :: "'h option"

record 'h replace_action =
  ra_path :: "string option"
  ra_method :: "string option"
  ra_body :: "replace_body_action option"
  ra_code :: "u16 option"
  ra_queries :: "(string \<rightharpoonup> string) option"
  ra_headers :: "'h option"

record ('h, 'j) actions =
  act_abort :: bool
  act_delay :: "duration option"
  act_replace :: "'h replace_action option"
  act_patch :: "('h, 'j) patch_action option"

record ('h, 'j) rule =
  rule_target :: target
  rule_selector :: "'h selector"
  rule_actions :: "('h, 'j) actions"

datatype ('u, 'h) pevent =
  Sleep duration
| Forward bool socket_addr socket_addr "('u, 'h) request"

subsection \<open>Reading a body\<close>

text \<open>\<open>read_value\<close> takes the body out of the message (\<open>mem::take\<close> leaves the default body),
  folds its segments and parses the bytes. The result is paired with the body left behind.\<close>

definition read_value :: "('u, 'q, 'h, 'j) lib \<Rightarrow> body \<Rightarrow> 'j res \<times> body" where
  "read_value L body =
     (let tmp = body in
      (res_bind (ext (body_bytes [] tmp)) (\<lambda>data. ext (json_from_slice L data)),
       body_default L))"

subsection \<open>URI edits\<close>

definition append_queries :: "('u, 'q, 'h, 'j) lib \<Rightarrow> 'u \<Rightarrow> string option \<Rightarrow> 'u res" where
  "append_queries L uri raw_queries =
     (let queries = unwrap_or '''' raw_queries in
      if queries \<noteq> [] then
        let parts = uri_into_parts L uri;
            new = (case path_and_query parts of
                Some old \<Rightarrow>
                  (if paq_query L old \<noteq> None then paq_show L old @ ''&'' @ queries
                   else paq_show L old @ ''?'' @ queries)
              | None \<Rightarrow> ''/?'' @ queries)
        in res_bind (ext (paq_parse L new)) (\<lambda>paq.
             ext (uri_from_parts L (parts\<lparr>path_and_query := Some paq\<rparr>)))
      else Inr uri)"

definition replace_path :: "('u, 'q, 'h, 'j) lib \<Rightarrow> 'u \<Rightarrow> string option \<Rightarrow> 'u res" where
  "replace_path L uri raw_path =
     (case raw_path of None \<Rightarrow> Inr uri
      | Some p \<Rightarrow>
        let path = (if p = '''' then ''/'' else p);
            parts = uri_into_parts L uri
        in res_bind
             (case path_and_query parts of None \<Rightarrow> Inr parts
              | Some paq \<Rightarrow> res_bind
                  (case paq_query L paq of
                     Some q \<Rightarrow> ext (paq_parse L (path @ ''?'' @ q))
                   | None \<Rightarrow> ext (paq_parse L path))
                  (\<lambda>paq'. Inr (parts\<lparr>path_and_query := Some paq'\<rparr>)))
             (\<lambda>parts'. ext (uri_from_parts L parts')))"

definition replace_queries ::
  "('u, 'q, 'h, 'j) lib \<Rightarrow> 'u \<Rightarrow> (string \<rightharpoonup> string) option \<Rightarrow> 'u res" where
  "replace_queries L uri queries =
     (case queries of None \<Rightarrow> Inr uri
      | Some qs \<Rightarrow>
        let parts = uri_into_parts L uri;
            old_query = unwrap_or '''' (Option.bind (path_and_query parts) (paq_query L))
        in res_bind (ext (urldecode_map L old_query)) (\<lambda>old_map.
           let query_map = old_map ++ qs;
               path = unwrap_or ''/'' (map_option (paq_path L) (path_and_query parts))
           in res_bind (ext (urlencode_map L query_map)) (\<lambda>enc.
              res_bind (ext (if enc = '''' then paq_parse L path
                             else paq_parse L (path @ ''?'' @ enc))) (\<lambda>paq.
                ext (uri_from_parts L (parts\<lparr>path_and_query := Some paq\<rparr>))))))"

subsection \<open>Header edits\<close>

text \<open>The two loops over a configured header map, shared by requests and responses: a
  replacement inserts every pair, a patch appends every pair.\<close>

definition insert_headers :: "('u, 'q, 'h, 'j) lib \<Rightarrow> 'h option \<Rightarrow> 'h \<Rightarrow> 'h" where
  "insert_headers L hdrs h = (case hdrs of None \<Rightarrow> h
     | Some hs \<Rightarrow> foldl (\<lambda>m (key, v). hm_insert L key v m) h (hm_iter L hs))"

definition append_headers :: "('u, 'q, 'h, 'j) lib \<Rightarrow> 'h option \<Rightarrow> 'h \<Rightarrow> 'h" where
  "append_headers L hdrs h = (case hdrs of None \<Rightarrow> h
     | Some hs \<Rightarrow> foldl (\<lambda>m (key, v). hm_append L key v m) h (hm_iter L hs))"

subsection \<open>Requests\<close>

definition replace_request ::
  "('u, 'q, 'h, 'j) lib \<Rightarrow> ('u, 'h) request \<Rightarrow> 'h replace_action \<Rightarrow> ('u, 'h) request res" where
  "replace_request L req replace =
     res_bind (replace_path L (req_uri req) (ra_path replace)) (\<lambda>uri1.
     let req = req\<lparr>req_uri := uri1\<rparr>;
         req = (case ra_method replace of None \<Rightarrow> req | Some md \<Rightarrow> req\<lparr>req_method := md\<rparr>);
         req = (case ra_body replace of None \<Rightarrow> req
                | Some body \<Rightarrow> req\<lparr>req_body := body_of L (rb_contents body),
                    req_headers := hm_remove L CONTENT_LENGTH (req_headers req)\<rparr>)
     in res_bind (replace_queries L (req_uri req) (ra_queries replace)) (\<lambda>uri2.
        let req = req\<lparr>req_uri := uri2\<rparr>
        in Inr (req\<lparr>req_headers := insert_headers L (ra_headers replace) (req_headers req)\<rparr>)))"

definition patch_request ::
  "('u, 'q, 'h, 'j) lib \<Rightarrow> ('u, 'h) request \<Rightarrow> ('h, 'j) patch_action \<Rightarrow> ('u, 'h) request res" where
  "patch_request L req patch =
     res_bind (append_queries L (req_uri req) (pa_queries patch)) (\<lambda>uri1.
     let req = req\<lparr>req_uri := uri1\<rparr>
     in res_bind
       (case pa_body patch of None \<Rightarrow> Inr req
        | Some patch_body \<Rightarrow>
          (case pb_contents patch_body of JSON v \<Rightarrow>
            (case read_value L (req_body req) of (r, left) \<Rightarrow>
              res_bind r (\<lambda>data.
              res_bind (ext (json_to_vec L (json_merge L data v))) (\<lambda>merged.
                Inr (req\<lparr>req_body := body_of L merged,
                         req_headers := hm_remove L CONTENT_LENGTH (req_headers req)\<rparr>))))))
       (\<lambda>req. Inr (req\<lparr>req_headers := append_headers L (pa_headers patch) (req_headers req)\<rparr>)))"

definition apply_request_action ::
  "('u, 'q, 'h, 'j) lib \<Rightarrow> ('u, 'h) request \<Rightarrow> ('h, 'j) actions
    \<Rightarrow> (('u, 'h) pevent, ('u, 'h) request) io" where
  "apply_request_action L req actions =
     (if act_abort actions then io_lift (bail ''Abort applied'')
      else io_bind (case act_delay actions of None \<Rightarrow> io_ok () | Some delay \<Rightarrow> io_emit (Sleep delay))
       (\<lambda>_. io_bind (case act_replace actions of None \<Rightarrow> io_ok req
                     | Some replace \<Rightarrow> io_lift (replace_request L req replace))
        (\<lambda>req. case act_patch actions of None \<Rightarrow> io_ok req
               | Some patch \<Rightarrow> io_lift (patch_request L req patch))))"

subsection \<open>Responses\<close>

definition replace_response ::
  "('u, 'q, 'h, 'j) lib \<Rightarrow> 'h response \<Rightarrow> 'h replace_action \<Rightarrow> 'h response" where
  "replace_response L rsp replace =
     (let rsp = (case ra_code replace of None \<Rightarrow> rsp | Some co \<Rightarrow> rsp\<lparr>rsp_status := co\<rparr>);
          rsp = (case ra_body replace of None \<Rightarrow> rsp
                 | Some body \<Rightarrow> rsp\<lparr>rsp_body := body_of L (rb_contents body),
                     rsp_headers := hm_remove L CONTENT_LENGTH (rsp_headers rsp)\<rparr>)
      in rsp\<lparr>rsp_headers := insert_headers L (ra_headers replace) (rsp_headers rsp)\<rparr>)"

definition patch_response ::
  "('u, 'q, 'h, 'j) lib \<Rightarrow> 'h response \<Rightarrow> ('h, 'j) patch_action \<Rightarrow> 'h response res" where
  "patch_response L rsp patch =
     res_bind
       (case pa_body patch of None \<Rightarrow> Inr rsp
        | Some patch_body \<Rightarrow>
          (case pb_contents patch_body of JSON v \<Rightarrow>
            (case read_value L (rsp_body rsp) of (r, left) \<Rightarrow>
              res_bind r (\<lambda>data.
              res_bind (ext (json_to_vec L (json_merge L data v))) (\<lambda>merged.
                Inr (rsp\<lparr>rsp_body := body_of L merged,
                         rsp_headers := hm_remove L CONTENT_LENGTH (rsp_headers rsp)\<rparr>))))))
       (\<lambda>rsp. Inr (rsp\<lparr>rsp_headers := append_headers L (pa_headers patch) (rsp_headers rsp)\<rparr>))"

definition apply_response_action ::
  "('u, 'q, 'h, 'j) lib \<Rightarrow> 'h response \<Rightarrow> ('h, 'j) actions
    \<Rightarrow> (('u, 'h) pevent, 'h response) io" where
  "apply_response_action L rsp actions =
     (if act_abort actions then io_lift (bail ''Abort applied'')
      else io_bind (case act_delay actions of None \<Rightarrow> io_ok () | Some delay \<Rightarrow> io_emit (Sleep delay))
       (\<lambda>_. io_bind (case act_replace actions of None \<Rightarrow> io_ok rsp
                     | Some replace \<Rightarrow> io_ok (replace_response L rsp replace))
        (\<lambda>rsp. case act_patch actions of None \<Rightarrow> io_ok rsp
               | Some patch \<Rightarrow> io_lift (patch_response L rsp patch))))"

lemmas apply_defs = apply_request_action_def apply_response_action_def


subsection \<open>Header edits as edits of multimaps\<close>

definition values_of :: "(hname \<times> hvalue) list \<Rightarrow> hname \<Rightarrow> hvalue list" where
  "values_of kvs k = map snd (filter (\<lambda>p. fst p = k) kvs)"

definition replaced_values ::
  "('u, 'q, 'h, 'j) lib \<Rightarrow> 'h option \<Rightarrow> hname \<Rightarrow> hvalue list \<Rightarrow> hvalue list" where
  "replaced_values L hdrs k vs = (case hdrs of None \<Rightarrow> vs
     | Some hs \<Rightarrow> (case values_of (hm_iter L hs) k of [] \<Rightarrow> vs | ws \<Rightarrow> [last ws]))"

definition patched_values ::
  "('u, 'q, 'h, 'j) lib \<Rightarrow> 'h option \<Rightarrow> hname \<Rightarrow> hvalue list \<Rightarrow> hvalue list" where
  "patched_values L hdrs k vs = (case hdrs of None \<Rightarrow> vs
     | Some hs \<Rightarrow> vs @ values_of (hm_iter L hs) k)"

text \<open>What an action does to the values of one header: a body that is replaced or patched
  takes the content length with it, each before the configured headers of its own action.\<close>

definition action_values ::
  "('u, 'q, 'h, 'j) lib \<Rightarrow> ('h, 'j) actions \<Rightarrow> hname \<Rightarrow> hvalue list \<Rightarrow> hvalue list" where
  "action_values L actions k vs =
     (let vs = (case act_replace actions of None \<Rightarrow> vs
                | Some ra \<Rightarrow> replaced_values L (ra_headers ra) k
                    (if ra_body ra \<noteq> None \<and> k = CONTENT_LENGTH then [] else vs))
      in case act_patch actions of None \<Rightarrow> vs
         | Some pa \<Rightarrow> patched_values L (pa_headers pa) k
             (if pa_body pa \<noteq> None \<and> k = CONTENT_LENGTH then [] else vs))"

lemma foldl_insert_values:
  assumes "header_laws L"
  shows "hm_get_all L (foldl (\<lambda>m (key, v). hm_insert L key v m) h kvs) k =
    (case values_of kvs k of [] \<Rightarrow> hm_get_all L h k | ws \<Rightarrow> [last ws])"
proof (induction kvs arbitrary: h)
  case Nil
  then show ?case by (simp add: values_of_def)
next
  case (Cons p kvs)
  then show ?case
    by (cases p; cases "values_of kvs k")
      (auto simp: values_of_def header_laws_simps[OF assms])
qed

lemma foldl_append_values:
  assumes "header_laws L"
  shows "hm_get_all L (foldl (\<lambda>m (key, v). hm_append L key v m) h kvs) k =
    hm_get_all L h k @ values_of kvs k"
proof (induction kvs arbitrary: h)
  case Nil
  then show ?case by (simp add: values_of_def)
next
  case (Cons p kvs)
  then show ?case by (cases p) (auto simp: values_of_def header_laws_simps[OF assms])
qed

lemma insert_headers_values:
  "header_laws L \<Longrightarrow>
    hm_get_all L (insert_headers L hdrs h) k = replaced_values L hdrs k (hm_get_all L h k)"
  by (cases hdrs) (simp_all add: insert_headers_def replaced_values_def foldl_insert_values)

lemma append_headers_values:
  "header_laws L \<Longrightarrow>
    hm_get_all L (append_headers L hdrs h) k = patched_values L hdrs k (hm_get_all L h k)"
  by (cases hdrs) (simp_all add: append_headers_def patched_values_def foldl_append_values)

lemmas header_edits = insert_headers_values append_headers_values header_laws_simps

subsection \<open>The stages of an application\<close>

definition patch_json :: "'j patch_body_action \<Rightarrow> 'j" where
  "patch_json b = (case pb_contents b of JSON v \<Rightarrow> v)"

text \<open>\<open>body_patched L b body body'\<close>: the body after a patch, for an optional patch \<open>b\<close>.\<close>

definition body_patched ::
  "('u, 'q, 'h, 'j) lib \<Rightarrow> 'j patch_body_action option \<Rightarrow> body \<Rightarrow> body \<Rightarrow> bool" where
  "body_patched L b body body' = (case b of None \<Rightarrow> body' = body
     | Some pb \<Rightarrow> \<exists>data bs. fst (read_value L body) = Inr data \<and>
         json_to_vec L (json_merge L data (patch_json pb)) = Inr bs \<and> body' = body_of L bs)"

lemma replace_request_Inr:
  assumes "replace_request L req ra = Inr req'"
  shows "\<exists>u1. replace_path L (req_uri req) (ra_path ra) = Inr u1
      \<and> replace_queries L u1 (ra_queries ra) = Inr (req_uri req')"
    and "req_version req' = req_version req"
    and "req_method req' = unwrap_or (req_method req) (ra_method ra)"
    and "req_body req' = (case ra_body ra of None \<Rightarrow> req_body req | Some b \<Rightarrow> body_of L (rb_contents b))"
    and "req_headers req' = insert_headers L (ra_headers ra)
      (if ra_body ra = None then req_headers req else hm_remove L CONTENT_LENGTH (req_headers req))"
  using assms unfolding replace_request_def
  by (cases "ra_method ra"; cases "ra_body ra"; auto simp: res_bind_Inr_iff Let_def)+

lemma patch_request_body:
  assumes "patch_request L req pa = Inr req'" and "pa_body pa = Some b"
  shows "\<exists>u1 data bs. append_queries L (req_uri req) (pa_queries pa) = Inr u1 \<and>
     fst (read_value L (req_body req)) = Inr data \<and>
     json_to_vec L (json_merge L data (patch_json b)) = Inr bs \<and>
     req' = req\<lparr>req_uri := u1, req_body := body_of L bs, req_headers :=
       append_headers L (pa_headers pa) (hm_remove L CONTENT_LENGTH (req_headers req))\<rparr>"
  using assms
  apply (cases "pb_contents b"; cases "read_value L (req_body req)")
  apply (simp add: patch_request_def res_bind_Inr_iff Let_def patch_json_def)
  apply (elim exE conjE, hypsubst)
  apply (intro exI conjI; simp)
  done

lemma patch_request_no_body:
  assumes "patch_request L req pa = Inr req'" and "pa_body pa = None"
  shows "\<exists>u1. append_queries L (req_uri req) (pa_queries pa) = Inr u1 \<and>
     req' = req\<lparr>req_uri := u1, req_headers := append_headers L (pa_headers pa) (req_headers req)\<rparr>"
  using assms by (auto simp: patch_request_def res_bind_Inr_iff Let_def)

lemma patch_request_Inr:
  assumes "patch_request L req pa = Inr req'"
  shows "append_queries L (req_uri req) (pa_queries pa) = Inr (req_uri req')
    \<and> req_version req' = req_version req
    \<and> req_method req' = req_method req
    \<and> req_headers req' = append_headers L (pa_headers pa)
        (if pa_body pa = None then req_headers req else hm_remove L CONTENT_LENGTH (req_headers req))
    \<and> body_patched L (pa_body pa) (req_body req) (req_body req')"
proof (cases "pa_body pa")
  case None
  from patch_request_no_body[OF assms this] show ?thesis
    by (elim exE conjE) (simp add: None body_patched_def)
next
  case (Some b)
  from patch_request_body[OF assms this] show ?thesis
    by (elim exE conjE) (simp add: Some body_patched_def)
qed

lemma patch_response_body:
  assumes "patch_response L rsp pa = Inr rsp'" and "pa_body pa = Some b"
  shows "\<exists>data bs. fst (read_value L (rsp_body rsp)) = Inr data \<and>
     json_to_vec L (json_merge L data (patch_json b)) = Inr bs \<and>
     rsp' = rsp\<lparr>rsp_body := body_of L bs, rsp_headers :=
       append_headers L (pa_headers pa) (hm_remove L CONTENT_LENGTH (rsp_headers rsp))\<rparr>"
  using assms
  apply (cases "pb_contents b"; cases "read_value L (rsp_body rsp)")
  apply (simp add: patch_response_def res_bind_Inr_iff Let_def patch_json_def)
  apply (elim exE conjE, hypsubst)
  apply (intro exI conjI; simp)
  done

lemma patch_response_Inr:
  assumes "patch_response L rsp pa = Inr rsp'"
  shows "rsp_version rsp' = rsp_version rsp
    \<and> rsp_status rsp' = rsp_status rsp
    \<and> rsp_headers rsp' = append_headers L (pa_headers pa)
        (if pa_body pa = None then rsp_headers rsp else hm_remove L CONTENT_LENGTH (rsp_headers rsp))
    \<and> body_patched L (pa_body pa) (rsp_body rsp) (rsp_body rsp')"
proof (cases "pa_body pa")
  case None
  with assms show ?thesis by (auto simp: patch_response_def body_patched_def)
next
  case (Some b)
  from patch_response_body[OF assms this] show ?thesis
    by (elim exE conjE) (simp add: Some body_patched_def)
qed

lemma replace_response_fields:
  "rsp_version (replace_response L rsp ra) = rsp_version rsp"
  "rsp_status (replace_response L rsp ra) = unwrap_or (rsp_status rsp) (ra_code ra)"
  "rsp_body (replace_response L rsp ra) =
     (case ra_body ra of None \<Rightarrow> rsp_body rsp | Some b \<Rightarrow> body_of L (rb_contents b))"
  "rsp_headers (replace_response L rsp ra) = insert_headers L (ra_headers ra)
     (if ra_body ra = None then rsp_headers rsp else hm_remove L CONTENT_LENGTH (rsp_headers rsp))"
  unfolding replace_response_def by (cases "ra_code ra"; cases "ra_body ra"; simp)+

lemma apply_request_action_Inr:
  assumes "apply_request_action L req actions h = (Inr req', h')"
  obtains req1 where "\<not> act_abort actions"
    and "act_replace actions = None \<and> req1 = req \<or>
         (\<exists>ra. act_replace actions = Some ra \<and> replace_request L req ra = Inr req1)"
    and "act_patch actions = None \<and> req' = req1 \<or>
         (\<exists>pa. act_patch actions = Some pa \<and> patch_request L req1 pa = Inr req')"
  using assms unfolding apply_request_action_def
  by (auto simp: io_bind_run bail_def split: option.splits if_splits prod.splits sum.splits)

lemma apply_response_action_Inr:
  assumes "apply_response_action L rsp actions h = (Inr rsp', h')"
  obtains rsp1 where "\<not> act_abort actions"
    and "act_replace actions = None \<and> rsp1 = rsp \<or>
         (\<exists>ra. act_replace actions = Some ra \<and> rsp1 = replace_response L rsp ra)"
    and "act_patch actions = None \<and> rsp' = rsp1 \<or>
         (\<exists>pa. act_patch actions = Some pa \<and> patch_response L rsp1 pa = Inr rsp')"
  using assms unfolding apply_response_action_def
  by (auto simp: io_bind_run bail_def split: option.splits if_splits prod.splits sum.splits)


subsection \<open>Effects of an application\<close>

text \<open>The only effect is the sleep of the delay, and an abort comes before it.\<close>

definition action_effects :: "('h, 'j) actions \<Rightarrow> ('u, 'h) pevent list" where
  "action_effects actions = (if act_abort actions then []
     else case act_delay actions of None \<Rightarrow> [] | Some d \<Rightarrow> [Sleep d])"

lemma apply_request_effects:
  "snd (apply_request_action L req actions h) = h @ action_effects actions"
  unfolding apply_request_action_def action_effects_def
  by (auto simp: io_bind_run split: option.splits prod.splits sum.splits)

lemma apply_response_effects:
  "snd (apply_response_action L rsp actions h) = h @ action_effects actions"
  unfolding apply_response_action_def action_effects_def
  by (auto simp: io_bind_run split: option.splits prod.splits sum.splits)

lemma apply_abort:
  "act_abort actions \<Longrightarrow> apply_request_action L req actions h = (bail ''Abort applied'', h)"
  "act_abort actions \<Longrightarrow> apply_response_action L rsp actions h = (bail ''Abort applied'', h)"
  by (simp_all add: apply_defs)

lemma bail_eq: "bail m = Inl (Error (Anyhow m))"
  by (simp add: bail_def)

definition idle_actions :: "('h, 'j) actions \<Rightarrow> bool" where
  "idle_actions actions \<longleftrightarrow> \<not> act_abort actions \<and> act_delay actions = None \<and>
     act_replace actions = None \<and> act_patch actions = None"

lemma apply_idle:
  "idle_actions actions \<Longrightarrow> apply_request_action L req actions h = (Inr req, h)"
  "idle_actions actions \<Longrightarrow> apply_response_action L rsp actions h = (Inr rsp, h)"
  by (simp_all add: apply_defs idle_actions_def)

text \<open>An application has no effect but its delay, in every outcome. The history after it
  is the history before it, followed by one sleep of the configured delay if there is one and
  the action does not abort; an abort is the error \<open>Abort applied\<close> with no sleep at all. The
  same holds for requests and for responses.\<close>

theorem actions_effects:
  "snd (apply_request_action L req actions h) = h @ action_effects actions \<and>
   snd (apply_response_action L rsp actions h') = h' @ action_effects actions \<and>
   apply_request_action L req (actions\<lparr>act_abort := True\<rparr>) h
     = (Inl (Error (Anyhow ''Abort applied'')), h) \<and>
   apply_response_action L rsp (actions\<lparr>act_abort := True\<rparr>) h'
     = (Inl (Error (Anyhow ''Abort applied'')), h')"
  by (simp add: apply_request_effects apply_response_effects apply_abort bail_eq)

subsection \<open>Headers after an application\<close>

lemma request_values:
  assumes "header_laws L" and "apply_request_action L req actions h = (Inr req', h')"
  shows "hm_get_all L (req_headers req') k =
    action_values L actions k (hm_get_all L (req_headers req) k)"
proof -
  from apply_request_action_Inr[OF assms(2)] obtain req1 where
    r: "act_replace actions = None \<and> req1 = req \<or>
         (\<exists>ra. act_replace actions = Some ra \<and> replace_request L req ra = Inr req1)"
    and p: "act_patch actions = None \<and> req' = req1 \<or>
         (\<exists>pa. act_patch actions = Some pa \<and> patch_request L req1 pa = Inr req')"
    by blast
  from r have 1: "hm_get_all L (req_headers req1) k =
      (case act_replace actions of None \<Rightarrow> hm_get_all L (req_headers req) k
       | Some ra \<Rightarrow> replaced_values L (ra_headers ra) k
           (if ra_body ra \<noteq> None \<and> k = CONTENT_LENGTH then [] else hm_get_all L (req_headers req) k))"
    by (auto simp: replace_request_Inr header_edits[OF assms(1)])
  from p show ?thesis
    by (auto simp: action_values_def 1 header_edits[OF assms(1)] dest!: patch_request_Inr)
qed

lemma response_values:
  assumes "header_laws L" and "apply_response_action L rsp actions h = (Inr rsp', h')"
  shows "hm_get_all L (rsp_headers rsp') k =
    action_values L actions k (hm_get_all L (rsp_headers rsp) k)"
proof -
  from apply_response_action_Inr[OF assms(2)] obtain rsp1 where
    r: "act_replace actions = None \<and> rsp1 = rsp \<or>
         (\<exists>ra. act_replace actions = Some ra \<and> rsp1 = replace_response L rsp ra)"
    and p: "act_patch actions = None \<and> rsp' = rsp1 \<or>
         (\<exists>pa. act_patch actions = Some pa \<and> patch_response L rsp1 pa = Inr rsp')"
    by blast
  from r have 1: "hm_get_all L (rsp_headers rsp1) k =
      (case act_replace actions of None \<Rightarrow> hm_get_all L (rsp_headers rsp) k
       | Some ra \<Rightarrow> replaced_values L (ra_headers ra) k
           (if ra_body ra \<noteq> None \<and> k = CONTENT_LENGTH then [] else hm_get_all L (rsp_headers rsp) k))"
    by (auto simp: replace_response_fields header_edits[OF assms(1)])
  from p show ?thesis
    by (auto simp: action_values_def 1 header_edits[OF assms(1)] dest!: patch_response_Inr)
qed

text \<open>C18: the headers of a message after a successful application are the edit
  \<open>action_values\<close> of the headers before it, as multimaps: a replaced header has the last
  configured value only, patched values come after the values there are, and a replaced or
  patched body removes the content length (before the headers of the same action are set).\<close>

theorem headers_refine:
  assumes "header_laws L"
  shows "(apply_request_action L req actions h = (Inr req', h') \<longrightarrow>
            hm_get_all L (req_headers req') =
              (\<lambda>k. action_values L actions k (hm_get_all L (req_headers req) k))) \<and>
         (apply_response_action L rsp actions h = (Inr rsp', h') \<longrightarrow>
            hm_get_all L (rsp_headers rsp') =
              (\<lambda>k. action_values L actions k (hm_get_all L (rsp_headers rsp) k)))"
  using request_values[OF assms] response_values[OF assms] by (auto simp: fun_eq_iff)


definition demo_actions :: "((hname \<times> hvalue) list, bytes) actions" where
  "demo_actions = \<lparr>act_abort = False, act_delay = Some 5,
     act_replace = Some \<lparr>ra_path = Some ''/b'', ra_method = Some ''PUT'',
       ra_body = Some \<lparr>rb_contents = into_bytes ''n''\<rparr>, ra_code = Some 404,
       ra_queries = Some [''x'' \<mapsto> ''1''], ra_headers = Some [(''x'', into_bytes ''v'')]\<rparr>,
     act_patch = Some \<lparr>pa_body = Some \<lparr>pb_contents = JSON (into_bytes ''!'')\<rparr>,
       pa_queries = Some ''q=2'', pa_headers = Some [(''x'', into_bytes ''w'')]\<rparr>\<rparr>"

definition demo_result :: "(demo_paq uri_parts, (hname \<times> hvalue) list) request" where
  "demo_result = \<lparr>req_method = ''PUT'', req_uri = demo_uri ''/b?x=1&q=2'', req_version = ''1.1'',
     req_headers = [(HOST, into_bytes ''h''), (''x'', into_bytes ''v''), (''x'', into_bytes ''w'')],
     req_body = [Inr (into_bytes ''n!'')]\<rparr>"

lemma demo_apply:
  "apply_request_action demo_lib demo_request demo_actions [] = (Inr demo_result, [Sleep 5])"
  by (simp add: apply_request_action_def demo_actions_def demo_result_def replace_request_def
      patch_request_def replace_path_def replace_queries_def append_queries_def read_value_def
      insert_headers_def append_headers_def demo_defs Let_def io_bind_run fun_eq_iff)

definition demo_response :: "(hname \<times> hvalue) list response" where
  "demo_response = \<lparr>rsp_status = 200, rsp_version = ''1.1'',
     rsp_headers = [(CONTENT_LENGTH, into_bytes ''1'')], rsp_body = [Inr (into_bytes ''a'')]\<rparr>"

definition demo_response_result :: "(hname \<times> hvalue) list response" where
  "demo_response_result = \<lparr>rsp_status = 404, rsp_version = ''1.1'',
     rsp_headers = [(''x'', into_bytes ''v''), (''x'', into_bytes ''w'')],
     rsp_body = [Inr (into_bytes ''n!'')]\<rparr>"

lemma demo_apply_response:
  "apply_response_action demo_lib demo_response demo_actions [] = (Inr demo_response_result, [Sleep 5])"
  by (simp add: apply_response_action_def demo_actions_def demo_response_def
      demo_response_result_def replace_response_def patch_response_def read_value_def
      insert_headers_def append_headers_def demo_defs Let_def io_bind_run fun_eq_iff)

theorem headers_refine_witness:
  "hm_get_all demo_lib (req_headers demo_result) ''x'' =
     action_values demo_lib demo_actions ''x'' (hm_get_all demo_lib (req_headers demo_request) ''x'') \<and>
   hm_get_all demo_lib (rsp_headers demo_response_result) CONTENT_LENGTH =
     action_values demo_lib demo_actions CONTENT_LENGTH
       (hm_get_all demo_lib (rsp_headers demo_response) CONTENT_LENGTH)"
  using headers_refine [OF demo_header_laws, where actions = demo_actions and h = "[]" and h' = "[Sleep 5]"
      and req = demo_request and req' = demo_result
      and rsp = demo_response and rsp' = demo_response_result]
    demo_apply demo_apply_response by simp

subsection \<open>Bodies after an application\<close>

lemma body_patched_bytes:
  assumes "body_laws L" and "body_patched L (Some pb) body body'"
  shows "\<exists>data bs. fst (read_value L body) = Inr data \<and>
     json_to_vec L (json_merge L data (patch_json pb)) = Inr bs \<and> body_bytes [] body' = Inr bs"
  using assms by (auto simp: body_patched_def body_laws_def)

text \<open>The body a patch starts from.\<close>

definition start_body :: "('u, 'q, 'h, 'j) lib \<Rightarrow> ('h, 'j) actions \<Rightarrow> body \<Rightarrow> body" where
  "start_body L actions b = (case act_replace actions of None \<Rightarrow> b
     | Some ra \<Rightarrow> (case ra_body ra of None \<Rightarrow> b | Some rb \<Rightarrow> body_of L (rb_contents rb)))"

text \<open>C33: what a patched body holds. When an action patches the body of a request or of a response,
  the body it starts from (the configured text when the action replaces the body, the message's own
  body otherwise) is read as a JSON value, and the bytes that the body of the result yields are the
  text that the serialiser gives for that value merged with the patch.\<close>

theorem patched_body_is_merge:
  assumes "body_laws L" and "act_patch actions = Some pa" and "pa_body pa = Some pb"
  shows "(apply_request_action L req actions h = (Inr req', h') \<longrightarrow>
           (\<exists>data bs. fst (read_value L (start_body L actions (req_body req))) = Inr data \<and>
             json_to_vec L (json_merge L data (patch_json pb)) = Inr bs \<and>
             body_bytes [] (req_body req') = Inr bs)) \<and>
         (apply_response_action L rsp actions h = (Inr rsp', h') \<longrightarrow>
           (\<exists>data bs. fst (read_value L (start_body L actions (rsp_body rsp))) = Inr data \<and>
             json_to_vec L (json_merge L data (patch_json pb)) = Inr bs \<and>
             body_bytes [] (rsp_body rsp') = Inr bs))"
proof (intro conjI impI)
  assume a: "apply_request_action L req actions h = (Inr req', h')"
  from apply_request_action_Inr[OF a] obtain req1 where
    r: "act_replace actions = None \<and> req1 = req \<or>
         (\<exists>ra. act_replace actions = Some ra \<and> replace_request L req ra = Inr req1)"
    and "act_patch actions = None \<and> req' = req1 \<or>
         (\<exists>pa. act_patch actions = Some pa \<and> patch_request L req1 pa = Inr req')" by blast
  with assms(2) have p: "patch_request L req1 pa = Inr req'" by simp
  from r have start: "req_body req1 = start_body L actions (req_body req)"
    by (auto simp: start_body_def replace_request_Inr)
  from patch_request_Inr[OF p] assms(3)
  have "body_patched L (Some pb) (req_body req1) (req_body req')" by simp
  from body_patched_bytes[OF assms(1) this]
  show "\<exists>data bs. fst (read_value L (start_body L actions (req_body req))) = Inr data \<and>
      json_to_vec L (json_merge L data (patch_json pb)) = Inr bs \<and> body_bytes [] (req_body req') = Inr bs"
    unfolding start .
next
  assume a: "apply_response_action L rsp actions h = (Inr rsp', h')"
  from apply_response_action_Inr[OF a] obtain rsp1 where
    r: "act_replace actions = None \<and> rsp1 = rsp \<or>
         (\<exists>ra. act_replace actions = Some ra \<and> rsp1 = replace_response L rsp ra)"
    and "act_patch actions = None \<and> rsp' = rsp1 \<or>
         (\<exists>pa. act_patch actions = Some pa \<and> patch_response L rsp1 pa = Inr rsp')" by blast
  with assms(2) have p: "patch_response L rsp1 pa = Inr rsp'" by simp
  from r have start: "rsp_body rsp1 = start_body L actions (rsp_body rsp)"
    by (auto simp: start_body_def replace_response_fields)
  from patch_response_Inr[OF p] assms(3)
  have "body_patched L (Some pb) (rsp_body rsp1) (rsp_body rsp')" by simp
  from body_patched_bytes[OF assms(1) this]
  show "\<exists>data bs. fst (read_value L (start_body L actions (rsp_body rsp))) = Inr data \<and>
      json_to_vec L (json_merge L data (patch_json pb)) = Inr bs \<and> body_bytes [] (rsp_body rsp') = Inr bs"
    unfolding start .
qed

theorem patched_body_is_merge_witness:
  "body_bytes [] (req_body demo_result) = json_to_vec demo_lib (into_bytes ''n!'')"
proof -
  let ?pa = "the (act_patch demo_actions)"
  let ?pb = "the (pa_body ?pa)"
  have pa: "act_patch demo_actions = Some ?pa" and pb: "pa_body ?pa = Some ?pb"
    by (simp_all add: demo_actions_def)
  from patched_body_is_merge [OF demo_body_laws pa pb] demo_apply
  obtain data bs where
    "fst (read_value demo_lib (body_of demo_lib (into_bytes ''n''))) = Inr data"
    "json_to_vec demo_lib (json_merge demo_lib data (patch_json ?pb)) = Inr bs"
    "body_bytes [] (req_body demo_result) = Inr bs"
    by (fastforce simp: demo_actions_def start_body_def)
  then show ?thesis
    by (auto simp: read_value_def demo_defs demo_actions_def patch_json_def)
qed


subsection \<open>URIs after an application\<close>

text \<open>\<open>uri_becomes L u u' p q\<close>: \<open>u'\<close> is \<open>u\<close> with the path \<open>p\<close> and the query \<open>q\<close>, all other parts
  unchanged.\<close>

definition uri_becomes ::
  "('u, 'q, 'h, 'j) lib \<Rightarrow> 'u \<Rightarrow> 'u \<Rightarrow> string \<Rightarrow> string option \<Rightarrow> bool" where
  "uri_becomes L u u' p q \<longleftrightarrow> (\<exists>paq. paq_path L paq = p \<and> paq_query L paq = q \<and>
     uri_into_parts L u' = (uri_into_parts L u)\<lparr>path_and_query := Some paq\<rparr>)"

lemma uri_becomes_path:
  assumes "uri_laws L" and "uri_becomes L u u' p q"
  shows "uri_path L u' = p"
  using assms by (auto simp: uri_becomes_def uri_laws_path)

lemma rebuilt_with_query:
  assumes "uri_laws L" and "paq_laws L"
    and "p \<noteq> []" and "CHR ''?'' \<notin> set p" and "CHR ''#'' \<notin> set p" and "CHR ''#'' \<notin> set q"
    and "paq_parse L (p @ ''?'' @ q) = Inr paq"
    and "uri_from_parts L ((uri_into_parts L u)\<lparr>path_and_query := Some paq\<rparr>) = Inr u'"
  shows "uri_becomes L u u' p (Some q)"
  unfolding uri_becomes_def
  using assms(3,5) paq_laws_query[OF assms(2-7)] uri_laws_parsed[OF assms(1,7) _ _ assms(8)] by (cases p) auto

lemma rebuilt_plain:
  assumes "uri_laws L" and "paq_laws L"
    and "p \<noteq> []" and "CHR ''?'' \<notin> set p" and "CHR ''#'' \<notin> set p"
    and "paq_parse L p = Inr paq"
    and "uri_from_parts L ((uri_into_parts L u)\<lparr>path_and_query := Some paq\<rparr>) = Inr u'"
  shows "uri_becomes L u u' p None"
  unfolding uri_becomes_def
  using assms(3,5) paq_laws_plain[OF assms(2-6)] uri_laws_parsed[OF assms(1,6,3) _ assms(7)] by (cases p) auto

text \<open>Replacing the path keeps the query. If the URI has a path-and-query and the configured
  path has neither a question mark nor a number sign, the new URI has the configured path (a
  slash for the empty one), the old query, scheme and authority.\<close>

theorem replace_path_keeps_query:
  assumes "uri_laws L" and "paq_laws L"
    and "path_and_query (uri_into_parts L u) = Some paq"
    and "CHR ''?'' \<notin> set p" and "CHR ''#'' \<notin> set p"
    and "replace_path L u (Some p) = Inr u'"
  shows "uri_becomes L u u' (if p = '''' then ''/'' else p) (paq_query L paq)
    \<and> uri_path L u' = (if p = '''' then ''/'' else p)"
proof -
  let ?p = "if p = '''' then ''/'' else p"
  have p: "?p \<noteq> []" "CHR ''?'' \<notin> set ?p" "CHR ''#'' \<notin> set ?p"
    using assms(4,5) by auto
  have "uri_becomes L u u' ?p (paq_query L paq)"
  proof (cases "paq_query L paq")
    case None
    with assms(3,6) obtain paq' where "paq_parse L ?p = Inr paq'"
      and "uri_from_parts L ((uri_into_parts L u)\<lparr>path_and_query := Some paq'\<rparr>) = Inr u'"
      by (auto simp: replace_path_def Let_def res_bind_Inr_iff)
    from rebuilt_plain[OF assms(1,2) p this] None show ?thesis by simp
  next
    case (Some q)
    with assms(3,6) obtain paq' where "paq_parse L (?p @ ''?'' @ q) = Inr paq'"
      and "uri_from_parts L ((uri_into_parts L u)\<lparr>path_and_query := Some paq'\<rparr>) = Inr u'"
      by (auto simp: replace_path_def Let_def res_bind_Inr_iff)
    from rebuilt_with_query[OF assms(1,2) p paq_laws_form(4)[OF assms(2) Some] this] Some
    show ?thesis by simp
  qed
  with uri_becomes_path[OF assms(1) this] show ?thesis by simp
qed

theorem replace_path_keeps_query_witness:
  "uri_becomes demo_lib (demo_uri ''/a?k=v'') (demo_uri ''/b?k=v'') ''/b'' (Some ''k=v'')"
  using replace_path_keeps_query [OF demo_uri_laws demo_paq_laws,
      where u = "demo_uri ''/a?k=v''" and p = "''/b''" and u' = "demo_uri ''/b?k=v''"
        and paq = "demo_split ''/a?k=v''"]
  by (simp add: replace_path_def demo_defs Let_def)

text \<open>Replaced queries merge into the old ones. After a successful replacement the query of
  the URI decodes to the old parameters overridden by the configured ones (no query when there
  is none left), and the path is the old one, a slash for a URI without path.\<close>

theorem replace_queries_merges:
  assumes "uri_laws L" and "paq_laws L" and "query_laws L"
    and "replace_queries L u (Some qs) = Inr u'"
  shows "\<exists>old_map query.
    urldecode_map L (unwrap_or '''' (Option.bind (path_and_query (uri_into_parts L u)) (paq_query L)))
      = Inr old_map \<and>
    uri_becomes L u u'
      (unwrap_or ''/'' (map_option (paq_path L) (path_and_query (uri_into_parts L u)))) query \<and>
    urldecode_map L (unwrap_or '''' query) = Inr (old_map ++ qs)"
proof -
  let ?path = "unwrap_or ''/'' (map_option (paq_path L) (path_and_query (uri_into_parts L u)))"
  let ?old = "unwrap_or '''' (Option.bind (path_and_query (uri_into_parts L u)) (paq_query L))"
  from assms(4) obtain old_map enc paq where
    old: "urldecode_map L ?old = Inr old_map" and
    enc: "urlencode_map L (old_map ++ qs) = Inr enc" and
    paq: "(if enc = '''' then paq_parse L ?path else paq_parse L (?path @ ''?'' @ enc)) = Inr paq" and
    u': "uri_from_parts L ((uri_into_parts L u)\<lparr>path_and_query := Some paq\<rparr>) = Inr u'"
    by (auto simp: replace_queries_def Let_def res_bind_Inr_iff)
  have p: "?path \<noteq> []" "CHR ''?'' \<notin> set ?path" "CHR ''#'' \<notin> set ?path"
    using paq_laws_form[OF assms(2)]
    by (cases "path_and_query (uri_into_parts L u)"; simp)+
  note dec = query_laws_decode[OF assms(3) enc]
  have "uri_becomes L u u' ?path (if enc = '''' then None else Some enc)"
    using rebuilt_plain[OF assms(1,2) p _ u'] rebuilt_with_query[OF assms(1,2) p dec(2) _ u'] paq
    by (auto split: if_splits)
  moreover have "unwrap_or '''' (if enc = '''' then None else Some enc) = enc" by simp
  ultimately show ?thesis using old dec(1) by metis
qed

theorem replace_queries_merges_witness:
  "\<exists>old_map query.
    urldecode_map demo_lib ''x=0'' = Inr old_map \<and>
    uri_becomes demo_lib (demo_uri ''/a?x=0'') (demo_uri ''/a?x=1'') ''/a'' query \<and>
    urldecode_map demo_lib (unwrap_or '''' query) = Inr (old_map ++ [''x'' \<mapsto> ''1''])"
proof -
  have "replace_queries demo_lib (demo_uri ''/a?x=0'') (Some [''x'' \<mapsto> ''1'']) = Inr (demo_uri ''/a?x=1'')"
    by (simp add: replace_queries_def demo_defs Let_def fun_eq_iff)
  from replace_queries_merges [OF demo_uri_laws demo_paq_laws demo_query_laws this]
  show ?thesis by (simp add: demo_defs Let_def)
qed

text \<open>A patch appends to the query. On a URI whose path starts with a slash, a patch with
  configured queries keeps the path and puts them after the old query with an ampersand, or
  after a question mark where there was no query; an absent or empty patch leaves the URI as
  it is.\<close>

theorem append_queries_extends:
  assumes "uri_laws L" and "paq_laws L"
    and "path_and_query (uri_into_parts L u) = Some paq" and "paq_path L paq = CHR ''/'' # r"
    and "CHR ''#'' \<notin> set (unwrap_or '''' new)"
    and "append_queries L u new = Inr u'"
  shows "if unwrap_or '''' new = '''' then u' = u
    else uri_becomes L u u' (paq_path L paq)
      (Some (case paq_query L paq of None \<Rightarrow> unwrap_or '''' new
         | Some old \<Rightarrow> old @ ''&'' @ unwrap_or '''' new))"
proof (cases "unwrap_or '''' new = ''''")
  case True
  with assms(6) show ?thesis by (simp add: append_queries_def)
next
  case False
  let ?q = "case paq_query L paq of None \<Rightarrow> unwrap_or '''' new
     | Some old \<Rightarrow> old @ ''&'' @ unwrap_or '''' new"
  have shown: "(if paq_query L paq \<noteq> None then paq_show L paq @ ''&'' @ unwrap_or '''' new
      else paq_show L paq @ ''?'' @ unwrap_or '''' new) = paq_path L paq @ ''?'' @ ?q"
    using paq_laws_show[OF assms(2,4)] by (cases "paq_query L paq") simp_all
  from False assms(3,6) obtain paq' where
    "paq_parse L (paq_path L paq @ ''?'' @ ?q) = Inr paq'"
    and "uri_from_parts L ((uri_into_parts L u)\<lparr>path_and_query := Some paq'\<rparr>) = Inr u'"
    unfolding append_queries_def Let_def
    by (auto simp only: shown option.case if_True simp_thms res_bind_Inr_iff ext_Inr_iff)
  moreover have "CHR ''#'' \<notin> set ?q"
    using assms(5) paq_laws_form(4)[OF assms(2)] by (auto split: option.splits)
  ultimately have "uri_becomes L u u' (paq_path L paq) (Some ?q)"
    by (intro rebuilt_with_query[OF assms(1,2) paq_laws_form(1-3)[OF assms(2)]])
  with False show ?thesis by simp
qed

theorem append_queries_extends_witness:
  "uri_becomes demo_lib (demo_uri ''/hhh?'') (demo_uri ''/hhh?&a=b'') ''/hhh'' (Some ''&a=b'')"
  using append_queries_extends [OF demo_uri_laws demo_paq_laws,
      where u = "demo_uri ''/hhh?''" and new = "Some ''a=b''" and u' = "demo_uri ''/hhh?&a=b''"
        and paq = "demo_split ''/hhh?''"]
  by (simp add: append_queries_def demo_defs Let_def)

end
