(* ===== verification/Raw_Config.thy ===== *)
theory Raw_Config
  imports Action
begin

text \<open>
  \<open>raw_config.rs\<close> and \<open>proxy/http/config.rs\<close> of the proxy: the configuration as it arrives
  from the controller, and its conversion into the form the proxy works with. Every
  \<open>TryFrom\<close> is a function of its own, in the order in which the source evaluates the fields,
  since the first conversion that fails decides the error.
\<close>

datatype raw_file = Path string | Contents bytes

record tls_raw_config =
  ca_file :: "raw_file option"
  cert_file :: raw_file
  key_file :: raw_file

datatype raw_target = RawRequest | RawResponse

record raw_selector =
  rs_port :: "u16 option"
  rs_path :: "string option"
  rs_method :: "string option"
  rs_code :: "u16 option"
  rs_request_headers :: "(string \<rightharpoonup> string) option"
  rs_response_headers :: "(string \<rightharpoonup> string) option"

datatype raw_patch_body_contents = RawJSON string

record raw_patch_body =
  rpb_contents :: raw_patch_body_contents

record raw_patch_action =
  rpa_body :: "raw_patch_body option"
  rpa_queries :: "(string \<times> string) list option"
  rpa_headers :: "(string \<times> string) list option"

datatype raw_replace_body_contents = TEXT string | BASE64 string

record raw_replace_body =
  rrb_contents :: raw_replace_body_contents

record raw_replace_action =
  rra_path :: "string option"
  rra_method :: "string option"
  rra_body :: "raw_replace_body option"
  rra_code :: "u16 option"
  rra_queries :: "(string \<rightharpoonup> string) option"
  rra_headers :: "(string \<rightharpoonup> string) option"

record raw_actions =
  rac_abort :: "bool option"
  rac_delay :: "duration option"
  rac_replace :: "raw_replace_action option"
  rac_patch :: "raw_patch_action option"

record raw_rule =
  rr_target :: raw_target
  rr_selector :: raw_selector
  rr_actions :: raw_actions

record proxy_raw_config =
  prc_proxy_ports :: "string option"
  prc_listen_port :: u16
  prc_safe_mode :: bool
  prc_rules :: "raw_rule list"
  prc_role :: "role option"
  prc_tls :: "tls_raw_config option"

text \<open>\<open>proxy/http/config.rs\<close>; the two TLS configurations are opaque values of \<open>rustls\<close>.\<close>

record ('h, 'j) http_config =
  hc_listen_port :: u16
  hc_rules :: "('h, 'j) rule list"
  hc_role :: "role option"

record ('c, 's) tls_config =
  tls_client_config :: 'c
  tls_server_config :: 's

record ('h, 'j, 'c, 's) config =
  http_config :: "('h, 'j) http_config"
  tls_config_of :: "('c, 's) tls_config option"

text \<open>The file system and the TLS crates: PEM decoding, trust anchors (\<open>'a\<close>), the built-in
  roots and the two configuration builders.\<close>

record ('a, 'c, 's) tls_lib =
  fs_read :: "string \<Rightarrow> error + bytes"
  pem_certs :: "bytes \<Rightarrow> error + bytes list"
  pem_rsa_private_keys :: "bytes \<Rightarrow> error + bytes list"
  try_from_cert_der :: "bytes \<Rightarrow> error + 'a"
  webpki_roots :: "'a list"
  client_config_with_roots :: "'a list \<Rightarrow> 'c"
  server_config_with_cert :: "bytes list \<Rightarrow> bytes \<Rightarrow> error + 's"

subsection \<open>Headers\<close>

definition try_from_hash_map ::
  "('u, 'q, 'h, 'j) lib \<Rightarrow> (string \<rightharpoonup> string) option \<Rightarrow> 'h option res" where
  "try_from_hash_map L t = opt_traverse (\<lambda>headers. ext (hm_of_hash_map L headers)) t"

fun insert_parsed :: "('u, 'q, 'h, 'j) lib \<Rightarrow> 'h \<Rightarrow> (string \<times> string) list \<Rightarrow> 'h res" where
  "insert_parsed L hmap [] = Inr hmap"
| "insert_parsed L hmap ((key, v) # headers) =
     res_bind (ext (hname_parse L key)) (\<lambda>k.
     res_bind (ext (hvalue_parse L v)) (\<lambda>w.
       insert_parsed L (hm_insert L k w hmap) headers))"

definition try_from_vec ::
  "('u, 'q, 'h, 'j) lib \<Rightarrow> (string \<times> string) list option \<Rightarrow> 'h option res" where
  "try_from_vec L t = opt_traverse (insert_parsed L (hm_new L)) t"

subsection \<open>TLS\<close>

definition raw_file_default :: raw_file where
  "raw_file_default = Contents []"

fun raw_file_bytes :: "('a, 'c, 's) tls_lib \<Rightarrow> raw_file \<Rightarrow> bytes res" where
  "raw_file_bytes T (Contents c) = Inr c"
| "raw_file_bytes T (Path p) = ext (fs_read T p)"

definition map_err :: "string \<Rightarrow> error + 'b \<Rightarrow> 'b res" where
  "map_err msg r = (case r of Inl _ \<Rightarrow> bail msg | Inr a \<Rightarrow> Inr a)"

text \<open>The trust anchors of the CA certificates; a certificate that is not one is unwrapped.\<close>

fun ca_anchors :: "('a, 'c, 's) tls_lib \<Rightarrow> bytes list \<Rightarrow> 'a list res" where
  "ca_anchors T [] = Inr []"
| "ca_anchors T (cert # certs) =
     (case try_from_cert_der T cert of
        Inl _ \<Rightarrow> panic ''called `Result::unwrap()` on an `Err` value''
      | Inr ta \<Rightarrow> res_bind (ca_anchors T certs) (\<lambda>tas. Inr (ta # tas)))"

definition tls_config_try_from ::
  "('a, 'c, 's) tls_lib \<Rightarrow> tls_raw_config \<Rightarrow> ('c, 's) tls_config res" where
  "tls_config_try_from T raw =
     res_bind (raw_file_bytes T (cert_file raw)) (\<lambda>cert_data.
     res_bind (map_err ''invalid cert'' (pem_certs T cert_data)) (\<lambda>certs.
     res_bind (raw_file_bytes T (key_file raw)) (\<lambda>key_data.
     res_bind (map_err ''invalid key'' (pem_rsa_private_keys T key_data)) (\<lambda>keys.
     case keys of [] \<Rightarrow> bail ''empty key''
     | key # _ \<Rightarrow>
       res_bind (case ca_file raw of
           Some cafile \<Rightarrow>
             res_bind (raw_file_bytes T cafile) (\<lambda>ca_data.
             res_bind (ext (pem_certs T ca_data)) (\<lambda>cas. ca_anchors T cas))
         | None \<Rightarrow> Inr (webpki_roots T)) (\<lambda>root_cert_store.
       res_bind (ext (server_config_with_cert T certs key)) (\<lambda>server.
         Inr \<lparr>tls_client_config = client_config_with_roots T root_cert_store,
              tls_server_config = server\<rparr>))))))"

subsection \<open>Rules\<close>

fun target_from :: "raw_target \<Rightarrow> target" where
  "target_from RawRequest = Request"
| "target_from RawResponse = Response"

definition selector_try_from ::
  "('u, 'q, 'h, 'j) lib \<Rightarrow> raw_selector \<Rightarrow> 'h selector res" where
  "selector_try_from L raw =
     res_bind (opt_traverse (\<lambda>m. ext (method_parse L m)) (rs_method raw)) (\<lambda>method.
     res_bind (try_from_hash_map L (rs_request_headers raw)) (\<lambda>request_headers.
     res_bind (opt_traverse (\<lambda>c. ext (status_from_u16 L c)) (rs_code raw)) (\<lambda>code.
     res_bind (try_from_hash_map L (rs_response_headers raw)) (\<lambda>response_headers.
       Inr \<lparr>sel_port = rs_port raw, sel_path = map_option WildMatch (rs_path raw),
            sel_method = method, sel_code = code, sel_request_headers = request_headers,
            sel_response_headers = response_headers\<rparr>))))"

fun patch_body_contents_try_from ::
  "('u, 'q, 'h, 'j) lib \<Rightarrow> raw_patch_body_contents \<Rightarrow> 'j patch_body_contents res" where
  "patch_body_contents_try_from L (RawJSON raw) =
     res_bind (ext (json_from_str L raw)) (\<lambda>v. Inr (JSON v))"

definition patch_body_try_from ::
  "('u, 'q, 'h, 'j) lib \<Rightarrow> raw_patch_body \<Rightarrow> 'j patch_body_action res" where
  "patch_body_try_from L raw =
     res_bind (patch_body_contents_try_from L (rpb_contents raw)) (\<lambda>c. Inr \<lparr>pb_contents = c\<rparr>)"

definition patch_action_try_from ::
  "('u, 'q, 'h, 'j) lib \<Rightarrow> raw_patch_action \<Rightarrow> ('h, 'j) patch_action res" where
  "patch_action_try_from L raw =
     res_bind (opt_traverse (patch_body_try_from L) (rpa_body raw)) (\<lambda>body.
     res_bind (opt_traverse (\<lambda>qs. ext (urlencode_pairs L qs)) (rpa_queries raw)) (\<lambda>queries.
     res_bind (try_from_vec L (rpa_headers raw)) (\<lambda>headers.
       Inr \<lparr>pa_body = body, pa_queries = queries, pa_headers = headers\<rparr>)))"

definition replace_body_try_from ::
  "('u, 'q, 'h, 'j) lib \<Rightarrow> raw_replace_body \<Rightarrow> replace_body_action res" where
  "replace_body_try_from L raw =
     res_bind (case rrb_contents raw of
         TEXT text \<Rightarrow> Inr (into_bytes text)
       | BASE64 encoded \<Rightarrow> ext (base64_decode L encoded))
     (\<lambda>contents. Inr \<lparr>rb_contents = contents\<rparr>)"

definition replace_action_try_from ::
  "('u, 'q, 'h, 'j) lib \<Rightarrow> raw_replace_action \<Rightarrow> 'h replace_action res" where
  "replace_action_try_from L raw =
     res_bind (opt_traverse (\<lambda>m. ext (method_parse L m)) (rra_method raw)) (\<lambda>method.
     res_bind (opt_traverse (replace_body_try_from L) (rra_body raw)) (\<lambda>body.
     res_bind (opt_traverse (\<lambda>c. ext (status_from_u16 L c)) (rra_code raw)) (\<lambda>code.
     res_bind (try_from_hash_map L (rra_headers raw)) (\<lambda>headers.
       Inr \<lparr>ra_path = rra_path raw, ra_method = method, ra_body = body, ra_code = code,
            ra_queries = rra_queries raw, ra_headers = headers\<rparr>))))"

definition actions_try_from ::
  "('u, 'q, 'h, 'j) lib \<Rightarrow> raw_actions \<Rightarrow> ('h, 'j) actions res" where
  "actions_try_from L raw =
     res_bind (opt_traverse (replace_action_try_from L) (rac_replace raw)) (\<lambda>replace.
     res_bind (opt_traverse (patch_action_try_from L) (rac_patch raw)) (\<lambda>patch.
       Inr \<lparr>act_abort = unwrap_or False (rac_abort raw), act_delay = rac_delay raw,
            act_replace = replace, act_patch = patch\<rparr>))"

definition rule_try_from ::
  "('u, 'q, 'h, 'j) lib \<Rightarrow> raw_rule \<Rightarrow> ('h, 'j) rule res" where
  "rule_try_from L raw =
     res_bind (selector_try_from L (rr_selector raw)) (\<lambda>selector.
     res_bind (actions_try_from L (rr_actions raw)) (\<lambda>actions.
       Inr \<lparr>rule_target = target_from (rr_target raw), rule_selector = selector,
            rule_actions = actions\<rparr>))"

definition config_try_from ::
  "('u, 'q, 'h, 'j) lib \<Rightarrow> ('a, 'c, 's) tls_lib \<Rightarrow> proxy_raw_config \<Rightarrow> ('h, 'j, 'c, 's) config res"
  where
  "config_try_from L T raw =
     res_bind (res_collect (rule_try_from L) (prc_rules raw)) (\<lambda>rules.
     res_bind (opt_traverse (tls_config_try_from T) (prc_tls raw)) (\<lambda>tls.
       Inr \<lparr>http_config = \<lparr>hc_listen_port = prc_listen_port raw, hc_rules = rules,
              hc_role = prc_role raw\<rparr>,
            tls_config_of = tls\<rparr>))"


subsection \<open>The conversion as a whole\<close>

text \<open>The conversion succeeds exactly when every part converts, and loses nothing of the
  order. The converted configuration has the raw one's listen port and role, one converted
  rule for each raw rule in the same order, and a TLS configuration exactly when the raw one
  has one, converted from it.\<close>

theorem config_try_from_iff:
  "config_try_from L T raw = Inr cfg \<longleftrightarrow>
     hc_listen_port (http_config cfg) = prc_listen_port raw \<and>
     hc_role (http_config cfg) = prc_role raw \<and>
     list_all2 (\<lambda>rr r. rule_try_from L rr = Inr r) (prc_rules raw) (hc_rules (http_config cfg)) \<and>
     rel_option (\<lambda>t c. tls_config_try_from T t = Inr c) (prc_tls raw) (tls_config_of cfg)"
proof (cases cfg)
  case (fields hc tls)
  then show ?thesis
    by (cases hc) (auto simp: config_try_from_def res_bind_Inr_iff res_collect_Inr_iff
        opt_traverse_Inr_iff)
qed

lemma configured_rule:
  assumes "config_try_from L T raw = Inr config" and "rr \<in> set (prc_rules raw)"
  shows "\<exists>r \<in> set (hc_rules (http_config config)). rule_try_from L rr = Inr r"
  using assms by (auto simp: config_try_from_iff list_all2_conv_all_nth in_set_conv_nth)

subsection \<open>Panics\<close>

lemma raw_file_panic_free [panic_free_intros]: "panic_free (raw_file_bytes T f)"
  by (cases f) (auto intro: panic_free_intros)

lemma map_err_panic_free [panic_free_intros]: "panic_free (map_err msg r)"
  by (cases r) (auto simp: map_err_def intro: panic_free_intros)

lemma insert_parsed_panic_free [panic_free_intros]: "panic_free (insert_parsed L h kvs)"
  by (induction L h kvs rule: insert_parsed.induct) (auto intro!: panic_free_intros)

lemma header_conversions_panic_free [panic_free_intros]:
  "panic_free (try_from_hash_map L t)" "panic_free (try_from_vec L u)"
  by (auto simp: try_from_hash_map_def try_from_vec_def intro!: panic_free_intros)

lemma action_conversions_panic_free [panic_free_intros]:
  "panic_free (patch_body_contents_try_from L c)"
  "panic_free (patch_body_try_from L b)"
  "panic_free (patch_action_try_from L pa)"
  "panic_free (replace_body_try_from L rb)"
  "panic_free (replace_action_try_from L ra)"
proof -
  show c: "panic_free (patch_body_contents_try_from L c)" for c
    by (cases c) (auto intro!: panic_free_intros)
  then show b: "panic_free (patch_body_try_from L b)" for b
    by (auto simp: patch_body_try_from_def intro!: panic_free_intros)
  then show "panic_free (patch_action_try_from L pa)"
    by (auto simp: patch_action_try_from_def intro!: panic_free_intros)
  show rb: "panic_free (replace_body_try_from L rb)" for rb
    by (auto simp: replace_body_try_from_def intro!: panic_free_intros
        split: raw_replace_body_contents.splits)
  then show "panic_free (replace_action_try_from L ra)"
    by (auto simp: replace_action_try_from_def intro!: panic_free_intros)
qed

lemma rule_try_from_panic_free [panic_free_intros]: "panic_free (rule_try_from L raw)"
  by (auto simp: rule_try_from_def selector_try_from_def actions_try_from_def
      intro!: panic_free_intros)

lemma ca_anchors_panic:
  "ca_anchors T certs = Inl e \<Longrightarrow>
    (\<exists>cert \<in> set certs. \<exists>err. try_from_cert_der T cert = Inl err)"
  by (induction certs) (auto split: sum.splits simp: res_bind_def)

lemma tls_config_panic:
  assumes "tls_config_try_from T raw = Inl (Panic m)"
  shows "\<exists>cafile data certs cert err. ca_file raw = Some cafile \<and> raw_file_bytes T cafile = Inr data \<and>
    pem_certs T data = Inr certs \<and> cert \<in> set certs \<and> try_from_cert_der T cert = Inl err"
proof -
  note pf [simp] = panic_freeD[OF raw_file_panic_free] panic_freeD[OF map_err_panic_free]
  from assms obtain certs key where
    "(res_bind (case ca_file raw of
         Some cafile \<Rightarrow>
           res_bind (raw_file_bytes T cafile) (\<lambda>ca_data.
           res_bind (ext (pem_certs T ca_data)) (\<lambda>cas. ca_anchors T cas))
       | None \<Rightarrow> Inr (webpki_roots T)) (\<lambda>root_cert_store.
     res_bind (ext (server_config_with_cert T certs key)) (\<lambda>server.
       Inr \<lparr>tls_client_config = client_config_with_roots T root_cert_store,
            tls_server_config = server\<rparr>))) = Inl (Panic m)"
    unfolding tls_config_try_from_def
    by (auto dest!: res_bind_panic simp: bail_def split: list.splits)
  then show ?thesis
    by (cases "ca_file raw") (auto dest!: res_bind_panic ca_anchors_panic, blast)
qed

text \<open>C39: only a malformed CA certificate makes the conversion panic. Whatever the raw
  configuration and whatever the libraries answer, every failure of the conversion is an error
  value, except when the TLS part names a CA file whose content decodes to certificates one of
  which is not a trust anchor.\<close>

theorem config_panics_only_on_ca:
  assumes "config_try_from L T raw = Inl (Panic m)"
  shows "\<exists>tls cafile data certs cert err.
    prc_tls raw = Some tls \<and> ca_file tls = Some cafile \<and> raw_file_bytes T cafile = Inr data \<and>
    pem_certs T data = Inr certs \<and> cert \<in> set certs \<and> try_from_cert_der T cert = Inl err"
proof -
  have "panic_free (res_collect (rule_try_from L) (prc_rules raw))"
    by (intro panic_free_intros)
  with assms have "opt_traverse (tls_config_try_from T) (prc_tls raw) = Inl (Panic m)"
    unfolding config_try_from_def by (auto dest!: res_bind_panic simp: panic_free_def)
  then obtain tls where "prc_tls raw = Some tls" and "tls_config_try_from T tls = Inl (Panic m)"
    by (auto dest: opt_traverse_panic)
  with tls_config_panic show ?thesis by blast
qed

definition demo_tls_lib :: "(bytes, nat, nat) tls_lib" where
  "demo_tls_lib = \<lparr>fs_read = (\<lambda>p. Inl (External ''no such file'')),
     pem_certs = (\<lambda>bs. Inr [bs]), pem_rsa_private_keys = (\<lambda>bs. Inr [bs]),
     try_from_cert_der = (\<lambda>bs. if bs = [] then Inl (External ''bad der'') else Inr bs),
     webpki_roots = [], client_config_with_roots = length,
     server_config_with_cert = (\<lambda>certs key. Inr (length certs))\<rparr>"

definition demo_raw_config :: proxy_raw_config where
  "demo_raw_config = \<lparr>prc_proxy_ports = Some ''80'', prc_listen_port = 1025, prc_safe_mode = False,
     prc_rules = [], prc_role = None,
     prc_tls = Some \<lparr>ca_file = Some (Contents []), cert_file = Contents [1], key_file = Contents [2]\<rparr>\<rparr>"

theorem config_panics_only_on_ca_witness:
  "\<exists>tls cafile data certs cert err.
    prc_tls demo_raw_config = Some tls \<and> ca_file tls = Some cafile \<and>
    raw_file_bytes demo_tls_lib cafile = Inr data \<and> pem_certs demo_tls_lib data = Inr certs \<and>
    cert \<in> set certs \<and> try_from_cert_der demo_tls_lib cert = Inl err"
proof -
  have "config_try_from demo_lib demo_tls_lib demo_raw_config
      = Inl (Panic ''called `Result::unwrap()` on an `Err` value'')"
    by (simp add: config_try_from_def tls_config_try_from_def demo_raw_config_def demo_tls_lib_def
        map_err_def panic_def)
  then show ?thesis by (rule config_panics_only_on_ca)
qed

subsection \<open>Configured header lists\<close>

definition parsed_values ::
  "('u, 'q, 'h, 'j) lib \<Rightarrow> (string \<times> string) list \<Rightarrow> hname \<Rightarrow> hvalue list" where
  "parsed_values L kvs k = concat (map (\<lambda>(key, v).
     case hname_parse L key of Inl _ \<Rightarrow> [] | Inr k' \<Rightarrow>
       (case hvalue_parse L v of Inl _ \<Rightarrow> [] | Inr w \<Rightarrow> if k' = k then [w] else [])) kvs)"

lemma parsed_values_simps:
  "parsed_values L [] k = []"
  "hname_parse L key = Inr k' \<Longrightarrow> hvalue_parse L v = Inr w \<Longrightarrow>
    parsed_values L ((key, v) # kvs) k = (if k' = k then w # parsed_values L kvs k else parsed_values L kvs k)"
  by (simp_all add: parsed_values_def)

lemma insert_parsed_values:
  assumes "header_laws L" and "insert_parsed L h kvs = Inr h'"
  shows "hm_get_all L h' k =
    (if parsed_values L kvs k = [] then hm_get_all L h k else [last (parsed_values L kvs k)])"
  using assms(2)
proof (induction kvs arbitrary: h)
  case Nil
  then show ?case by (simp add: parsed_values_def)
next
  case (Cons p kvs)
  obtain key v where p: "p = (key, v)" by (cases p)
  with Cons.prems obtain k' w where kw: "hname_parse L key = Inr k'" "hvalue_parse L v = Inr w"
    and "insert_parsed L (hm_insert L k' w h) kvs = Inr h'"
    by (auto simp: res_bind_Inr_iff)
  with Cons.IH[OF this(3)] p show ?case
    by (simp add: parsed_values_simps(2)[OF kw] header_laws_simps[OF assms(1)])
qed

text \<open>A list of configured patch headers keeps one value for each name. The converted
  header map holds, for every name, exactly the last of the configured values of that name:
  of two pairs with the same name the first is lost.\<close>

theorem patch_headers_keep_last:
  assumes "header_laws L" and "try_from_vec L (Some kvs) = Inr (Some hmap)"
  shows "hm_get_all L hmap k =
    (if parsed_values L kvs k = [] then [] else [last (parsed_values L kvs k)])"
  using insert_parsed_values[OF assms(1), of "hm_new L" kvs hmap k] assms(2)
  by (simp add: try_from_vec_def res_bind_Inr_iff header_laws_simps[OF assms(1)])

theorem patch_headers_keep_last_witness:
  "\<exists>hmap. try_from_vec demo_lib (Some [(''x'', ''1''), (''x'', ''2'')]) = Inr (Some hmap) \<and>
     hm_get_all demo_lib hmap ''x'' = [into_bytes ''2'']"
proof -
  have "try_from_vec demo_lib (Some [(''x'', ''1''), (''x'', ''2'')])
      = Inr (Some [(''x'', into_bytes ''2'')])"
    by (simp add: try_from_vec_def demo_lib_def)
  from patch_headers_keep_last [OF demo_header_laws this, of "''x''"] this show ?thesis
    by (simp add: parsed_values_def demo_lib_def)
qed

end
