(* ===== verification/Ctl_Config.thy ===== *)
theory Ctl_Config
  imports Raw_Config
begin

text \<open>
  \<open>raw_config.rs\<close> and \<open>proxy/config.rs\<close> of the controller, with the interface lookups of
  \<open>proxy/net/bridge.rs\<close> they use: from the configuration file to the configuration of the
  sub proxy, with the choice of its listen port.
\<close>

subsection \<open>Network interfaces\<close>

datatype ip_network = NetV4 ipv4_addr u8 | NetV6 ipv6_addr u8

text \<open>A \<open>pnet::datalink::NetworkInterface\<close>: its name, the text of its MAC address, its
  networks and the two flags the code asks for.\<close>

record network_interface =
  if_name :: string
  if_mac :: "string option"
  if_ips :: "ip_network list"
  if_is_loopback :: bool
  if_is_up :: bool

fun get_interface :: "network_interface list \<Rightarrow> string \<Rightarrow> network_interface res" where
  "get_interface [] name = bail ''no valid interface''"
| "get_interface (interface # interfaces) name =
     (if if_name interface = name then Inr interface else get_interface interfaces name)"

fun get_default_interface :: "network_interface list \<Rightarrow> network_interface res" where
  "get_default_interface [] = bail ''no valid interface''"
| "get_default_interface (interface # interfaces) =
     (if \<not> if_is_loopback interface \<and> if_is_up interface \<and> if_ips interface \<noteq> []
      then Inr interface else get_default_interface interfaces)"

fun first_ipv4 :: "ip_network list \<Rightarrow> string option" where
  "first_ipv4 [] = None"
| "first_ipv4 (NetV4 a p # ips) = Some (ipv4_to_string a @ ''/'' @ dec (unat p))"
| "first_ipv4 (NetV6 a p # ips) = first_ipv4 ips"

definition get_ipv4 :: "network_interface \<Rightarrow> string option" where
  "get_ipv4 device = first_ipv4 (if_ips device)"

subsection \<open>The configuration file\<close>

datatype raw_role = RawClient | RawServer

record ctl_raw_config =
  rc_proxy_ports :: "u16 list option"
  rc_safe_mode :: "bool option"
  rc_rules :: "raw_rule list option"
  rc_tls :: "tls_raw_config option"
  rc_role :: "raw_role option"
  rc_interface :: "string option"
  rc_listen_port :: "u16 option"
  rc_proxy_mark :: "32 word option"
  rc_ignore_mark :: "32 word option"
  rc_route_table :: "u8 option"

record ctl_config =
  proxy_config :: proxy_raw_config

subsection \<open>The listen port\<close>

lemma u16_succ_less:
  assumes "(p :: u16) < 65535"
  shows "unat (p + 1) = Suc (unat p)"
proof -
  from assms have "unat p < 65535" by (simp add: word_less_nat_alt)
  then show ?thesis by (simp add: unat_plus_if')
qed

text \<open>\<open>for port in 1025..u16::MAX\<close>: the range excludes its end.\<close>

function free_port_from :: "u16 \<Rightarrow> u16 list option \<Rightarrow> u16 res" where
  "free_port_from prt ports =
     (if prt < 65535 then
        (case ports of
           None \<Rightarrow> Inr prt
         | Some ps \<Rightarrow>
             if list_all (\<lambda>p. p \<noteq> prt) ps then Inr prt
             else free_port_from (prt + 1) ports)
      else bail ''never apply all ports in 1025-65535 to be proxy ports'')"
  by pat_completeness auto

termination
proof (relation "measure (\<lambda>(p, ports). 65535 - unat p)")
  show "wf (measure (\<lambda>(p :: u16, ports :: u16 list option). 65535 - unat p))" by simp
next
  fix p :: u16 and ports :: "u16 list option" and ps
  assume less: "p < 65535"
  then have "unat p < 65535" by (simp add: word_less_nat_alt)
  with u16_succ_less[OF less]
  show "((p + 1, ports), (p, ports)) \<in> measure (\<lambda>(p, ports). 65535 - unat p)" by simp
qed

declare free_port_from.simps [simp del]

definition get_free_port :: "u16 list option \<Rightarrow> u16 res" where
  "get_free_port ports = free_port_from 1025 ports"

subsection \<open>The configuration of the sub proxy\<close>

definition ports_to_string :: "u16 list \<Rightarrow> string" where
  "ports_to_string c = join (CHR '','') (map (\<lambda>p. dec (unat p)) c)"

definition ipv4s_of :: "ip_network list \<Rightarrow> ipv4_addr list" where
  "ipv4s_of ips = List.map_filter (\<lambda>n. case n of NetV4 a p \<Rightarrow> Some a | NetV6 _ _ \<Rightarrow> None) ips"

definition ctl_config_try_from ::
  "network_interface list \<Rightarrow> ctl_raw_config \<Rightarrow> ctl_config res" where
  "ctl_config_try_from interfaces raw =
     res_bind (get_default_interface interfaces) (\<lambda>device.
     let ipv4s = ipv4s_of (if_ips device) in
     if ipv4s = [] then bail ''no default ipv4''
     else res_bind (get_free_port (rc_proxy_ports raw)) (\<lambda>listen_port.
       Inr \<lparr>proxy_config = \<lparr>
         prc_proxy_ports = map_option ports_to_string (rc_proxy_ports raw),
         prc_listen_port = listen_port,
         prc_safe_mode = (case rc_safe_mode raw of Some b \<Rightarrow> b | None \<Rightarrow> False),
         prc_rules = unwrap_or [] (rc_rules raw),
         prc_role = (case rc_role raw of None \<Rightarrow> None
           | Some RawClient \<Rightarrow> Some (Client ipv4s)
           | Some RawServer \<Rightarrow> Some (Server ipv4s)),
         prc_tls = rc_tls raw\<rparr>\<rparr>))"

subsection \<open>The listen port is the first free one\<close>

definition port_taken :: "u16 list option \<Rightarrow> u16 \<Rightarrow> bool" where
  "port_taken ports p \<longleftrightarrow> (\<exists>ps. ports = Some ps \<and> p \<in> set ps)"

lemma free_port_step:
  "free_port_from prt ports =
     (if prt < 65535 then if port_taken ports prt then free_port_from (prt + 1) ports else Inr prt
      else bail ''never apply all ports in 1025-65535 to be proxy ports'')"
  by (subst free_port_from.simps) (auto simp: port_taken_def list_all_iff split: option.splits)

lemma u16_le_succ:
  assumes "(p :: u16) < 65535"
  shows "p \<le> q \<longleftrightarrow> p = q \<or> p + 1 \<le> q"
  using u16_succ_less[OF assms] by (auto simp: word_le_nat_alt word_unat_eq_iff)

lemma free_port_from_Inr:
  "free_port_from prt ports = Inr p \<longleftrightarrow>
     prt \<le> p \<and> p < 65535 \<and> \<not> port_taken ports p \<and> (\<forall>q. prt \<le> q \<and> q < p \<longrightarrow> port_taken ports q)"
proof (induction prt ports rule: free_port_from.induct)
  case (1 prt ports)
  show ?case
  proof (cases "prt < 65535 \<and> port_taken ports prt")
    case True
    then obtain ps where ps: "ports = Some ps" "\<not> list_all (\<lambda>p. p \<noteq> prt) ps"
      by (auto simp: port_taken_def list_all_iff)
    have "free_port_from prt ports = Inr p \<longleftrightarrow> free_port_from (prt + 1) ports = Inr p"
      using True by (subst free_port_step) simp
    also have "\<dots> \<longleftrightarrow> prt + 1 \<le> p \<and> p < 65535 \<and> \<not> port_taken ports p \<and>
        (\<forall>q. prt + 1 \<le> q \<and> q < p \<longrightarrow> port_taken ports q)"
      using "1.IH"[OF _ ps(1)] True ps by simp
    also have "\<dots> \<longleftrightarrow> prt \<le> p \<and> p < 65535 \<and> \<not> port_taken ports p \<and>
        (\<forall>q. prt \<le> q \<and> q < p \<longrightarrow> port_taken ports q)"
      using True u16_le_succ[of prt] by metis
    finally show ?thesis .
  next
    case False
    then have "free_port_from prt ports = Inr p \<longleftrightarrow> prt < 65535 \<and> prt = p"
      by (subst free_port_step) auto
    with False show ?thesis
      by (auto simp: not_less dest: order.trans)
  qed
qed

lemma free_port_from_Inl:
  "free_port_from prt ports = Inl e \<longleftrightarrow>
     e = Error (Anyhow ''never apply all ports in 1025-65535 to be proxy ports'') \<and>
     (\<forall>q. prt \<le> q \<and> q < 65535 \<longrightarrow> port_taken ports q)"
proof (induction prt ports rule: free_port_from.induct)
  case (1 prt ports)
  show ?case
  proof (cases "prt < 65535 \<and> port_taken ports prt")
    case True
    then obtain ps where ps: "ports = Some ps" "\<not> list_all (\<lambda>p. p \<noteq> prt) ps"
      by (auto simp: port_taken_def list_all_iff)
    have "free_port_from prt ports = Inl e \<longleftrightarrow> free_port_from (prt + 1) ports = Inl e"
      using True by (subst free_port_step) simp
    also have "\<dots> \<longleftrightarrow> e = Error (Anyhow ''never apply all ports in 1025-65535 to be proxy ports'') \<and>
        (\<forall>q. prt + 1 \<le> q \<and> q < 65535 \<longrightarrow> port_taken ports q)"
      using "1.IH"[OF _ ps(1)] True ps by simp
    finally show ?thesis using True u16_le_succ[of prt] by metis
  next
    case False
    show ?thesis
    proof (cases "prt < 65535")
      case True
      with False have "free_port_from prt ports = Inr prt" and "\<not> port_taken ports prt"
        using free_port_step[of prt ports] by auto
      with True show ?thesis by auto
    next
      case ge: False
      then have "free_port_from prt ports
          = bail ''never apply all ports in 1025-65535 to be proxy ports''"
        using free_port_step[of prt ports] by simp
      moreover from ge have "\<not> (prt \<le> q \<and> q < 65535)" for q by auto
      ultimately show ?thesis by (auto simp: bail_def)
    qed
  qed
qed

text \<open>C25: the listen port is the first port from 1025 to 65534 that is not to be proxied. The
  search succeeds with exactly that port, and fails exactly when all of these are proxied
  ports; without proxied ports it is 1025.\<close>

theorem get_free_port_spec:
  "(get_free_port ports = Inr p \<longleftrightarrow>
      1025 \<le> p \<and> p < 65535 \<and> \<not> port_taken ports p \<and>
      (\<forall>q. 1025 \<le> q \<and> q < p \<longrightarrow> port_taken ports q)) \<and>
   ((\<exists>e. get_free_port ports = Inl e) \<longleftrightarrow> (\<forall>q. 1025 \<le> q \<and> q < 65535 \<longrightarrow> port_taken ports q)) \<and>
   get_free_port None = Inr 1025"
proof (intro conjI)
  show "get_free_port None = Inr 1025"
    using free_port_step[of 1025 None] by (simp add: get_free_port_def port_taken_def)
qed (simp_all add: get_free_port_def free_port_from_Inr free_port_from_Inl)

lemma u16_range: "(1025 :: u16) \<le> q \<and> q < 1027 \<longleftrightarrow> q = 1025 \<or> q = 1026"
  using u16_le_succ[of 1025 q] u16_le_succ[of 1026 q] by (auto simp: not_le[symmetric])

theorem get_free_port_spec_witness:
  "get_free_port (Some [1026, 1025, 80]) = Inr 1027"
  using get_free_port_spec [of "Some [1026, 1025, 80]" 1027]
  by (simp add: port_taken_def u16_range)


subsection \<open>The list of proxied ports as text\<close>

lemma ports_to_string_empty: "ports_to_string ps = [] \<longleftrightarrow> ps = []"
  unfolding ports_to_string_def by (subst join_eq_Nil_iff) (auto simp: list_all_iff)

text \<open>The text of the proxied ports says which ports they are. Splitting it at the commas
  and reading the decimals gives the configured ports back, in order; the empty text stands for
  the empty list.\<close>

theorem ports_text_reads_back:
  "(if ports_to_string ps = '''' then []
    else map (\<lambda>w. of_nat (undec w)) (split_on (CHR '','') (ports_to_string ps))) = ps"
proof (cases "ps = []")
  case True
  then show ?thesis by (simp add: ports_to_string_def)
next
  case False
  then have "map undec (split_on (CHR '','') (ports_to_string ps)) = map unat ps"
    using split_join_dec[of "CHR '',''" "map unat ps"] by (simp add: ports_to_string_def comp_def)
  then have "map of_nat (map undec (split_on (CHR '','') (ports_to_string ps)))
      = (map of_nat (map unat ps) :: u16 list)" by simp
  with False show ?thesis by (simp add: comp_def ports_to_string_empty)
qed

subsection \<open>The converted configuration\<close>

definition usable :: "network_interface \<Rightarrow> bool" where
  "usable i \<longleftrightarrow> \<not> if_is_loopback i \<and> if_is_up i \<and> if_ips i \<noteq> []"

lemma get_default_interface_find:
  "get_default_interface ifs =
     (case find usable ifs of None \<Rightarrow> bail ''no valid interface'' | Some i \<Rightarrow> Inr i)"
  by (induction ifs) (auto simp: usable_def)

lemma get_interface_Inr: "get_interface ifs name = Inr i \<Longrightarrow> i \<in> set ifs \<and> if_name i = name"
  by (induction ifs) (auto split: if_splits)

lemma ipv4s_of_set: "a \<in> set (ipv4s_of ips) \<longleftrightarrow> (\<exists>p. NetV4 a p \<in> set ips)"
  by (induction ips) (auto simp: ipv4s_of_def List.map_filter_simps split: ip_network.splits)

lemma ctl_config_Inr:
  assumes "ctl_config_try_from ifs raw = Inr cfg"
  shows "1025 \<le> prc_listen_port (proxy_config cfg) \<and>
    \<not> port_taken (rc_proxy_ports raw) (prc_listen_port (proxy_config cfg)) \<and>
    (\<exists>device addrs. find usable ifs = Some device \<and> addrs \<noteq> [] \<and>
       set addrs = {a. \<exists>p. NetV4 a p \<in> set (if_ips device)} \<and>
       prc_role (proxy_config cfg) = map_option (\<lambda>r. case r of RawClient \<Rightarrow> Client addrs
         | RawServer \<Rightarrow> Server addrs) (rc_role raw)) \<and>
    prc_proxy_ports (proxy_config cfg) = map_option ports_to_string (rc_proxy_ports raw) \<and>
    prc_safe_mode (proxy_config cfg) = unwrap_or False (rc_safe_mode raw) \<and>
    prc_rules (proxy_config cfg) = unwrap_or [] (rc_rules raw) \<and>
    prc_tls (proxy_config cfg) = rc_tls raw"
proof -
  from assms obtain device lp where device: "find usable ifs = Some device"
    and addrs: "ipv4s_of (if_ips device) \<noteq> []"
    and lp: "get_free_port (rc_proxy_ports raw) = Inr lp"
    and cfg: "cfg = \<lparr>proxy_config = \<lparr>
         prc_proxy_ports = map_option ports_to_string (rc_proxy_ports raw),
         prc_listen_port = lp,
         prc_safe_mode = (case rc_safe_mode raw of Some b \<Rightarrow> b | None \<Rightarrow> False),
         prc_rules = unwrap_or [] (rc_rules raw),
         prc_role = (case rc_role raw of None \<Rightarrow> None
           | Some RawClient \<Rightarrow> Some (Client (ipv4s_of (if_ips device)))
           | Some RawServer \<Rightarrow> Some (Server (ipv4s_of (if_ips device)))),
         prc_tls = rc_tls raw\<rparr>\<rparr>"
    by (auto simp: ctl_config_try_from_def get_default_interface_find res_bind_Inr_iff Let_def
        split: option.splits if_splits)
  have "(\<exists>device addrs. find usable ifs = Some device \<and> addrs \<noteq> [] \<and>
       set addrs = {a. \<exists>p. NetV4 a p \<in> set (if_ips device)} \<and>
       prc_role (proxy_config cfg) = map_option (\<lambda>r. case r of RawClient \<Rightarrow> Client addrs
         | RawServer \<Rightarrow> Server addrs) (rc_role raw))"
    using device addrs
    by (intro exI[of _ device] exI[of _ "ipv4s_of (if_ips device)"])
      (auto simp: cfg ipv4s_of_set split: option.splits raw_role.splits)
  with lp show ?thesis
    by (simp add: cfg get_free_port_def free_port_from_Inr unwrap_or_def)
qed

text \<open>A converted configuration listens on a port of its own and acts for the machine's own
  addresses. Its listen port is at least 1025 and not a proxied port; a configured role names
  exactly the IPv4 addresses of the first interface that is up, not loopback and has an
  address, of which there is at least one; ports, safe mode, rules and TLS are the configured
  ones, with no port text, \<open>False\<close> and no rules where they are absent.\<close>

theorem ctl_config_try_from_spec:
  assumes "ctl_config_try_from ifs raw = Inr cfg"
  shows "1025 \<le> prc_listen_port (proxy_config cfg) \<and>
    \<not> port_taken (rc_proxy_ports raw) (prc_listen_port (proxy_config cfg)) \<and>
    (\<exists>device addrs. find usable ifs = Some device \<and> addrs \<noteq> [] \<and>
       set addrs = {a. \<exists>p. NetV4 a p \<in> set (if_ips device)} \<and>
       prc_role (proxy_config cfg) = map_option (\<lambda>r. case r of RawClient \<Rightarrow> Client addrs
         | RawServer \<Rightarrow> Server addrs) (rc_role raw)) \<and>
    prc_proxy_ports (proxy_config cfg) = map_option ports_to_string (rc_proxy_ports raw) \<and>
    prc_safe_mode (proxy_config cfg) = unwrap_or False (rc_safe_mode raw) \<and>
    prc_rules (proxy_config cfg) = unwrap_or [] (rc_rules raw) \<and>
    prc_tls (proxy_config cfg) = rc_tls raw"
  using assms by (rule ctl_config_Inr)

definition demo_interface :: network_interface where
  "demo_interface = \<lparr>if_name = ''eth0'', if_mac = Some ''02:00:00:00:00:01'',
     if_ips = [NetV4 0x0A000005 24], if_is_loopback = False, if_is_up = True\<rparr>"

definition demo_ctl_raw :: ctl_raw_config where
  "demo_ctl_raw = \<lparr>rc_proxy_ports = Some [80, 443], rc_safe_mode = None, rc_rules = None,
     rc_tls = None, rc_role = Some RawClient, rc_interface = None, rc_listen_port = Some 58080,
     rc_proxy_mark = None, rc_ignore_mark = None, rc_route_table = None\<rparr>"

definition demo_ctl_config :: ctl_config where
  "demo_ctl_config = \<lparr>proxy_config = \<lparr>prc_proxy_ports = Some ''80,443'', prc_listen_port = 1025,
     prc_safe_mode = False, prc_rules = [], prc_role = Some (Client [0x0A000005]), prc_tls = None\<rparr>\<rparr>"

lemma demo_ctl_conversion: "ctl_config_try_from [demo_interface] demo_ctl_raw = Inr demo_ctl_config"
  by (simp add: ctl_config_try_from_def demo_interface_def demo_ctl_raw_def demo_ctl_config_def
      ipv4s_of_def List.map_filter_simps get_free_port_def free_port_step[of 1025] port_taken_def
      ports_to_string_def dec.simps digit_def Let_def char_of_eq_iff)

theorem ctl_config_try_from_spec_witness:
  "1025 \<le> prc_listen_port (proxy_config demo_ctl_config) \<and>
   \<not> port_taken (rc_proxy_ports demo_ctl_raw) (prc_listen_port (proxy_config demo_ctl_config)) \<and>
   prc_proxy_ports (proxy_config demo_ctl_config) = Some (ports_to_string [80, 443])"
  using ctl_config_try_from_spec [OF demo_ctl_conversion]
  by (auto simp: demo_ctl_raw_def)

end
