(* ===== verification/Retry.thy ===== *)
theory Retry
  imports Prelude
begin

text \<open>
  Two contracts that both programs rely on: running a sequence of commands, each of which
  records itself whatever its outcome, and repeating a step until it gives a result.
\<close>

subsection \<open>Runners of commands\<close>

text \<open>What the set-up and tear-down code relies on: running a command records exactly that
  command (nothing for an empty one), whatever the outcome, and never panics.\<close>

locale command_runner =
  fixes run :: "'c \<Rightarrow> ('e, unit) io"
    and logged :: "'c \<Rightarrow> 'e list"
  assumes run_logs: "snd (run c h) = h @ logged c"
    and run_no_panic: "no_panic (run c)"
    and run_ends: "fst (run c h) \<noteq> Inl Diverge"
begin

lemma run_value: "run c h = (Inr (), h @ logged c) \<or> (\<exists>e. run c h = (Inl (Error e), h @ logged c))"
proof (cases "run c h")
  case (Pair r h')
  with run_logs[of c h] have h': "h' = h @ logged c" by simp
  show ?thesis
  proof (cases r)
    case (Inl e)
    with Pair no_panicD[OF run_no_panic] run_ends[of c h] have "\<exists>x. e = Error x"
      by (cases e) auto
    with Pair h' Inl show ?thesis by auto
  next
    case (Inr u)
    with Pair h' show ?thesis by simp
  qed
qed

lemma all_stops_at_failure:
  "\<exists>done_cmds. prefix done_cmds cs \<and>
     snd (io_foldl (\<lambda>_. run) () cs h) = h @ concat (map logged done_cmds) \<and>
     (case fst (io_foldl (\<lambda>_. run) () cs h) of
        Inr _ \<Rightarrow> done_cmds = cs
      | Inl e \<Rightarrow> \<exists>xs c. done_cmds = xs @ [c] \<and>
          fst (run c (h @ concat (map logged xs))) = Inl e)"
proof (induction cs arbitrary: h)
  case Nil
  then show ?case by simp
next
  case (Cons c cs)
  from run_value[of c h] show ?case
  proof
    assume ok: "run c h = (Inr (), h @ logged c)"
    obtain ds where ds: "prefix ds cs"
      "snd (io_foldl (\<lambda>_. run) () cs (h @ logged c)) = h @ logged c @ concat (map logged ds)"
      "case fst (io_foldl (\<lambda>_. run) () cs (h @ logged c)) of Inr _ \<Rightarrow> ds = cs
        | Inl e \<Rightarrow> \<exists>xs c'. ds = xs @ [c'] \<and>
            fst (run c' (h @ logged c @ concat (map logged xs))) = Inl e"
      using Cons[of "h @ logged c"] unfolding append_assoc by blast
    show ?thesis
    proof (intro exI[of _ "c # ds"] conjI)
      show "case fst (io_foldl (\<lambda>_. run) () (c # cs) h) of Inr _ \<Rightarrow> c # ds = c # cs
          | Inl e \<Rightarrow> \<exists>xs c'. c # ds = xs @ [c'] \<and>
              fst (run c' (h @ concat (map logged xs))) = Inl e"
      proof (cases "fst (io_foldl (\<lambda>_. run) () cs (h @ logged c))")
        case (Inl e)
        with ds(3) obtain xs c' where "ds = xs @ [c']"
          and "fst (run c' (h @ logged c @ concat (map logged xs))) = Inl e" by auto
        then have "c # ds = (c # xs) @ [c']"
          and "fst (run c' (h @ concat (map logged (c # xs)))) = Inl e" by simp_all
        with ok Inl show ?thesis by fastforce
      next
        case (Inr u)
        with ok ds(3) show ?thesis by simp
      qed
    qed (use ok ds in simp_all)
  next
    assume "\<exists>e. run c h = (Inl (Error e), h @ logged c)"
    then show ?thesis by (intro exI[of _ "[c]"]) auto
  qed
qed

lemma all_logged_runs_everything:
  "io_foldl (\<lambda>_ c. io_bind (io_try (run c)) (\<lambda>_. io_ok ())) () cs h
     = (Inr (), h @ concat (map logged cs))"
proof (induction cs arbitrary: h)
  case Nil
  then show ?case by simp
next
  case (Cons c cs)
  from run_value[of c h] Cons[of "h @ logged c"] show ?case
    by (auto simp: io_bind_run io_try_run)
qed

end

subsection \<open>Retrying\<close>

text \<open>A loop that repeats a step, which records an event, as long as a condition on the history
  holds.\<close>

locale retry_loop =
  fixes loop :: "'e list \<Rightarrow> 'r option"
    and again :: "'e list \<Rightarrow> bool"
    and step :: 'e
    and outcome :: "'e list \<Rightarrow> 'r"
  assumes loop_unfold: "loop h = (if again h then loop (h @ [step]) else Some (outcome h))"
    and loop_ends: "loop h = Some r \<Longrightarrow> \<exists>k. \<not> again (h @ replicate k step)"
begin

lemma loop_found:
  assumes "\<forall>j < k. again (h @ replicate j step)" and "\<not> again (h @ replicate k step)"
  shows "loop h = Some (outcome (h @ replicate k step))"
  using assms
proof (induction k arbitrary: h)
  case 0
  then show ?case by (subst loop_unfold) simp
next
  case (Suc k)
  have shift: "(h @ [step]) @ replicate j step = h @ replicate (Suc j) step" for j by simp
  have "loop (h @ [step]) = Some (outcome ((h @ [step]) @ replicate k step))"
    using Suc.prems by (intro Suc.IH) (simp_all only: shift, auto)
  moreover from Suc.prems(1) have "again h" by force
  ultimately show ?case by (subst loop_unfold) simp
qed

lemma loop_cases:
  "(\<exists>k. (\<forall>j < k. again (h @ replicate j step)) \<and> \<not> again (h @ replicate k step) \<and>
      loop h = Some (outcome (h @ replicate k step))) \<or>
   ((\<forall>k. again (h @ replicate k step)) \<and> loop h = None)"
proof (cases "\<exists>k. \<not> again (h @ replicate k step)")
  case True
  then obtain k where "\<forall>j < k. again (h @ replicate j step)" "\<not> again (h @ replicate k step)"
    using exists_least_iff[of "\<lambda>k. \<not> again (h @ replicate k step)"] by blast
  with loop_found show ?thesis by blast
next
  case False
  with loop_ends show ?thesis by (cases "loop h") auto
qed

end

end
