(* ===== verification/Signals.thy ===== *)
theory Signals
  imports Prelude
begin

text \<open>
  \<open>signal.rs\<close> of the proxy crate, which both programs use to wait for their end. The event of a
  registration, the event of the wait and the answers of the system are parameters.
\<close>

datatype signal_kind = Interrupt | Terminate

text \<open>\<open>Signals::from_kinds\<close>: registers the kinds in order, the first error wins.\<close>

fun signals_from_kinds ::
  "(signal_kind \<Rightarrow> 'e) \<Rightarrow> ('e list \<Rightarrow> signal_kind \<Rightarrow> error + unit) \<Rightarrow> signal_kind list
    \<Rightarrow> ('e, signal_kind list) io" where
  "signals_from_kinds register answer [] = io_ok []"
| "signals_from_kinds register answer (kind # kinds) =
     io_bind (io_call (register kind) (\<lambda>h. answer h kind)) (\<lambda>_.
     io_bind (signals_from_kinds register answer kinds) (\<lambda>signals. io_ok (kind # signals)))"

text \<open>\<open>Signals::wait\<close>: \<open>select_all\<close> of the registered signals, which panics when there is none.\<close>

definition signals_wait :: "'e \<Rightarrow> signal_kind list \<Rightarrow> ('e, unit) io" where
  "signals_wait wait signals =
     (if signals = [] then io_lift (panic ''select_all of nothing'') else io_emit wait)"

lemma signals_from_kinds_Inr:
  "signals_from_kinds register answer kinds h = (Inr signals, h') \<Longrightarrow>
    signals = kinds \<and> h' = h @ map register kinds"
  by (induction kinds arbitrary: h signals) (fastforce elim!: io_bind_Inr)+

lemma signals_from_kinds_within [within_intros]:
  "(\<And>kind. kind \<in> set kinds \<Longrightarrow> E (register kind)) \<Longrightarrow> within E P (signals_from_kinds register answer kinds)"
  by (induction kinds) (auto intro!: within_intros)

lemma signals_wait_run:
  "signals \<noteq> [] \<Longrightarrow> signals_wait wait signals h = (Inr (), h @ [wait])"
  by (simp add: signals_wait_def)

end
