(* ===== verification/Net_Commands.thy ===== *)
theory Net_Commands
  imports Ctl_Config Retry Signals
begin

text \<open>
  The command layer of \<open>proxy/net/bridge.rs\<close> and \<open>proxy/net/iptables.rs\<close>: how the controller
  runs system commands, and the commands it builds. The effects of the controller are the
  events of one history; what the operating system answers to each is a field of the record
  \<open>sys\<close>.
\<close>

subsection \<open>The operating system\<close>

text \<open>A netlink route message and its attributes, as far as the code looks at them.\<close>

datatype nla = PrefSource bytes | Gateway bytes | OtherNla nat bytes

record route_message =
  rm_table :: u8
  rm_nlas :: "nla list"

text \<open>\<open>default_net::Gateway\<close>: the octets and the text of its MAC address, and its IP address.\<close>

record gateway =
  gw_mac_octets :: bytes
  gw_mac :: string
  gw_ip :: ip_addr

record cmd_output =
  out_success :: bool
  out_stdout :: bytes
  out_stderr :: bytes

text \<open>\<open>libarp::interfaces::Interface\<close>: its address, if it has one, and its MAC text.\<close>

record arp_interface =
  arp_ip :: "ipv4_addr option"
  arp_mac :: string

text \<open>\<open>libarp::arp::ArpMessage\<close>: hardware and protocol addresses of sender and target.\<close>

record arp_message =
  am_source_mac :: string
  am_source_ip :: ipv4_addr
  am_target_mac :: string
  am_target_ip :: ipv4_addr
  am_is_request :: bool

datatype cevent =
  Exec "string list"
| ListInterfaces
| QueryGateway
| GetRoutes
| DelRoute route_message
| AddRoute route_message
| FindArpInterface string
| SendArp string arp_message
| StartPing ip_addr
| NewUuid
| OpenNetlink
| NewChannel
| UdsBind string
| SpawnUdsServer string proxy_raw_config
| RemoveFile string
| CurrentExe
| SpawnTask nat "string list"
| SendStop nat
| AwaitTask nat
| SpawnConfigServer nat
| SendShutdown nat
| AwaitConfigServer nat
| RunProxyMain string
| RegisterSignal signal_kind
| WaitSignals

record sys =
  sys_output :: "cevent list \<Rightarrow> string list \<Rightarrow> error + cmd_output"
  sys_lossy :: "bytes \<Rightarrow> string"
  sys_interfaces :: "cevent list \<Rightarrow> network_interface list"
  sys_gateway :: "cevent list \<Rightarrow> error + gateway"
  sys_get_routes :: "cevent list \<Rightarrow> error + route_message list"
  sys_del_route :: "cevent list \<Rightarrow> route_message \<Rightarrow> error + unit"
  sys_add_route :: "cevent list \<Rightarrow> route_message \<Rightarrow> error + unit"
  sys_arp_interface :: "cevent list \<Rightarrow> string \<Rightarrow> error + arp_interface"
  sys_send_arp :: "cevent list \<Rightarrow> string \<Rightarrow> arp_message \<Rightarrow> error + unit"
  sys_ping_client :: "cevent list \<Rightarrow> error + unit"
  sys_parse_ipv4_network :: "string \<Rightarrow> error + ipv4_addr"
  sys_uuid :: "cevent list \<Rightarrow> string"
  sys_open_netlink :: "cevent list \<Rightarrow> error + unit"
  sys_temp_dir :: string
  sys_uds_bind :: "cevent list \<Rightarrow> string \<Rightarrow> error + unit"
  sys_remove_file :: "cevent list \<Rightarrow> string \<Rightarrow> error + unit"
  sys_current_exe :: "cevent list \<Rightarrow> error + string"
  sys_signal :: "cevent list \<Rightarrow> signal_kind \<Rightarrow> error + unit"
  sys_join_task :: "cevent list \<Rightarrow> nat \<Rightarrow> error + (error + unit)"

subsection \<open>Running commands\<close>

text \<open>A command counts as failed when it prints to its standard error; its exit status is not
  looked at.\<close>

definition os_err :: "sys \<Rightarrow> bytes \<Rightarrow> unit res" where
  "os_err S stderr = (if stderr \<noteq> [] then bail (''stderr : '' @ sys_lossy S stderr) else Inr ())"

definition execute :: "sys \<Rightarrow> string list \<Rightarrow> (cevent, unit) io" where
  "execute S cmdv = (case cmdv of
       [] \<Rightarrow> io_ok ()
     | s # args \<Rightarrow>
         io_bind (io_call (Exec cmdv) (\<lambda>h. sys_output S h cmdv))
           (\<lambda>out. io_lift (os_err S (out_stderr out))))"

fun execute_all :: "sys \<Rightarrow> string list list \<Rightarrow> (cevent, unit) io" where
  "execute_all S [] = io_ok ()"
| "execute_all S (cmdv # cmdvv) = io_bind (execute S cmdv) (\<lambda>_. execute_all S cmdvv)"

fun execute_all_with_log_error :: "sys \<Rightarrow> string list list \<Rightarrow> (cevent, unit) io" where
  "execute_all_with_log_error S [] = io_ok ()"
| "execute_all_with_log_error S (cmdv # cmdvv) =
     io_bind (io_try (execute S cmdv)) (\<lambda>_. execute_all_with_log_error S cmdvv)"

subsection \<open>The commands\<close>

definition arp_set :: "string \<Rightarrow> string \<Rightarrow> string \<Rightarrow> string list" where
  "arp_set addr mac dev = [''arp'', ''-s'', addr, mac, ''-i'', dev]"

definition ip_netns_add :: "string \<Rightarrow> string list" where
  "ip_netns_add name = [''ip'', ''netns'', ''add'', name]"

definition ip_netns_del :: "string \<Rightarrow> string list" where
  "ip_netns_del name = [''ip'', ''netns'', ''delete'', name]"

definition ip_link_add_bridge :: "string \<Rightarrow> string list" where
  "ip_link_add_bridge name = [''ip'', ''link'', ''add'', ''name'', name, ''type'', ''bridge'']"

definition bash_c :: "string \<Rightarrow> string list" where
  "bash_c cmd = [''sh'', ''-c'', cmd]"

definition ip_link_del_bridge :: "string \<Rightarrow> string list" where
  "ip_link_del_bridge name = [''ip'', ''link'', ''delete'', ''dev'', name, ''type'', ''bridge'']"

definition ip_link_add_veth_peer ::
  "string \<Rightarrow> string option \<Rightarrow> string \<Rightarrow> string option \<Rightarrow> string list" where
  "ip_link_add_veth_peer name1 netns1 name2 netns2 =
     [''ip'', ''link'', ''add'', name1]
     @ (case netns1 of None \<Rightarrow> [] | Some netns \<Rightarrow> [''netns'', netns])
     @ [''type'', ''veth'', ''peer'', name2]
     @ (case netns2 of None \<Rightarrow> [] | Some netns \<Rightarrow> [''netns'', netns])"

definition ip_netns :: "string \<Rightarrow> string list \<Rightarrow> string list" where
  "ip_netns netns cmdv = [''ip'', ''netns'', ''exec'', netns] @ cmdv"

definition ip_link_set_up :: "string \<Rightarrow> string list" where
  "ip_link_set_up name = [''ip'', ''link'', ''set'', name, ''up'']"

definition ip_link_set_master :: "string \<Rightarrow> string \<Rightarrow> string list" where
  "ip_link_set_master name master = [''ip'', ''link'', ''set'', name, ''master'', master]"

definition ip_address :: "string \<Rightarrow> string \<Rightarrow> string \<Rightarrow> string list" where
  "ip_address action address dev = [''ip'', ''address'', action, address, ''dev'', dev]"

definition ip_route_add :: "string \<Rightarrow> string \<Rightarrow> string \<Rightarrow> string list" where
  "ip_route_add tgt gateway_ip dev =
     [''ip'', ''route'', ''add'', tgt, ''via'', gateway_ip, ''dev'', dev, ''proto'',
      ''kernel'', ''onlink'']"

record net_env =
  netns :: string
  device :: string
  env_ip :: string
  bridge1 :: string
  bridge2 :: string
  veth1 :: string
  veth2 :: string
  veth3 :: string
  veth4 :: string
  save_routes :: "route_message list"

subsection \<open>Packet redirection\<close>

definition set_iptables :: "net_env \<Rightarrow> string option \<Rightarrow> string \<Rightarrow> string \<Rightarrow> string list list" where
  "set_iptables net_env proxy_ports listen_port device_mac =
     (let cmdv = (case proxy_ports of
          Some proxy_ports \<Rightarrow> ip_netns (netns net_env)
            [''iptables'', ''-t'', ''mangle'', ''-A'', ''PREROUTING'', ''-p'', ''tcp'', ''-m'',
             ''multiport'', ''--dports'', proxy_ports, ''-j'', ''TPROXY'', ''--tproxy-mark'',
             ''0x1/0x1'', ''--on-port'', listen_port]
        | None \<Rightarrow> ip_netns (netns net_env)
            [''iptables'', ''-t'', ''mangle'', ''-A'', ''PREROUTING'', ''-p'', ''tcp'', ''-j'',
             ''TPROXY'', ''--tproxy-mark'', ''0x1/0x1'', ''--on-port'', listen_port])
      in [
        ip_netns (netns net_env) [''iptables'', ''-t'', ''mangle'', ''-N'', ''DIVERT''],
        ip_netns (netns net_env)
          [''iptables'', ''-t'', ''mangle'', ''-A'', ''PREROUTING'', ''-p'', ''tcp'', ''-m'',
           ''socket'', ''-j'', ''DIVERT''],
        ip_netns (netns net_env)
          [''iptables'', ''-t'', ''mangle'', ''-A'', ''DIVERT'', ''-j'', ''MARK'', ''--set-mark'',
           ''1''],
        ip_netns (netns net_env)
          [''iptables'', ''-t'', ''mangle'', ''-A'', ''DIVERT'', ''-j'', ''ACCEPT''],
        cmdv,
        ip_netns (netns net_env)
          [''ebtables-legacy'', ''-t'', ''broute'', ''-A'', ''BROUTING'', ''-p'', ''IPv4'',
           ''--ip-proto'', ''6'', ''--ip-dport'', ''!'', ''22'', ''--ip-sport'', ''!'', ''22'',
           ''-j'', ''redirect'', ''--redirect-target'', ''DROP''],
        [''ebtables'', ''-t'', ''nat'', ''-A'', ''PREROUTING'', ''-i'', device net_env, ''-j'',
         ''dnat'', ''--to-dst'', device_mac, ''--dnat-target'', ''ACCEPT'']])"

definition set_iptables_safe :: "net_env \<Rightarrow> string \<Rightarrow> string list list" where
  "set_iptables_safe net_env device_mac = [
     ip_netns (netns net_env)
       [''iptables'', ''-t'', ''mangle'', ''-I'', ''PREROUTING'', ''-p'', ''tcp'', ''--dport'',
        ''81:1025'', ''-s'', env_ip net_env, ''-j'', ''ACCEPT''],
     ip_netns (netns net_env)
       [''iptables'', ''-t'', ''mangle'', ''-I'', ''PREROUTING'', ''-p'', ''tcp'', ''--sport'',
        ''81:1025'', ''-d'', env_ip net_env, ''-j'', ''ACCEPT''],
     ip_netns (netns net_env)
       [''iptables'', ''-t'', ''mangle'', ''-I'', ''PREROUTING'', ''-p'', ''tcp'', ''--dport'',
        ''1:81'', ''-s'', env_ip net_env, ''-j'', ''ACCEPT''],
     ip_netns (netns net_env)
       [''iptables'', ''-t'', ''mangle'', ''-I'', ''PREROUTING'', ''-p'', ''tcp'', ''--sport'',
        ''1:81'', ''-d'', env_ip net_env, ''-j'', ''ACCEPT''],
     [''ebtables'', ''-t'', ''nat'', ''-A'', ''PREROUTING'', ''-i'', device net_env, ''-j'',
      ''dnat'', ''--to-dst'', device_mac, ''--dnat-target'', ''ACCEPT'']]"

definition clear_ebtables :: "string list" where
  "clear_ebtables = [''ebtables'', ''-t'', ''nat'', ''-F'']"

subsection \<open>The command runner is a runner\<close>

lemma execute_all_foldl: "execute_all S cmdvv = io_foldl (\<lambda>_. execute S) () cmdvv"
  by (induction cmdvv) simp_all

lemma execute_all_with_log_error_foldl:
  "execute_all_with_log_error S cmdvv =
     io_foldl (\<lambda>_ c. io_bind (io_try (execute S c)) (\<lambda>_. io_ok ())) () cmdvv"
proof (induction cmdvv)
  case (Cons c cmdvv)
  then show ?case
    by (auto simp: io_bind_def io_ok_def fun_eq_iff split: prod.splits sum.splits)
qed simp

definition exec_event :: "string list \<Rightarrow> cevent list" where
  "exec_event cmdv = (if cmdv = [] then [] else [Exec cmdv])"

lemma os_err_panic_free [panic_free_intros]: "panic_free (os_err S e)"
  by (auto simp: os_err_def intro: panic_free_intros)

lemma execute_run:
  "execute S cmdv h = (if cmdv = [] then (Inr (), h)
     else (case sys_output S h cmdv of Inl e \<Rightarrow> Inl (Error e) | Inr out \<Rightarrow> os_err S (out_stderr out),
           h @ [Exec cmdv]))"
  by (auto simp: execute_def io_bind_run split: list.splits sum.splits)

interpretation runner: command_runner "execute S" exec_event for S
proof unfold_locales
  fix c h
  show "snd (execute S c h) = h @ exec_event c" by (simp add: execute_run exec_event_def)
  show "fst (execute S c h) \<noteq> Inl Diverge"
    by (auto simp: execute_run os_err_def bail_def split: sum.splits)
  show "no_panic (execute S c)"
    unfolding execute_def by (cases c) (auto intro!: no_panic_intros panic_free_intros)
qed

lemma execute_all_logged:
  "execute_all_with_log_error S cmdvv h = (Inr (), h @ concat (map exec_event cmdvv))"
  by (simp add: execute_all_with_log_error_foldl runner.all_logged_runs_everything)

text \<open>A script of commands stops at its first failure, and a logged script never does. The
  strict runner executes the commands in order; it succeeds exactly when it has executed all of
  them, and otherwise the last one executed failed and its error is the result. The logging
  runner executes every command and always succeeds.\<close>

theorem execute_all_spec:
  "(\<exists>done_cmds. prefix done_cmds cmdvv \<and>
     snd (execute_all S cmdvv h) = h @ concat (map exec_event done_cmds) \<and>
     (case fst (execute_all S cmdvv h) of
        Inr _ \<Rightarrow> done_cmds = cmdvv
      | Inl e \<Rightarrow> \<exists>xs c. done_cmds = xs @ [c] \<and>
          fst (execute S c (h @ concat (map exec_event xs))) = Inl e)) \<and>
   execute_all_with_log_error S cmdvv h = (Inr (), h @ concat (map exec_event cmdvv))"
  using runner.all_stops_at_failure[where S = S and cs = cmdvv and h = h]
  by (simp add: execute_all_foldl execute_all_logged)

end
