(* ===== verification/Bridge.thy ===== *)
theory Bridge
  imports Net_Commands
begin

text \<open>
  The network environment of the controller: \<open>NetEnv\<close> of \<open>proxy/net/bridge.rs\<close> with its
  set-up and tear-down, the routes of \<open>proxy/net/routes.rs\<close>, and \<open>proxy/net/set_net.rs\<close>,
  \<open>arp.rs\<close> and \<open>ping.rs\<close>, which put the parts together.
\<close>

subsection \<open>Routes\<close>

definition get_routes_noblock :: "sys \<Rightarrow> (cevent, route_message list) io" where
  "get_routes_noblock S =
     io_bind (io_call GetRoutes (sys_get_routes S)) (\<lambda>routes.
       io_ok (filter (\<lambda>route. rm_table route \<noteq> 255) routes))"

text \<open>\<open>join_all\<close> runs every deletion, whatever the others return; the errors are collected.\<close>

fun del_each :: "sys \<Rightarrow> route_message list \<Rightarrow> (cevent, error list) io" where
  "del_each S [] = io_ok []"
| "del_each S (msg # msgs) =
     io_bind (io_try (io_call (DelRoute msg) (\<lambda>h. sys_del_route S h msg))) (\<lambda>r.
     io_bind (del_each S msgs) (\<lambda>errs.
       io_ok (case r of Inl e \<Rightarrow> e # errs | Inr _ \<Rightarrow> errs)))"

definition del_routes_noblock :: "sys \<Rightarrow> route_message list \<Rightarrow> (cevent, unit) io" where
  "del_routes_noblock S msgs =
     io_bind (del_each S msgs) (\<lambda>errs.
       case errs of
         [] \<Rightarrow> io_ok ()
       | e # es \<Rightarrow> io_lift (Inl (Error (foldl (\<lambda>accum item.
           Anyhow (error_text accum @ '' '' @ [CHR 0x0A] @ '' '' @ error_text item)) e es))))"

fun load_routes :: "sys \<Rightarrow> route_message list \<Rightarrow> (cevent, unit) io" where
  "load_routes S [] = io_ok ()"
| "load_routes S (route # msgs) =
     io_bind (io_try (io_call (AddRoute route) (\<lambda>h. sys_add_route S h route))) (\<lambda>_.
       load_routes S msgs)"

subsection \<open>The default gateway\<close>

fun gateway_tries :: "sys \<Rightarrow> nat \<Rightarrow> (cevent, gateway) io" where
  "gateway_tries S 0 = io_lift (bail ''tried 5 times but not get gateway'')"
| "gateway_tries S (Suc count) =
     io_bind (io_try (io_call QueryGateway (sys_gateway S))) (\<lambda>r.
       case r of Inr gw \<Rightarrow> io_ok gw | Inl _ \<Rightarrow> gateway_tries S count)"

definition try_get_default_gateway :: "sys \<Rightarrow> (cevent, gateway) io" where
  "try_get_default_gateway S = gateway_tries S 5"

subsection \<open>A fresh environment\<close>

definition list_interfaces :: "sys \<Rightarrow> (cevent, network_interface list) io" where
  "list_interfaces S = (\<lambda>h. (Inr (sys_interfaces S h), h @ [ListInterfaces]))"

text \<open>The loop draws keys until no interface name starts with one; a key is the first 13
  characters of a random UUID. \<open>None\<close> means it never ends.\<close>

partial_function (option) fresh_prefix ::
  "sys \<Rightarrow> network_interface list \<Rightarrow> cevent list \<Rightarrow> (string \<times> cevent list) option" where
  "fresh_prefix S interfaces h =
     (let key = take 13 (sys_uuid S h); h' = h @ [NewUuid] in
      if list_all (\<lambda>i. \<not> prefix key (if_name i)) interfaces then Some (key, h')
      else fresh_prefix S interfaces h')"

definition draw_prefix :: "sys \<Rightarrow> network_interface list \<Rightarrow> (cevent, string) io" where
  "draw_prefix S interfaces = (\<lambda>h. case fresh_prefix S interfaces h of
       None \<Rightarrow> (Inl Diverge, h) | Some (key, h') \<Rightarrow> (Inr key, h'))"

definition net_env_new :: "sys \<Rightarrow> (cevent, net_env) io" where
  "net_env_new S =
     io_bind (list_interfaces S) (\<lambda>interfaces.
     io_bind (draw_prefix S interfaces) (\<lambda>pre.
     io_bind (list_interfaces S) (\<lambda>interfaces'.
     io_bind (io_unwrap ''unwrap default interface'' (io_lift (get_default_interface interfaces')))
       (\<lambda>dev.
     io_bind (io_lift (case get_ipv4 dev of None \<Rightarrow> panic ''unwrap ipv4'' | Some a \<Rightarrow> Inr a)) (\<lambda>addr.
     io_bind (io_unwrap ''unwrap routes'' (get_routes_noblock S)) (\<lambda>routes.
       io_ok \<lparr>netns = pre @ ''ns'', device = if_name dev, env_ip = addr,
         bridge1 = pre @ ''b1'', bridge2 = pre @ ''b2'', veth1 = pre @ ''v1'', veth2 = ''veth0'',
         veth3 = ''veth1'', veth4 = pre @ ''v4'', save_routes = rev routes\<rparr>))))))"

subsection \<open>Set-up\<close>

definition link_script :: "net_env \<Rightarrow> string list list" where
  "link_script env = [
     bash_c ''cp /etc/resolv.conf /etc/resolv.conf.bak'',
     ip_netns_add (netns env),
     ip_link_add_bridge (bridge1 env),
     ip_link_add_veth_peer (veth1 env) None (veth2 env) (Some (netns env)),
     ip_netns (netns env) (ip_link_add_bridge (bridge2 env)),
     ip_link_add_veth_peer (veth4 env) None (veth3 env) (Some (netns env)),
     ip_link_set_up (bridge1 env),
     [''sysctl'', ''-w'', ''net.ipv4.conf.'' @ bridge1 env @ ''.arp_filter=1''],
     [''sysctl'', ''-w'', ''net.ipv4.conf.'' @ veth1 env @ ''.arp_filter=1''],
     [''sysctl'', ''-w'', ''net.ipv4.conf.'' @ device env @ ''.arp_filter=1''],
     ip_link_set_up (veth1 env),
     ip_netns (netns env) (ip_link_set_up (veth2 env)),
     ip_netns (netns env) (ip_link_set_up (bridge2 env)),
     ip_netns (netns env) (ip_link_set_up (veth3 env)),
     ip_link_set_up (veth4 env),
     ip_link_set_master (device env) (bridge1 env),
     ip_link_set_master (veth1 env) (bridge1 env),
     ip_netns (netns env) (ip_link_set_master (veth2 env) (bridge2 env)),
     ip_netns (netns env) (ip_link_set_master (veth3 env) (bridge2 env)),
     ip_netns (netns env) (ip_link_set_up ''lo'')]"

definition route_script :: "net_env \<Rightarrow> gateway \<Rightarrow> string \<Rightarrow> string list list" where
  "route_script env gw net_ip32 = (let gateway_ip_s = ip_to_string (gw_ip gw); gateway_mac_s = gw_mac gw in [
     ip_address ''add'' (env_ip env) (veth4 env),
     arp_set gateway_ip_s gateway_mac_s (veth1 env),
     arp_set gateway_ip_s gateway_mac_s (veth4 env),
     ip_netns (netns env) (arp_set gateway_ip_s gateway_mac_s (veth2 env)),
     ip_netns (netns env) (arp_set gateway_ip_s gateway_mac_s (bridge2 env)),
     ip_route_add ''default'' gateway_ip_s (veth4 env),
     ip_netns (netns env) (ip_route_add ''default'' gateway_ip_s (bridge2 env)),
     ip_netns (netns env) [''ip'', ''route'', ''add'', net_ip32, ''dev'', bridge2 env, ''proto'', ''kernel''],
     ip_netns (netns env) [''sysctl'', ''-w'', ''net.ipv4.ip_forward=1''],
     ip_netns (netns env) [''sysctl'', ''-w'', ''net.ipv4.ip_nonlocal_bind=1''],
     ip_netns (netns env) [''sysctl'', ''-w'', ''net.ipv4.conf.'' @ bridge2 env @ ''.rp_filter=0''],
     ip_netns (netns env) [''sysctl'', ''-w'', ''net.ipv4.conf.'' @ veth2 env @ ''.rp_filter=0''],
     ip_netns (netns env) [''sysctl'', ''-w'', ''net.ipv4.conf.'' @ veth3 env @ ''.rp_filter=0''],
     ip_netns (netns env) [''sysctl'', ''-w'', ''net.ipv4.conf.lo.rp_filter=0''],
     ip_netns (netns env) [''sysctl'', ''-w'', ''net.ipv4.conf.all.rp_filter=0''],
     ip_netns (netns env) [''ip'', ''rule'', ''add'', ''fwmark'', ''1'', ''lookup'', ''100''],
     ip_netns (netns env)
       [''ip'', ''route'', ''add'', ''local'', ''0.0.0.0/0'', ''dev'', ''lo'', ''table'', ''100'']])"

text \<open>The routes the set-up removes: outside the local table, with a preferred source whose
  dotted text occurs in the environment's address text, and without a gateway.\<close>

definition octets_text :: "bytes \<Rightarrow> string" where
  "octets_text addr = join (CHR ''.'') (map (\<lambda>d. dec (unat d)) addr)"

definition kernel_route :: "net_env \<Rightarrow> route_message \<Rightarrow> bool" where
  "kernel_route env msg \<longleftrightarrow>
     rm_table msg \<noteq> 255 \<and>
     list_ex (\<lambda>n. case n of PrefSource addr \<Rightarrow> sublist (octets_text addr) (env_ip env) | _ \<Rightarrow> False)
       (rm_nlas msg) \<and>
     list_all (\<lambda>n. case n of Gateway _ \<Rightarrow> False | _ \<Rightarrow> True) (rm_nlas msg)"

definition setenv_bridge :: "sys \<Rightarrow> net_env \<Rightarrow> (cevent, unit) io" where
  "setenv_bridge S env =
     io_bind (try_get_default_gateway S) (\<lambda>gw.
     io_bind (io_lift (case sys_parse_ipv4_network S (env_ip env) of
         Inl _ \<Rightarrow> bail (''ip '' @ env_ip env @ '' parsed error'') | Inr a \<Rightarrow> Inr a)) (\<lambda>net_ip.
     io_bind (execute_all S (link_script env)) (\<lambda>_.
     io_bind (execute_all_with_log_error S [ip_address ''del'' (env_ip env) (device env)]) (\<lambda>_.
     io_bind (execute_all S (route_script env gw (ipv4_to_string net_ip @ ''/32''))) (\<lambda>_.
     io_bind (list_interfaces S) (\<lambda>interfaces.
     io_bind (io_lift (case find (\<lambda>p. if_name p = veth4 env) interfaces of
         None \<Rightarrow> bail (''interface '' @ veth4 env @ '' not found'')
       | Some i \<Rightarrow> (case if_mac i of None \<Rightarrow> bail (''mac '' @ veth4 env @ '' not found'')
                   | Some mac \<Rightarrow> Inr mac))) (\<lambda>veth4_mac.
     io_bind (execute_all S [ip_netns (netns env)
         (arp_set (ipv4_to_string net_ip) veth4_mac (bridge2 env))]) (\<lambda>_.
     io_bind (get_routes_noblock S) (\<lambda>all_routes.
       del_routes_noblock S (filter (kernel_route env) all_routes))))))))))"

subsection \<open>Tear-down\<close>

definition clear_script :: "net_env \<Rightarrow> string list list" where
  "clear_script env = [
     ip_netns_del (netns env),
     ip_link_del_bridge (bridge1 env),
     ip_address ''add'' (env_ip env) (device env),
     bash_c ''cp /etc/resolv.conf.bak /etc/resolv.conf'',
     clear_ebtables]"

definition clear_bridge :: "sys \<Rightarrow> net_env \<Rightarrow> (cevent, unit) io" where
  "clear_bridge S env =
     io_bind (execute_all_with_log_error S (clear_script env)) (\<lambda>_.
     io_bind (io_try (get_routes_noblock S)) (\<lambda>r.
     let routes = (case r of Inr rs \<Rightarrow> rs | Inl e \<Rightarrow> []) in
     io_bind (io_try (del_routes_noblock S routes)) (\<lambda>_.
     io_bind (io_try (load_routes S (save_routes env))) (\<lambda>_.
     io_bind (try_get_default_gateway S) (\<lambda>gw.
       if list_all (\<lambda>i. i = 0) (gw_mac_octets gw) then io_ok ()
       else execute_all_with_log_error S
         [arp_set (ip_to_string (gw_ip gw)) (gw_mac gw) (device env)])))))"

subsection \<open>The whole environment\<close>

definition gratuitous_arp :: "sys \<Rightarrow> string \<Rightarrow> ipv4_addr \<Rightarrow> string \<Rightarrow> (cevent, unit) io" where
  "gratuitous_arp S iface ip_addr mac_addr =
     (let arp_request = \<lparr>am_source_mac = mac_addr, am_source_ip = ip_addr,
            am_target_mac = ''ff:ff:ff:ff:ff:ff'', am_target_ip = ip_addr, am_is_request = True\<rparr>
      in io_bind (io_try (io_call (SendArp iface arp_request) (\<lambda>h. sys_send_arp S h iface arp_request)))
           (\<lambda>_. io_ok ()))"

text \<open>The pinging task itself runs beside the program (\<open>Gateway_Ping\<close>).\<close>

definition try_ping :: "sys \<Rightarrow> ip_addr \<Rightarrow> (cevent, unit) io" where
  "try_ping S addr = io_unwrap ''unwrap ping client'' (io_call (StartPing addr) (sys_ping_client S))"

definition set_net ::
  "sys \<Rightarrow> net_env \<Rightarrow> string option \<Rightarrow> u16 \<Rightarrow> bool \<Rightarrow> (cevent, unit) io" where
  "set_net S env proxy_ports listen_port safe =
     io_bind (setenv_bridge S env) (\<lambda>_.
     let prt = dec (unat listen_port) in
     io_bind (list_interfaces S) (\<lambda>interfaces.
     io_bind (io_unwrap ''unwrap interface'' (io_lift (get_interface interfaces (veth4 env)))) (\<lambda>i.
     io_bind (io_lift (case if_mac i of None \<Rightarrow> panic ''unwrap mac'' | Some m \<Rightarrow> Inr m)) (\<lambda>device_mac.
     io_bind (io_unwrap ''unwrap arp interface''
         (io_call (FindArpInterface (veth4 env)) (\<lambda>h. sys_arp_interface S h (veth4 env)))) (\<lambda>arp.
     io_bind (io_lift (case arp_ip arp of None \<Rightarrow> panic ''unwrap arp ip'' | Some a \<Rightarrow> Inr a)) (\<lambda>a.
     io_bind (gratuitous_arp S (veth4 env) a (arp_mac arp)) (\<lambda>_.
     io_bind (execute_all S (set_iptables env proxy_ports prt device_mac)) (\<lambda>_.
     io_bind (if safe then execute_all S (set_iptables_safe env device_mac) else io_ok ()) (\<lambda>_.
     io_bind (io_try (execute S (bash_c ''cp /etc/resolv.conf.bak /etc/resolv.conf''))) (\<lambda>_.
     io_bind (io_call QueryGateway (sys_gateway S)) (\<lambda>gw.
       try_ping S (gw_ip gw))))))))))))"

subsection \<open>The gateway\<close>

lemma gateway_tries_run:
  "\<exists>n \<le> k. snd (gateway_tries S k h) = h @ replicate n QueryGateway \<and>
     (\<forall>j. Suc j < n \<longrightarrow> (\<exists>e. sys_gateway S (h @ replicate j QueryGateway) = Inl e)) \<and>
     (case fst (gateway_tries S k h) of
        Inr gw \<Rightarrow> 0 < n \<and> sys_gateway S (h @ replicate (n - 1) QueryGateway) = Inr gw
      | Inl e \<Rightarrow> n = k \<and> e = Error (Anyhow ''tried 5 times but not get gateway'') \<and>
          (\<forall>j < k. \<exists>e'. sys_gateway S (h @ replicate j QueryGateway) = Inl e'))"
proof (induction k arbitrary: h)
  case 0
  then show ?case by (simp add: bail_def)
next
  case (Suc k)
  show ?case
  proof (cases "sys_gateway S h")
    case (Inr gw)
    then show ?thesis
      by (intro exI[of _ 1]) (simp add: io_bind_run io_try_run)
  next
    case (Inl e)
    let ?h = "h @ [QueryGateway]"
    have run: "gateway_tries S (Suc k) h = gateway_tries S k ?h"
      using Inl by (simp add: io_bind_run io_try_run)
    have shift: "sys_gateway S (?h @ replicate j QueryGateway)
        = sys_gateway S (h @ replicate (Suc j) QueryGateway)" for j by simp
    from Suc[of ?h] obtain n where n: "n \<le> k"
      "snd (gateway_tries S k ?h) = ?h @ replicate n QueryGateway"
      "\<forall>j. Suc j < n \<longrightarrow> (\<exists>e. sys_gateway S (h @ replicate (Suc j) QueryGateway) = Inl e)"
      "case fst (gateway_tries S k ?h) of
        Inr gw \<Rightarrow> 0 < n \<and> sys_gateway S (h @ replicate (Suc (n - 1)) QueryGateway) = Inr gw
      | Inl e \<Rightarrow> n = k \<and> e = Error (Anyhow ''tried 5 times but not get gateway'') \<and>
          (\<forall>j < k. \<exists>e'. sys_gateway S (h @ replicate (Suc j) QueryGateway) = Inl e')"
      unfolding shift by blast
    have first: "\<exists>e. sys_gateway S (h @ replicate 0 QueryGateway) = Inl e" using Inl by simp
    show ?thesis
      unfolding run
    proof (intro exI[of _ "Suc n"] conjI)
      show "\<forall>j. Suc j < Suc n \<longrightarrow> (\<exists>e. sys_gateway S (h @ replicate j QueryGateway) = Inl e)"
      proof (intro allI impI)
        fix j assume "Suc j < Suc n"
        then show "\<exists>e. sys_gateway S (h @ replicate j QueryGateway) = Inl e"
          using n(3) first by (cases j) auto
      qed
      show "case fst (gateway_tries S k ?h) of
          Inr gw \<Rightarrow> 0 < Suc n \<and> sys_gateway S (h @ replicate (Suc n - 1) QueryGateway) = Inr gw
        | Inl e \<Rightarrow> Suc n = Suc k \<and> e = Error (Anyhow ''tried 5 times but not get gateway'') \<and>
          (\<forall>j < Suc k. \<exists>e'. sys_gateway S (h @ replicate j QueryGateway) = Inl e')"
      proof (cases "fst (gateway_tries S k ?h)")
        case (Inl e)
        with n(4) have all: "\<forall>j < k. \<exists>e'. sys_gateway S (h @ replicate (Suc j) QueryGateway) = Inl e'"
          and e: "n = k" "e = Error (Anyhow ''tried 5 times but not get gateway'')" by auto
        have "\<exists>e'. sys_gateway S (h @ replicate j QueryGateway) = Inl e'" if "j < Suc k" for j
          using that all first by (cases j) auto
        with e Inl show ?thesis by simp
      next
        case (Inr gw)
        from n(4) have both: "0 < n \<and> sys_gateway S (h @ replicate (Suc (n - 1)) QueryGateway) = Inr gw"
          unfolding Inr by (simp only: sum.case)
        then have "0 < n" and gw: "sys_gateway S (h @ replicate (Suc (n - 1)) QueryGateway) = Inr gw"
          by blast+
        from \<open>0 < n\<close> have "Suc (n - 1) = n" by simp
        with gw have "sys_gateway S (h @ replicate n QueryGateway) = Inr gw" by (simp only:)
        with Inr show ?thesis by simp
      qed
    qed (use n in simp_all)
  qed
qed



subsection \<open>The fresh prefix\<close>

definition key_at :: "sys \<Rightarrow> cevent list \<Rightarrow> nat \<Rightarrow> string" where
  "key_at S h k = take 13 (sys_uuid S (h @ replicate k NewUuid))"

definition key_clashes :: "network_interface list \<Rightarrow> string \<Rightarrow> bool" where
  "key_clashes interfaces key \<longleftrightarrow> list_ex (\<lambda>i. prefix key (if_name i)) interfaces"

lemma fresh_prefix_step:
  "fresh_prefix S ifs h = (if key_clashes ifs (key_at S h 0) then fresh_prefix S ifs (h @ [NewUuid])
     else Some (key_at S h 0, h @ [NewUuid]))"
  by (subst fresh_prefix.simps)
    (auto simp: Let_def key_at_def key_clashes_def list_all_iff list_ex_iff)

lemma key_at_Suc: "key_at S (h @ [NewUuid]) k = key_at S h (Suc k)"
  by (simp add: key_at_def)

lemma key_at_shift: "key_at S (h @ replicate k NewUuid) 0 = key_at S h k"
  by (simp add: key_at_def)

lemma fresh_prefix_ends:
  assumes "fresh_prefix S ifs h = Some r"
  shows "\<exists>k. \<not> key_clashes ifs (key_at S h k)"
proof (rule fresh_prefix.raw_induct [where P = "\<lambda>S ifs h r. \<exists>k. \<not> key_clashes ifs (key_at S h k)",
      OF _ assms])
  fix f S ifs h r
  assume IH: "\<And>S ifs h r. f S ifs h = Some r \<Longrightarrow> \<exists>k. \<not> key_clashes ifs (key_at S h k)"
    and eq: "(let key = take 13 (sys_uuid S h); h' = h @ [NewUuid] in
      if list_all (\<lambda>i. \<not> prefix key (if_name i)) ifs then Some (key, h')
      else f S ifs h') = Some r"
  show "\<exists>k. \<not> key_clashes ifs (key_at S h k)"
  proof (cases "key_clashes ifs (key_at S h 0)")
    case True
    with eq have "f S ifs (h @ [NewUuid]) = Some r"
      by (auto simp: Let_def key_at_def key_clashes_def list_all_iff list_ex_iff split: if_splits)
    from IH[OF this] show ?thesis by (auto simp: key_at_Suc)
  qed blast
qed

interpretation draw: retry_loop "fresh_prefix S ifs" "\<lambda>h. key_clashes ifs (key_at S h 0)" NewUuid
    "\<lambda>h. (key_at S h 0, h @ [NewUuid])" for S ifs
  by unfold_locales (rule fresh_prefix_step, drule fresh_prefix_ends, simp add: key_at_shift)

lemma draw_prefix_cases:
  "(\<exists>k. (\<forall>j < k. key_clashes ifs (key_at S h j)) \<and> \<not> key_clashes ifs (key_at S h k) \<and>
      draw_prefix S ifs h = (Inr (key_at S h k), h @ replicate (Suc k) NewUuid)) \<or>
   ((\<forall>k. key_clashes ifs (key_at S h k)) \<and> draw_prefix S ifs h = (Inl Diverge, h))"
  using draw.loop_cases[of ifs S h]
  by (auto simp: draw_prefix_def key_at_shift replicate_append_same[symmetric])

subsection \<open>The names of an environment\<close>

lemma list_interfaces_run: "list_interfaces S h = (Inr (sys_interfaces S h), h @ [ListInterfaces])"
  by (simp add: list_interfaces_def)

lemma net_env_new_Inr:
  assumes "net_env_new S h = (Inr env, h')"
  obtains k dev addr routes where
    "\<not> key_clashes (sys_interfaces S h) (key_at S (h @ [ListInterfaces]) k)"
    "\<forall>j < k. key_clashes (sys_interfaces S h) (key_at S (h @ [ListInterfaces]) j)"
    "h' = h @ [ListInterfaces] @ replicate (Suc k) NewUuid @ [ListInterfaces, GetRoutes]"
    "get_default_interface (sys_interfaces S (h @ [ListInterfaces] @ replicate (Suc k) NewUuid)) = Inr dev"
    "get_ipv4 dev = Some addr"
    "sys_get_routes S (h @ [ListInterfaces] @ replicate (Suc k) NewUuid @ [ListInterfaces]) = Inr routes"
    "env = (let pre = key_at S (h @ [ListInterfaces]) k in
       \<lparr>netns = pre @ ''ns'', device = if_name dev, env_ip = addr,
         bridge1 = pre @ ''b1'', bridge2 = pre @ ''b2'', veth1 = pre @ ''v1'', veth2 = ''veth0'',
         veth3 = ''veth1'', veth4 = pre @ ''v4'',
         save_routes = rev (filter (\<lambda>route. rm_table route \<noteq> 255) routes)\<rparr>)"
proof -
  let ?ifs = "sys_interfaces S h" and ?h = "h @ [ListInterfaces]"
  from draw_prefix_cases[of ?ifs S ?h] show thesis
  proof
    assume "\<exists>k. (\<forall>j < k. key_clashes ?ifs (key_at S ?h j)) \<and> \<not> key_clashes ?ifs (key_at S ?h k) \<and>
      draw_prefix S ?ifs ?h = (Inr (key_at S ?h k), ?h @ replicate (Suc k) NewUuid)"
    then obtain k where k: "\<forall>j < k. key_clashes ?ifs (key_at S ?h j)"
      "\<not> key_clashes ?ifs (key_at S ?h k)"
      "draw_prefix S ?ifs ?h = (Inr (key_at S ?h k), ?h @ replicate (Suc k) NewUuid)" by blast
    show thesis
      using assms k(3) that[OF k(2,1)]
      by (simp add: net_env_new_def list_interfaces_run get_routes_noblock_def io_simps panic_def
            Let_def split: sum.splits option.splits failure.splits prod.splits del: replicate_Suc)
  next
    assume "(\<forall>k. key_clashes ?ifs (key_at S ?h k)) \<and> draw_prefix S ?ifs ?h = (Inl Diverge, ?h)"
    with assms show thesis by (simp add: net_env_new_def list_interfaces_run io_bind_run)
  qed
qed

definition host_links :: "net_env \<Rightarrow> string list" where
  "host_links env = [bridge1 env, bridge2 env, veth1 env, veth4 env]"

lemma key_length: "length (key_at S h k) \<le> 13"
  by (simp add: key_at_def)

lemma net_env_names:
  assumes "net_env_new S h = (Inr env, h')"
  shows "(\<exists>pre. length pre \<le> 13 \<and> \<not> key_clashes (sys_interfaces S h) pre \<and>
     netns env = pre @ ''ns'' \<and> bridge1 env = pre @ ''b1'' \<and> bridge2 env = pre @ ''b2'' \<and>
     veth1 env = pre @ ''v1'' \<and> veth4 env = pre @ ''v4'' \<and> veth2 env = ''veth0'' \<and>
     veth3 env = ''veth1'')"
  using assms
proof (rule net_env_new_Inr)
  fix k dev addr routes
  assume "\<not> key_clashes (sys_interfaces S h) (key_at S (h @ [ListInterfaces]) k)"
   "env = (let pre = key_at S (h @ [ListInterfaces]) k in
       \<lparr>netns = pre @ ''ns'', device = if_name dev, env_ip = addr,
         bridge1 = pre @ ''b1'', bridge2 = pre @ ''b2'', veth1 = pre @ ''v1'', veth2 = ''veth0'',
         veth3 = ''veth1'', veth4 = pre @ ''v4'',
         save_routes = rev (filter (\<lambda>route. rm_table route \<noteq> 255) routes)\<rparr>)"
  then show ?thesis
    by (intro exI[of _ "key_at S (h @ [ListInterfaces]) k"]) (simp add: Let_def key_length)
qed

text \<open>C37: the names of a fresh environment. The namespace, the bridges and the virtual devices of a
  new \<open>NetEnv\<close> have pairwise different names of at most 15 bytes, what Linux allows for an
  interface. The only ones an interface listed before can have are \<open>veth0\<close> and \<open>veth1\<close>: those are
  fixed, the names every environment gives to the ends of its virtual devices that the link script
  makes inside the new namespace.\<close>

theorem net_env_new_fresh:
  assumes "net_env_new S h = (Inr env, h')"
  shows "distinct (netns env # host_links env @ [veth2 env, veth3 env]) \<and>
     (\<forall>n \<in> set (netns env # host_links env @ [veth2 env, veth3 env]). length n \<le> 15) \<and>
     {n \<in> set (netns env # host_links env @ [veth2 env, veth3 env]). n \<in> if_name ` set (sys_interfaces S h)}
       = {''veth0'', ''veth1''} \<inter> if_name ` set (sys_interfaces S h) \<and>
     veth2 env = ''veth0'' \<and> veth3 env = ''veth1''"
proof -
  from net_env_names[OF assms] obtain pre where pre: "length pre \<le> 13"
    "\<not> key_clashes (sys_interfaces S h) pre" and names:
    "netns env = pre @ ''ns''" "bridge1 env = pre @ ''b1''" "bridge2 env = pre @ ''b2''"
    "veth1 env = pre @ ''v1''" "veth4 env = pre @ ''v4''" "veth2 env = ''veth0''"
    "veth3 env = ''veth1''" by blast
  have ends: "last (butlast (pre @ [a, b])) = a" "last (pre @ [a, b]) = b" for a b
    by (simp_all add: butlast_append)
  have "distinct (netns env # host_links env @ [veth2 env, veth3 env])"
    using ends(1)[of "CHR ''b''" "CHR ''1''"] ends(1)[of "CHR ''b''" "CHR ''2''"]
      ends(1)[of "CHR ''v''" "CHR ''1''"] ends(1)[of "CHR ''v''" "CHR ''4''"] ends(2)[of "CHR ''n''" "CHR ''s''"]
    by (auto simp: host_links_def names)
  moreover have "if_name i \<noteq> pre @ s" if "i \<in> set (sys_interfaces S h)" for s i
    using pre(2) that by (metis key_clashes_def list_ex_iff prefixI)
  then have "{n \<in> set (netns env # host_links env @ [veth2 env, veth3 env]). n \<in> if_name ` set (sys_interfaces S h)}
       = {''veth0'', ''veth1''} \<inter> if_name ` set (sys_interfaces S h)"
    by (auto simp: host_links_def names)
  ultimately show ?thesis using pre(1) by (auto simp: host_links_def names)
qed

text \<open>C38: the loop that draws the name prefix ends exactly when some drawn key is the start of no
  interface name; it never panics.\<close>

theorem draw_prefix_terminates:
  "(fst (draw_prefix S ifs h) = Inl Diverge \<longleftrightarrow> (\<forall>k. key_clashes ifs (key_at S h k))) \<and>
   no_panic (draw_prefix S ifs) \<and>
   ((\<exists>key. fst (draw_prefix S ifs h) = Inr key) \<longleftrightarrow> (\<exists>k. \<not> key_clashes ifs (key_at S h k)))"
proof (intro conjI)
  show "no_panic (draw_prefix S ifs)"
  proof (rule no_panicI)
    fix h show "panic_free (fst (draw_prefix S ifs h))"
      using draw_prefix_cases[of ifs S h] by (auto simp: panic_free_def)
  qed
qed (use draw_prefix_cases[of ifs S h] in auto)

subsection \<open>Scripts and routes\<close>

lemma exec_events: "[] \<notin> set cs \<Longrightarrow> concat (map exec_event cs) = map Exec cs"
  by (induction cs) (auto simp: exec_event_def)

lemma scripts_nonempty:
  "[] \<notin> set (link_script env)" "[] \<notin> set (route_script env gw n)" "[] \<notin> set (clear_script env)"
  "[] \<notin> set (set_iptables env ports prt mac)" "[] \<notin> set (set_iptables_safe env mac)"
  by (simp_all add: link_script_def route_script_def clear_script_def set_iptables_def
      set_iptables_safe_def bash_c_def ip_netns_add_def ip_link_add_bridge_def ip_link_add_veth_peer_def
      ip_netns_def ip_link_set_up_def ip_link_set_master_def ip_address_def arp_set_def ip_route_add_def
      ip_netns_del_def ip_link_del_bridge_def clear_ebtables_def Let_def split: option.splits)

lemma execute_all_Inr:
  assumes "execute_all S cs h = (Inr u, h')" and "[] \<notin> set cs"
  shows "h' = h @ map Exec cs"
  using runner.all_stops_at_failure[where S = S and cs = cs and h = h] assms
  by (auto simp: execute_all_foldl[symmetric] exec_events)

lemma del_each_run: "\<exists>errs. del_each S msgs h = (Inr errs, h @ map DelRoute msgs)"
proof (induction msgs arbitrary: h)
  case (Cons msg msgs)
  obtain errs where "del_each S msgs (h @ [DelRoute msg])
      = (Inr errs, (h @ [DelRoute msg]) @ map DelRoute msgs)" using Cons by blast
  then show ?case by (cases "sys_del_route S h msg") (simp_all add: io_bind_run io_try_run)
qed simp

lemma load_routes_run: "load_routes S msgs h = (Inr (), h @ map AddRoute msgs)"
  by (induction msgs arbitrary: h) (auto simp: io_simps ext_def split: sum.splits)

lemma del_routes_run:
  "\<exists>r. del_routes_noblock S msgs h = (r, h @ map DelRoute msgs) \<and>
     (r = Inr () \<or> (\<exists>e. r = Inl (Error e)))"
  using del_each_run[of S msgs h]
  by (auto simp: del_routes_noblock_def io_simps split: list.splits)

lemma get_routes_run:
  "get_routes_noblock S h = (case sys_get_routes S h of Inl e \<Rightarrow> Inl (Error e)
     | Inr rs \<Rightarrow> Inr (filter (\<lambda>route. rm_table route \<noteq> 255) rs), h @ [GetRoutes])"
  by (auto simp: get_routes_noblock_def io_simps ext_def split: sum.splits)


text \<open>The effects of a set-up, for the gateway, address, MAC address and routes it found: the links
  and routes, the ARP entry of the namespace, and the routes that are removed.\<close>

definition set_up_links :: "net_env \<Rightarrow> gateway \<Rightarrow> ipv4_addr \<Rightarrow> cevent list" where
  "set_up_links env gw net_ip =
     map Exec (link_script env) @ [Exec (ip_address ''del'' (env_ip env) (device env))] @
     map Exec (route_script env gw (ipv4_to_string net_ip @ ''/32''))"

definition set_up_arp :: "net_env \<Rightarrow> ipv4_addr \<Rightarrow> string \<Rightarrow> cevent list" where
  "set_up_arp env net_ip mac =
     [ListInterfaces, Exec (ip_netns (netns env) (arp_set (ipv4_to_string net_ip) mac (bridge2 env)))]"

definition set_up_events ::
  "net_env \<Rightarrow> gateway \<Rightarrow> ipv4_addr \<Rightarrow> string \<Rightarrow> route_message list \<Rightarrow> cevent list" where
  "set_up_events env gw net_ip mac routes =
     set_up_links env gw net_ip @ set_up_arp env net_ip mac @ [GetRoutes] @
     map DelRoute (filter (kernel_route env) routes)"

lemmas set_up_defs = set_up_events_def set_up_links_def set_up_arp_def

lemma gateway_Inr:
  assumes "try_get_default_gateway S h = (Inr gw, h')"
  obtains n where "n < 5" "h' = h @ replicate (Suc n) QueryGateway"
    "sys_gateway S (h @ replicate n QueryGateway) = Inr gw"
    "\<And>j. j < n \<Longrightarrow> \<exists>e. sys_gateway S (h @ replicate j QueryGateway) = Inl e"
proof -
  from gateway_tries_run[where S = S and k = 5 and h = h] assms obtain n where n: "n \<le> 5"
    "h' = h @ replicate n QueryGateway" "0 < n"
    "sys_gateway S (h @ replicate (n - 1) QueryGateway) = Inr gw"
    "\<forall>j. Suc j < n \<longrightarrow> (\<exists>e. sys_gateway S (h @ replicate j QueryGateway) = Inl e)"
    by (auto simp: try_get_default_gateway_def)
  show thesis
  proof (rule that[of "n - 1"])
    show "h' = h @ replicate (Suc (n - 1)) QueryGateway" using n(2,3) by (simp del: replicate_Suc)
  qed (use n in auto)
qed

lemma del_routes_Inr:
  "del_routes_noblock S msgs h = (Inr u, h') \<Longrightarrow> h' = h @ map DelRoute msgs"
  using del_routes_run[of S msgs h] by auto

lemma get_routes_Inr:
  assumes "get_routes_noblock S h = (Inr rs, h')"
  shows "h' = h @ [GetRoutes] \<and> (\<exists>all. rs = filter (\<lambda>route. rm_table route \<noteq> 255) all \<and> sys_get_routes S h = Inr all)"
  using assms by (auto simp: get_routes_run split: sum.splits)

lemma ip_netns_nonempty: "ip_netns n c \<noteq> []" "[] \<noteq> ip_netns n c"
  by (simp_all add: ip_netns_def)

lemma arp_in_netns_nonempty: "[] \<notin> set [ip_netns n c]"
  by (simp add: ip_netns_def)

lemma find_mac:
  assumes "(case find (\<lambda>p. if_name p = name) ifs of
         None \<Rightarrow> bail m1
       | Some i \<Rightarrow> (case if_mac i of None \<Rightarrow> bail m2
                   | Some mac \<Rightarrow> Inr mac)) = Inr mac"
  shows "\<exists>i \<in> set ifs. if_name i = name \<and> if_mac i = Some mac"
proof (cases "find (\<lambda>p. if_name p = name) ifs")
  case (Some i)
  then have "i \<in> set ifs \<and> if_name i = name" by (auto simp: find_Some_iff)
  with Some assms show ?thesis by (auto split: option.splits)
qed (use assms in simp)

lemma local_routes_kept:
  "filter (kernel_route env) (filter (\<lambda>route. rm_table route \<noteq> 255) routes)
     = filter (kernel_route env) routes"
  by (induction routes) (auto simp: kernel_route_def)

lemma setenv_bridge_Inr:
  assumes "setenv_bridge S env h = (Inr (), h')"
  shows "\<exists>n gw net_ip i mac routes. n \<le> 4 \<and>
     (\<forall>j < n. \<exists>e. sys_gateway S (h @ replicate j QueryGateway) = Inl e) \<and>
     sys_gateway S (h @ replicate n QueryGateway) = Inr gw \<and>
     sys_parse_ipv4_network S (env_ip env) = Inr net_ip \<and>
     find (\<lambda>i. if_name i = veth4 env)
       (sys_interfaces S (h @ replicate (Suc n) QueryGateway @ set_up_links env gw net_ip)) = Some i \<and>
     if_mac i = Some mac \<and>
     sys_get_routes S (h @ replicate (Suc n) QueryGateway @ set_up_links env gw net_ip @
       set_up_arp env net_ip mac) = Inr routes \<and>
     h' = h @ replicate (Suc n) QueryGateway @ set_up_events env gw net_ip mac routes"
proof -
  from assms obtain gw h1 net_ip h2 h3 h4 h5 u3 u4 u5 ifs h6 mac h7 u8 h8 rs h9 where
    gw: "try_get_default_gateway S h = (Inr gw, h1)" and
    net: "io_lift (case sys_parse_ipv4_network S (env_ip env) of
         Inl _ \<Rightarrow> bail (''ip '' @ env_ip env @ '' parsed error'') | Inr a \<Rightarrow> Inr a) h1 = (Inr net_ip, h2)" and
    links: "execute_all S (link_script env) h2 = (Inr u3, h3)" and
    del: "execute_all_with_log_error S [ip_address ''del'' (env_ip env) (device env)] h3 = (Inr u4, h4)" and
    rts: "execute_all S (route_script env gw (ipv4_to_string net_ip @ ''/32'')) h4 = (Inr u5, h5)" and
    ifs: "list_interfaces S h5 = (Inr ifs, h6)" and
    mac: "io_lift (case find (\<lambda>p. if_name p = veth4 env) ifs of
         None \<Rightarrow> bail (''interface '' @ veth4 env @ '' not found'')
       | Some i \<Rightarrow> (case if_mac i of None \<Rightarrow> bail (''mac '' @ veth4 env @ '' not found'')
                   | Some mac \<Rightarrow> Inr mac)) h6 = (Inr mac, h7)" and
    arp: "execute_all S [ip_netns (netns env)
         (arp_set (ipv4_to_string net_ip) mac (bridge2 env))] h7 = (Inr u8, h8)" and
    get: "get_routes_noblock S h8 = (Inr rs, h9)" and
    dels: "del_routes_noblock S (filter (kernel_route env) rs) h9 = (Inr (), h')"
    unfolding setenv_bridge_def by (elim io_bind_Inr)
  from gw obtain n where n: "n < 5" "h1 = h @ replicate (Suc n) QueryGateway"
    "sys_gateway S (h @ replicate n QueryGateway) = Inr gw"
    "\<And>j. j < n \<Longrightarrow> \<exists>e. sys_gateway S (h @ replicate j QueryGateway) = Inl e" by (rule gateway_Inr) blast
  from net have net': "sys_parse_ipv4_network S (env_ip env) = Inr net_ip" "h2 = h1"
    by (auto split: sum.splits)
  from get_routes_Inr[OF get] obtain all where
    rs: "h9 = h8 @ [GetRoutes]" "rs = filter (\<lambda>route. rm_table route \<noteq> 255) all"
    "sys_get_routes S h8 = Inr all" by blast
  have del': "h4 = h3 @ [Exec (ip_address ''del'' (env_ip env) (device env))]"
    using del unfolding execute_all_logged by (auto simp: exec_event_def ip_address_def)
  from ifs mac have ifs': "ifs = sys_interfaces S h5" "h7 = h5 @ [ListInterfaces]"
    by (auto simp: list_interfaces_run)
  from mac obtain i where mac': "find (\<lambda>p. if_name p = veth4 env) (sys_interfaces S h5) = Some i" "if_mac i = Some mac"
    unfolding ifs'(1) by (auto split: option.splits)
  have h5: "h5 = h1 @ set_up_links env gw net_ip"
    using execute_all_Inr[OF links scripts_nonempty(1)] execute_all_Inr[OF rts scripts_nonempty(2)]
    unfolding net'(2) del' set_up_links_def by simp
  have h8: "h8 = h5 @ set_up_arp env net_ip mac"
    using execute_all_Inr[OF arp arp_in_netns_nonempty] unfolding ifs'(2) set_up_arp_def by simp
  have "h' = h1 @ set_up_events env gw net_ip mac all"
    using del_routes_Inr[OF dels] unfolding rs(1,2) local_routes_kept h8 h5 set_up_events_def by simp
  with n net' mac' rs(3) show ?thesis
    by (intro exI[of _ n] exI[of _ gw] exI[of _ net_ip] exI[of _ i] exI[of _ mac] exI[of _ all])
      (simp add: h5 h8 del: replicate_Suc)
qed

text \<open>C22: what a successful set-up has done. The gateway was asked until it was found, at most five
  times, and the address text of the environment parsed. The system saw exactly these effects in
  this order: the link script, the removal of the address from the device, the route script, the
  listing of the interfaces, the ARP entry in the namespace with the MAC address that the listing
  then gave for \<open>veth4\<close>, the listing of the routes, and the removal of exactly those among the
  listed that are kernel routes of the environment, in their order.\<close>

theorem setenv_bridge_effects:
  assumes "setenv_bridge S env h = (Inr (), h')"
  shows "\<exists>n gw net_ip i mac routes. n \<le> 4 \<and>
     (\<forall>j < n. \<exists>e. sys_gateway S (h @ replicate j QueryGateway) = Inl e) \<and>
     sys_gateway S (h @ replicate n QueryGateway) = Inr gw \<and>
     sys_parse_ipv4_network S (env_ip env) = Inr net_ip \<and>
     find (\<lambda>i. if_name i = veth4 env)
       (sys_interfaces S (h @ replicate (Suc n) QueryGateway @ set_up_links env gw net_ip)) = Some i \<and>
     if_mac i = Some mac \<and>
     sys_get_routes S (h @ replicate (Suc n) QueryGateway @ set_up_links env gw net_ip @
       set_up_arp env net_ip mac) = Inr routes \<and>
     h' = h @ replicate (Suc n) QueryGateway @ set_up_links env gw net_ip @ set_up_arp env net_ip mac @
       [GetRoutes] @ map DelRoute (filter (kernel_route env) routes)"
  using setenv_bridge_Inr[OF assms] unfolding set_up_events_def .

lemma gateway_outcome:
  "\<exists>n \<le> 5. snd (try_get_default_gateway S h) = h @ replicate n QueryGateway \<and>
    (case fst (try_get_default_gateway S h) of
        Inr gw \<Rightarrow> 0 < n \<and> sys_gateway S (h @ replicate (n - 1) QueryGateway) = Inr gw
      | Inl e \<Rightarrow> n = 5 \<and> e = Error (Anyhow ''tried 5 times but not get gateway''))"
proof -
  from gateway_tries_run[where S = S and k = 5 and h = h] obtain n where n: "n \<le> 5"
    "snd (try_get_default_gateway S h) = h @ replicate n QueryGateway"
    "case fst (gateway_tries S 5 h) of
        Inr gw \<Rightarrow> 0 < n \<and> sys_gateway S (h @ replicate (n - 1) QueryGateway) = Inr gw
      | Inl e \<Rightarrow> n = 5 \<and> e = Error (Anyhow ''tried 5 times but not get gateway'') \<and>
          (\<forall>j < 5. \<exists>e'. sys_gateway S (h @ replicate j QueryGateway) = Inl e')"
    unfolding try_get_default_gateway_def by blast
  from n(3) have "case fst (try_get_default_gateway S h) of
        Inr gw \<Rightarrow> 0 < n \<and> sys_gateway S (h @ replicate (n - 1) QueryGateway) = Inr gw
      | Inl e \<Rightarrow> n = 5 \<and> e = Error (Anyhow ''tried 5 times but not get gateway'')"
    unfolding try_get_default_gateway_def by (cases "fst (gateway_tries S 5 h)") simp_all
  with n(1,2) show ?thesis by blast
qed

lemma clear_bridge_run:
  "\<exists>n dels restored tail. n \<le> 5 \<and>
     restored = h @ map Exec (clear_script env) @ [GetRoutes] @ map DelRoute dels @
       map AddRoute (save_routes env) \<and>
     dels = (case sys_get_routes S (h @ map Exec (clear_script env)) of
        Inl _ \<Rightarrow> [] | Inr routes \<Rightarrow> filter (\<lambda>route. rm_table route \<noteq> 255) routes) \<and>
     snd (clear_bridge S env h) = restored @ replicate n QueryGateway @ tail \<and>
     (case fst (clear_bridge S env h) of
        Inl e \<Rightarrow> n = 5 \<and> tail = [] \<and> e = Error (Anyhow ''tried 5 times but not get gateway'')
      | Inr _ \<Rightarrow> \<exists>gw. 0 < n \<and> sys_gateway S (restored @ replicate (n - 1) QueryGateway) = Inr gw \<and>
          tail = (if list_all (\<lambda>i. i = 0) (gw_mac_octets gw) then []
            else [Exec (arp_set (ip_to_string (gw_ip gw)) (gw_mac gw) (device env))]))"
proof -
  let ?h1 = "h @ map Exec (clear_script env)"
  let ?dels = "case sys_get_routes S ?h1 of
        Inl _ \<Rightarrow> [] | Inr routes \<Rightarrow> filter (\<lambda>route. rm_table route \<noteq> 255) routes"
  let ?h2 = "?h1 @ [GetRoutes] @ map DelRoute ?dels @ map AddRoute (save_routes env)"
  have run: "clear_bridge S env h = io_bind (try_get_default_gateway S) (\<lambda>gw.
       if list_all (\<lambda>i. i = 0) (gw_mac_octets gw) then io_ok ()
       else execute_all_with_log_error S
         [arp_set (ip_to_string (gw_ip gw)) (gw_mac gw) (device env)]) ?h2"
    using del_routes_run[of S ?dels "?h1 @ [GetRoutes]"]
    by (auto simp: clear_bridge_def io_bind_run io_try_run execute_all_logged load_routes_run
        get_routes_run exec_events scripts_nonempty Let_def split: sum.splits)
  obtain n where n: "n \<le> 5"
    "snd (try_get_default_gateway S ?h2) = ?h2 @ replicate n QueryGateway"
    "case fst (try_get_default_gateway S ?h2) of
        Inr gw \<Rightarrow> 0 < n \<and> sys_gateway S (?h2 @ replicate (n - 1) QueryGateway) = Inr gw
      | Inl e \<Rightarrow> n = 5 \<and> e = Error (Anyhow ''tried 5 times but not get gateway'')"
    using gateway_outcome[of S ?h2] by blast
  show ?thesis
  proof (cases "fst (try_get_default_gateway S ?h2)")
    case (Inl e)
    with n(2) have "clear_bridge S env h = (Inl e, ?h2 @ replicate n QueryGateway)"
      unfolding run by (cases "try_get_default_gateway S ?h2") simp
    with n Inl show ?thesis
      by (intro exI[of _ n] exI[of _ ?dels] exI[of _ ?h2] exI[of _ "[]"]) simp
  next
    case (Inr gw)
    let ?tail = "if list_all (\<lambda>i. i = 0) (gw_mac_octets gw) then []
      else [Exec (arp_set (ip_to_string (gw_ip gw)) (gw_mac gw) (device env))]"
    from Inr n(2) have "clear_bridge S env h = (Inr (), ?h2 @ replicate n QueryGateway @ ?tail)"
      unfolding run execute_all_logged
      by (cases "try_get_default_gateway S ?h2") (simp add: exec_event_def arp_set_def execute_all_logged del: execute_all_with_log_error.simps)
    moreover from n(3) Inr have "0 < n \<and> sys_gateway S (?h2 @ replicate (n - 1) QueryGateway) = Inr gw"
      by simp
    ultimately show ?thesis using n(1)
      by (intro exI[of _ n] exI[of _ ?dels] exI[of _ ?h2] exI[of _ ?tail]) auto
  qed
qed

text \<open>C23: the tear-down restores the system whatever fails. In every outcome the whole clean-up
  script ran, every route listed then was deleted and every saved route added again in order;
  the only error left is a missing gateway after five attempts, and otherwise the gateway found
  is entered into the ARP table, unless its MAC address is zero.\<close>

theorem clear_bridge_effects:
  "\<exists>n dels restored tail. n \<le> 5 \<and>
     restored = h @ map Exec (clear_script env) @ [GetRoutes] @ map DelRoute dels @
       map AddRoute (save_routes env) \<and>
     dels = (case sys_get_routes S (h @ map Exec (clear_script env)) of
        Inl _ \<Rightarrow> [] | Inr routes \<Rightarrow> filter (\<lambda>route. rm_table route \<noteq> 255) routes) \<and>
     snd (clear_bridge S env h) = restored @ replicate n QueryGateway @ tail \<and>
     (case fst (clear_bridge S env h) of
        Inl e \<Rightarrow> n = 5 \<and> tail = [] \<and> e = Error (Anyhow ''tried 5 times but not get gateway'')
      | Inr _ \<Rightarrow> \<exists>gw. 0 < n \<and> sys_gateway S (restored @ replicate (n - 1) QueryGateway) = Inr gw \<and>
          tail = (if list_all (\<lambda>i. i = 0) (gw_mac_octets gw) then []
            else [Exec (arp_set (ip_to_string (gw_ip gw)) (gw_mac gw) (device env))]))"
  by (rule clear_bridge_run)

text \<open>The set-up removes every gateway-less route outside the local table whose preferred source
  is the address of the environment.\<close>

theorem kernel_route_own_address:
  assumes "env_ip env = ipv4_to_string a @ ''/'' @ dec p"
    and "PrefSource addr \<in> set (rm_nlas msg)" and "octets_text addr = ipv4_to_string a"
    and "rm_table msg \<noteq> 255" and "\<And>g. Gateway g \<notin> set (rm_nlas msg)"
  shows "kernel_route env msg"
proof -
  have "list_ex (\<lambda>n. case n of PrefSource addr \<Rightarrow> sublist (octets_text addr) (env_ip env) | _ \<Rightarrow> False)
       (rm_nlas msg)"
    using assms(1-3) by (auto simp: list_ex_iff intro!: bexI[of _ "PrefSource addr"] )
  moreover have "list_all (\<lambda>n. case n of Gateway _ \<Rightarrow> False | _ \<Rightarrow> True) (rm_nlas msg)"
    using assms(5) by (auto simp: list_all_iff split: nla.splits)
  ultimately show ?thesis using assms(4) by (simp add: kernel_route_def)
qed

subsection \<open>The whole set-up\<close>

lemma set_net_Inr:
  assumes "set_net S env proxy_ports listen_port safe h = (Inr (), h')"
  shows "\<exists>h1 i mac (arp :: arp_interface) a (gw :: gateway).
     setenv_bridge S env h = (Inr (), h1) \<and>
     i \<in> set (sys_interfaces S h1) \<and> if_name i = veth4 env \<and> if_mac i = Some mac \<and>
     arp_ip arp = Some a \<and>
     h' = h1 @ [ListInterfaces, FindArpInterface (veth4 env),
        SendArp (veth4 env) \<lparr>am_source_mac = arp_mac arp, am_source_ip = a,
          am_target_mac = ''ff:ff:ff:ff:ff:ff'', am_target_ip = a, am_is_request = True\<rparr>] @
       map Exec (set_iptables env proxy_ports (dec (unat listen_port)) mac) @
       (if safe then map Exec (set_iptables_safe env mac) else []) @
       [Exec (bash_c ''cp /etc/resolv.conf.bak /etc/resolv.conf''), QueryGateway, StartPing (gw_ip gw)]"
proof -
  from assms obtain u1 h1 ifs h2 i h3 mac h4 arp h5 a h6 u7 h7 u8 h8 u9 h9 u10 h10 gw h11 where
    set: "setenv_bridge S env h = (Inr u1, h1)" and
    ifs: "list_interfaces S h1 = (Inr ifs, h2)" and
    i: "io_unwrap ''unwrap interface'' (io_lift (get_interface ifs (veth4 env))) h2 = (Inr i, h3)" and
    mac: "io_lift (case if_mac i of None \<Rightarrow> panic ''unwrap mac'' | Some m \<Rightarrow> Inr m) h3 = (Inr mac, h4)" and
    arp: "io_unwrap ''unwrap arp interface''
         (io_call (FindArpInterface (veth4 env)) (\<lambda>h. sys_arp_interface S h (veth4 env))) h4 = (Inr arp, h5)" and
    a: "io_lift (case arp_ip arp of None \<Rightarrow> panic ''unwrap arp ip'' | Some a \<Rightarrow> Inr a) h5 = (Inr a, h6)" and
    ga: "gratuitous_arp S (veth4 env) a (arp_mac arp) h6 = (Inr u7, h7)" and
    ipt: "execute_all S (set_iptables env proxy_ports (dec (unat listen_port)) mac) h7 = (Inr u8, h8)" and
    saf: "(if safe then execute_all S (set_iptables_safe env mac) else io_ok ()) h8 = (Inr u9, h9)" and
    cp: "io_try (execute S (bash_c ''cp /etc/resolv.conf.bak /etc/resolv.conf'')) h9 = (Inr u10, h10)" and
    gw: "io_call QueryGateway (sys_gateway S) h10 = (Inr gw, h11)" and
    png: "try_ping S (gw_ip gw) h11 = (Inr (), h')"
    unfolding set_net_def Let_def by (elim io_bind_Inr)
  have i': "i \<in> set (sys_interfaces S h1)" "if_name i = veth4 env" "h3 = h1 @ [ListInterfaces]"
    using ifs i get_interface_Inr[of "sys_interfaces S h1" "veth4 env" i]
    by (auto simp: list_interfaces_run io_unwrap_run split: sum.splits failure.splits)
  have mac': "if_mac i = Some mac" "h4 = h3" using mac by (auto split: option.splits)
  have h5: "h5 = h4 @ [FindArpInterface (veth4 env)]"
    using arp by (auto simp: io_unwrap_run split: sum.splits failure.splits)
  have a': "arp_ip arp = Some a" "h6 = h5" using a by (auto split: option.splits)
  have h7: "h7 = h6 @ [SendArp (veth4 env) \<lparr>am_source_mac = arp_mac arp, am_source_ip = a,
          am_target_mac = ''ff:ff:ff:ff:ff:ff'', am_target_ip = a, am_is_request = True\<rparr>]"
    using ga by (auto simp: gratuitous_arp_def Let_def io_bind_run io_try_run ext_def split: sum.splits)
  have h9: "h9 = h8 @ (if safe then map Exec (set_iptables_safe env mac) else [])"
    using saf by (cases safe) (auto dest: execute_all_Inr[OF _ scripts_nonempty(5)])
  have h10: "h10 = h9 @ [Exec (bash_c ''cp /etc/resolv.conf.bak /etc/resolv.conf'')]"
    using cp by (auto simp: io_try_run execute_run bash_c_def split: sum.splits failure.splits)
  have h': "h' = h10 @ [QueryGateway, StartPing (gw_ip gw)]"
    using gw png by (auto simp: try_ping_def io_unwrap_run split: sum.splits failure.splits)
  show ?thesis
    using set execute_all_Inr[OF ipt scripts_nonempty(4)]
    by (intro exI[of _ h1] exI[of _ i] exI[of _ mac] exI[of _ arp] exI[of _ a] exI[of _ gw])
      (simp add: i' mac' h5 a' h7 h9 h10 h')
qed

lemma set_net_iptables:
  assumes "set_net S env proxy_ports listen_port safe h = (Inr (), h @ t)"
  shows "\<exists>mac. Exec ` set (set_iptables env proxy_ports (dec (unat listen_port)) mac) \<subseteq> set t"
proof -
  let ?rules = "\<lambda>mac. map Exec (set_iptables env proxy_ports (dec (unat listen_port)) mac)"
  from set_net_Inr[OF assms] obtain h1 mac where sb: "setenv_bridge S env h = (Inr (), h1)"
    and t: "\<exists>u v. h @ t = h1 @ u @ ?rules mac @ v" by (elim exE conjE) blast
  from setenv_bridge_Inr[OF sb] obtain w where "h1 = h @ w" by (elim exE conjE) blast
  with t show ?thesis by (intro exI[of _ mac]) auto
qed

text \<open>What a successful network set-up has done. After the bridge set-up, the effects are
  exactly: the lookups of \<open>veth4\<close>, one gratuitous ARP request for its address, the redirection
  rules for the given ports and listen port with the MAC address of \<open>veth4\<close>, the rules of the safe
  mode exactly when it is asked for, the restored DNS file, and the ping of the gateway.\<close>

theorem set_net_effects:
  assumes "set_net S env proxy_ports listen_port safe h = (Inr (), h')"
  shows "\<exists>h1 i mac (arp :: arp_interface) a (gw :: gateway).
     setenv_bridge S env h = (Inr (), h1) \<and>
     i \<in> set (sys_interfaces S h1) \<and> if_name i = veth4 env \<and> if_mac i = Some mac \<and>
     arp_ip arp = Some a \<and>
     h' = h1 @ [ListInterfaces, FindArpInterface (veth4 env),
        SendArp (veth4 env) \<lparr>am_source_mac = arp_mac arp, am_source_ip = a,
          am_target_mac = ''ff:ff:ff:ff:ff:ff'', am_target_ip = a, am_is_request = True\<rparr>] @
       map Exec (set_iptables env proxy_ports (dec (unat listen_port)) mac) @
       (if safe then map Exec (set_iptables_safe env mac) else []) @
       [Exec (bash_c ''cp /etc/resolv.conf.bak /etc/resolv.conf''), QueryGateway, StartPing (gw_ip gw)]"
  using assms by (rule set_net_Inr)

subsection \<open>Success\<close>

definition quiet :: "sys \<Rightarrow> bool" where
  "quiet S \<longleftrightarrow> (\<forall>h c. \<exists>out. sys_output S h c = Inr out \<and> out_stderr out = [])"

lemma quiet_execute_all:
  assumes "quiet S" and "[] \<notin> set cs"
  shows "execute_all S cs h = (Inr (), h @ map Exec cs)"
  using assms(2)
proof (induction cs arbitrary: h)
  case (Cons c cs)
  from assms(1) obtain out where "sys_output S h c = Inr out" "out_stderr out = []"
    unfolding quiet_def by blast
  with Cons show ?case by (cases c) (simp_all add: io_bind_run execute_run os_err_def)
qed simp

lemma quiet_del_routes:
  "(\<And>h m. sys_del_route S h m = Inr ()) \<Longrightarrow> del_routes_noblock S msgs h = (Inr (), h @ map DelRoute msgs)"
proof -
  assume ok: "\<And>h m. sys_del_route S h m = Inr ()"
  have "del_each S msgs h = (Inr [], h @ map DelRoute msgs)" for h
    by (induction msgs arbitrary: h) (simp_all add: io_bind_run io_try_run ok)
  then show ?thesis by (simp add: del_routes_noblock_def)
qed

text \<open>What the machine must answer for a set-up to succeed: no command writes to its standard error,
  the gateway, the routes, the address, the socket and the executable are found, ping clients can
  be made, and once \<open>veth4\<close> was set up, it is listed with a MAC address for as long as no namespace
  is deleted, and ARP finds its address.\<close>

definition deletes_netns :: "cevent \<Rightarrow> bool" where
  "deletes_netns e \<longleftrightarrow> (\<exists>n. e = Exec (ip_netns_del n))"

definition cooperative :: "sys \<Rightarrow> net_env \<Rightarrow> bool" where
  "cooperative S env \<longleftrightarrow> quiet S \<and>
     (\<forall>h. \<exists>gw. sys_gateway S h = Inr gw) \<and> (\<forall>h. \<exists>rs. sys_get_routes S h = Inr rs) \<and>
     (\<forall>h m. sys_del_route S h m = Inr ()) \<and> (\<exists>a. sys_parse_ipv4_network S (env_ip env) = Inr a) \<and>
     (\<forall>g t. list_all (\<lambda>e. \<not> deletes_netns e) t \<longrightarrow>
        (\<exists>i mac. find (\<lambda>i. if_name i = veth4 env) (sys_interfaces S (g @ Exec (ip_link_set_up (veth4 env)) # t)) = Some i \<and>
           if_mac i = Some mac)) \<and>
     (\<forall>h. \<exists>arp a. sys_arp_interface S h (veth4 env) = Inr arp \<and> arp_ip arp = Some a) \<and>
     (\<forall>h. sys_ping_client S h = Inr ()) \<and>
     (\<forall>h path. sys_uds_bind S h path = Inr ()) \<and> (\<forall>h. \<exists>exe. sys_current_exe S h = Inr exe)"

lemma deletes_netns_simps [simp]:
  "\<not> deletes_netns ListInterfaces" "\<not> deletes_netns GetRoutes" "\<not> deletes_netns (DelRoute msg)"
  "\<not> deletes_netns (Exec (ip_address a b c))" "\<not> deletes_netns (Exec (bash_c s))"
  "\<not> deletes_netns (Exec (arp_set x y z))" "\<not> deletes_netns (Exec (ip_route_add x y z))"
  "\<not> deletes_netns (Exec (ip_link_set_up m))" "\<not> deletes_netns (Exec (ip_link_set_master m k))"
  "\<not> deletes_netns (Exec (ip_netns m (c # cs)))"
  by (simp_all add: deletes_netns_def ip_address_def bash_c_def arp_set_def ip_route_add_def
      ip_link_set_up_def ip_link_set_master_def ip_netns_def ip_netns_del_def)

text \<open>After \<open>veth4\<close> was set up, the set-up deletes no namespace.\<close>

lemma link_script_split:
  "\<exists>g t. map Exec (link_script env) = g @ Exec (ip_link_set_up (veth4 env)) # t \<and> list_all (\<lambda>e. \<not> deletes_netns e) t"
  by (rule exI[of _ "map Exec (take 14 (link_script env))"], rule exI[of _ "map Exec (drop 15 (link_script env))"])
    (simp add: link_script_def ip_link_set_master_def ip_link_set_up_def ip_netns_def deletes_netns_def ip_netns_del_def)

lemma route_script_keeps: "list_all (\<lambda>e. \<not> deletes_netns e) (map Exec (route_script env gw a))"
  by (simp add: route_script_def Let_def arp_set_def ip_route_add_def ip_netns_def ip_address_def
      deletes_netns_def ip_netns_del_def)

lemma cooperative_interface:
  assumes "cooperative S env" and "list_all (\<lambda>e. \<not> deletes_netns e) t"
  obtains i mac where "find (\<lambda>i. if_name i = veth4 env) (sys_interfaces S (h @ map Exec (link_script env) @ t)) = Some i"
    "if_mac i = Some mac"
proof -
  obtain g u where "map Exec (link_script env) = g @ Exec (ip_link_set_up (veth4 env)) # u" "list_all (\<lambda>e. \<not> deletes_netns e) u"
    using link_script_split by blast
  then have "h @ map Exec (link_script env) @ t = (h @ g) @ Exec (ip_link_set_up (veth4 env)) # (u @ t)"
    "list_all (\<lambda>e. \<not> deletes_netns e) (u @ t)" using assms(2) by simp_all
  with assms(1) that show thesis unfolding cooperative_def by metis
qed

lemma cooperative_gateway:
  assumes "cooperative S env"
  obtains gw where "try_get_default_gateway S h = (Inr gw, h @ [QueryGateway])"
proof -
  from assms obtain gw where "sys_gateway S h = Inr gw" unfolding cooperative_def by blast
  then show thesis
    by (intro that) (simp add: try_get_default_gateway_def numeral_eq_Suc io_bind_run io_try_run)
qed

lemma setenv_bridge_succeeds:
  assumes "cooperative S env"
  shows "\<exists>gw a mac rs. setenv_bridge S env h = (Inr (), h @ QueryGateway # set_up_events env gw a mac rs)"
proof -
  obtain gw where gw: "try_get_default_gateway S h = (Inr gw, h @ [QueryGateway])"
    using cooperative_gateway[OF assms] .
  from assms obtain a where a: "sys_parse_ipv4_network S (env_ip env) = Inr a" by (auto simp: cooperative_def)
  let ?t = "[Exec (ip_address ''del'' (env_ip env) (device env))] @
     map Exec (route_script env gw (ipv4_to_string a @ ''/32''))"
  have "list_all (\<lambda>e. \<not> deletes_netns e) ?t" using route_script_keeps by simp
  with assms obtain i mac where i: "find (\<lambda>i. if_name i = veth4 env)
      (sys_interfaces S ((h @ [QueryGateway]) @ map Exec (link_script env) @ ?t)) = Some i" "if_mac i = Some mac"
    by (rule cooperative_interface)
  from assms obtain rs where rs: "sys_get_routes S ((h @ [QueryGateway]) @ map Exec (link_script env) @ ?t @
      [ListInterfaces, Exec (ip_netns (netns env) (arp_set (ipv4_to_string a) mac (bridge2 env)))]) = Inr rs"
    unfolding cooperative_def by blast
  from assms have q: "quiet S" and del: "\<And>h m. sys_del_route S h m = Inr ()" by (simp_all add: cooperative_def)
  have keep: "(\<lambda>x. rm_table x \<noteq> 255 \<and> kernel_route env x) = kernel_route env"
    by (auto simp: kernel_route_def fun_eq_iff)
  show ?thesis
    using i rs
    by (intro exI[of _ gw] exI[of _ a] exI[of _ mac] exI[of _ rs])
      (simp add: setenv_bridge_def io_bind_run gw a quiet_execute_all[OF q]
        scripts_nonempty execute_all_logged list_interfaces_run
        ip_netns_nonempty get_routes_run quiet_del_routes[OF del] set_up_defs
        exec_event_def ip_address_def keep
      del: execute_all.simps execute_all_with_log_error.simps)
qed

lemma get_interface_find: "find (\<lambda>i. if_name i = n) ifs = Some i \<Longrightarrow> get_interface ifs n = Inr i"
  by (induction ifs) (auto split: if_splits)

lemma set_up_events_keep:
  "\<exists>t. set_up_events env gw a mac rs = map Exec (link_script env) @ t \<and> list_all (\<lambda>e. \<not> deletes_netns e) t"
proof -
  have "list_all (\<lambda>e. \<not> deletes_netns e) (map DelRoute msgs)" for msgs by (simp add: list_all_iff)
  moreover have "\<not> deletes_netns (Exec (ip_netns n (arp_set x y z)))" for n x y z
    by (simp add: arp_set_def)
  ultimately show ?thesis using route_script_keeps by (simp add: set_up_defs)
qed

lemma scripts_quiet:
  assumes "quiet S"
  shows "execute_all S (set_iptables env ports p mac) h = (Inr (), h @ map Exec (set_iptables env ports p mac))"
    "execute_all S (set_iptables_safe env mac) h = (Inr (), h @ map Exec (set_iptables_safe env mac))"
  using assms by (simp_all add: quiet_execute_all scripts_nonempty)

lemma set_net_succeeds:
  assumes "cooperative S env"
  shows "\<exists>h'. set_net S env ports lp safe h = (Inr (), h')"
proof -
  obtain gw a mac rs where sb: "setenv_bridge S env h = (Inr (), h @ QueryGateway # set_up_events env gw a mac rs)"
    using setenv_bridge_succeeds[OF assms] by blast
  obtain t where t: "set_up_events env gw a mac rs = map Exec (link_script env) @ t" "list_all (\<lambda>e. \<not> deletes_netns e) t"
    using set_up_events_keep by blast
  from assms t(2) obtain i mac' where i: "find (\<lambda>i. if_name i = veth4 env)
      (sys_interfaces S ((h @ [QueryGateway]) @ map Exec (link_script env) @ t)) = Some i" "if_mac i = Some mac'"
    by (rule cooperative_interface)
  let ?h = "h @ QueryGateway # map Exec (link_script env) @ t"
  from assms have q: "quiet S" and ping: "\<And>h. sys_ping_client S h = Inr ()" by (simp_all add: cooperative_def)
  from assms obtain arp b where arp: "sys_arp_interface S (?h @ [ListInterfaces]) (veth4 env) = Inr arp" "arp_ip arp = Some b"
    unfolding cooperative_def by blast
  have cmd: "execute S (bash_c c) h = (Inr (), h @ [Exec (bash_c c)])" for c h
  proof -
    from q obtain out where "sys_output S h (bash_c c) = Inr out" "out_stderr out = []"
      unfolding quiet_def by blast
    then show ?thesis by (simp add: execute_run bash_c_def os_err_def)
  qed
  have last: "\<exists>h'. io_bind (io_call QueryGateway (sys_gateway S)) (\<lambda>gw. try_ping S (gw_ip gw)) h = (Inr (), h')" for h
  proof -
    from assms obtain gw where "sys_gateway S h = Inr gw" unfolding cooperative_def by blast
    then show ?thesis by (simp add: io_bind_run try_ping_def io_unwrap_run ping)
  qed
  have arping: "\<exists>h'. gratuitous_arp S n x y h = (Inr (), h')" for n x y h
    by (cases "sys_send_arp S h n \<lparr>am_source_mac = y, am_source_ip = x,
            am_target_mac = ''ff:ff:ff:ff:ff:ff'', am_target_ip = x, am_is_request = True\<rparr>")
      (simp_all add: gratuitous_arp_def io_bind_run io_try_run Let_def)
  obtain h1 where h1: "gratuitous_arp S (veth4 env) b (arp_mac arp) (?h @ [ListInterfaces, FindArpInterface (veth4 env)]) = (Inr (), h1)"
    using arping by blast
  let ?rules = "\<lambda>safe. if safe then execute_all S (set_iptables_safe env mac') else io_ok ()"
  have rules: "\<exists>h'. ?rules safe h = (Inr (), h')" for h by (simp add: scripts_quiet[OF q])
  obtain h2 where h2: "?rules safe (h1 @ map Exec (set_iptables env ports (dec (unat lp)) mac')) = (Inr (), h2)"
    using rules by blast
  obtain h3 where h3: "io_bind (io_call QueryGateway (sys_gateway S)) (\<lambda>gw. try_ping S (gw_ip gw))
      (h2 @ [Exec (bash_c ''cp /etc/resolv.conf.bak /etc/resolv.conf'')]) = (Inr (), h3)" using last by blast
  have "set_net S env ports lp safe h = (Inr (), h3)"
    using i arp h1 h2 h3
    by (simp add: set_net_def Let_def io_bind_step sb t(1) list_interfaces_run get_interface_find io_unwrap_run
        scripts_quiet[OF q] cmd io_try_run)
  then show ?thesis by blast
qed

subsection \<open>A concrete system\<close>

definition demo_gateway :: gateway where
  "demo_gateway = \<lparr>gw_mac_octets = [2, 0, 0, 0, 0, 1], gw_mac = ''02:00:00:00:00:01'', gw_ip = V4 0x0A000001\<rparr>"

definition demo_sys :: sys where
  "demo_sys = \<lparr>
     sys_output = (\<lambda>h c. Inr \<lparr>out_success = True, out_stdout = [], out_stderr = []\<rparr>),
     sys_lossy = (\<lambda>b. map (\<lambda>x. char_of (unat x)) b),
     sys_interfaces = (\<lambda>h. demo_interface # (if Exec (ip_link_set_up ''123e4567-e89bv4'') \<in> set h
        then [\<lparr>if_name = ''123e4567-e89bv4'', if_mac = Some ''02:00:00:00:00:04'', if_ips = [],
               if_is_loopback = False, if_is_up = True\<rparr>] else [])),
     sys_gateway = (\<lambda>h. Inr demo_gateway),
     sys_get_routes = (\<lambda>h. Inr [\<lparr>rm_table = 254, rm_nlas = [PrefSource [10, 0, 0, 5]]\<rparr>,
        \<lparr>rm_table = 254, rm_nlas = [Gateway [10, 0, 0, 1]]\<rparr>]),
     sys_del_route = (\<lambda>h r. Inr ()),
     sys_add_route = (\<lambda>h r. Inr ()),
     sys_arp_interface = (\<lambda>h n. Inr \<lparr>arp_ip = Some 0x0A000005, arp_mac = ''02:00:00:00:00:04''\<rparr>),
     sys_send_arp = (\<lambda>h n m. Inr ()),
     sys_ping_client = (\<lambda>h. Inr ()),
     sys_parse_ipv4_network = (\<lambda>s. if s = ''10.0.0.5/24'' then Inr 0x0A000005 else Inl (External s)),
     sys_uuid = (\<lambda>h. ''123e4567-e89b-42d3-a456-426614174000''),
     sys_open_netlink = (\<lambda>h. Inr ()),
     sys_temp_dir = ''/tmp/'',
     sys_uds_bind = (\<lambda>h p. Inr ()),
     sys_remove_file = (\<lambda>h p. Inr ()),
     sys_current_exe = (\<lambda>h. Inr ''/usr/bin/tproxy''),
     sys_signal = (\<lambda>h k. Inr ()),
     sys_join_task = (\<lambda>h c. Inr (Inr ()))\<rparr>"

definition demo_env :: net_env where
  "demo_env = \<lparr>netns = ''123e4567-e89bns'', device = ''eth0'', env_ip = ''10.0.0.5/24'',
     bridge1 = ''123e4567-e89bb1'', bridge2 = ''123e4567-e89bb2'', veth1 = ''123e4567-e89bv1'',
     veth2 = ''veth0'', veth3 = ''veth1'', veth4 = ''123e4567-e89bv4'',
     save_routes = [\<lparr>rm_table = 254, rm_nlas = [Gateway [10, 0, 0, 1]]\<rparr>,
       \<lparr>rm_table = 254, rm_nlas = [PrefSource [10, 0, 0, 5]]\<rparr>]\<rparr>"

lemma demo_quiet: "quiet demo_sys"
  by (simp add: quiet_def demo_sys_def)

lemma demo_net_env_at:
  assumes "Exec (ip_link_set_up ''123e4567-e89bv4'') \<notin> set h"
  shows "net_env_new demo_sys h = (Inr demo_env, h @ [ListInterfaces, NewUuid, ListInterfaces, GetRoutes])"
proof -
  have "fresh_prefix demo_sys [demo_interface] (h @ [ListInterfaces])
      = Some (''123e4567-e89b'', h @ [ListInterfaces, NewUuid])"
    by (subst fresh_prefix.simps) (simp add: demo_sys_def demo_interface_def Let_def)
  then show ?thesis
    using assms
    by (simp add: net_env_new_def io_simps list_interfaces_run draw_prefix_def get_routes_run
        demo_sys_def[THEN arg_cong, of sys_interfaces] demo_sys_def[THEN arg_cong, of sys_get_routes]
        demo_interface_def get_ipv4_def demo_env_def ipv4_to_string_def ipv4_octets_def
        dec.simps digit_def Let_def char_of_eq_iff)
qed

lemma demo_net_env:
  "net_env_new demo_sys [] = (Inr demo_env, [ListInterfaces, NewUuid, ListInterfaces, GetRoutes])"
  using demo_net_env_at[of "[]"] by simp

theorem net_env_new_fresh_witness:
  "length (veth4 demo_env) \<le> 15 \<and> veth4 demo_env \<noteq> ''eth0''"
  using net_env_new_fresh [OF demo_net_env]
  by (auto simp: host_links_def demo_sys_def demo_interface_def)


lemma demo_links_up: "Exec (ip_link_set_up ''123e4567-e89bv4'') \<in> Exec ` set (link_script demo_env)"
  by (simp add: link_script_def demo_env_def)

lemma demo_interfaces_up:
  assumes "Exec ` set (link_script demo_env) \<subseteq> set h"
  shows "sys_interfaces demo_sys h = [demo_interface,
     \<lparr>if_name = ''123e4567-e89bv4'', if_mac = Some ''02:00:00:00:00:04'', if_ips = [],
               if_is_loopback = False, if_is_up = True\<rparr>]"
  using subsetD[OF assms demo_links_up] by (simp add: demo_sys_def)

lemma demo_answers:
  "sys_gateway demo_sys h = Inr demo_gateway"
  "sys_get_routes demo_sys h = Inr [\<lparr>rm_table = 254, rm_nlas = [PrefSource [10, 0, 0, 5]]\<rparr>,
        \<lparr>rm_table = 254, rm_nlas = [Gateway [10, 0, 0, 1]]\<rparr>]"
  "sys_del_route demo_sys h msg = Inr ()"
  "sys_parse_ipv4_network demo_sys (env_ip demo_env) = Inr 0x0A000005"
  "sys_arp_interface demo_sys h n = Inr \<lparr>arp_ip = Some 0x0A000005, arp_mac = ''02:00:00:00:00:04''\<rparr>"
  "sys_send_arp demo_sys h n m = Inr ()"
  "sys_ping_client demo_sys h = Inr ()"
  by (simp_all add: demo_sys_def demo_env_def)

lemma demo_veth4: "veth4 demo_env = ''123e4567-e89bv4''"
  "if_name demo_interface = ''eth0''"
  by (simp_all add: demo_env_def demo_interface_def)

lemma demo_setenv:
  "\<exists>routes. setenv_bridge demo_sys demo_env h
     = (Inr (), h @ QueryGateway # set_up_events demo_env demo_gateway 0x0A000005 ''02:00:00:00:00:04'' routes)"
proof -
  have gw: "try_get_default_gateway demo_sys h = (Inr demo_gateway, h @ [QueryGateway])"
    by (simp add: try_get_default_gateway_def numeral_eq_Suc io_bind_run io_try_run demo_answers)
  show ?thesis
    by (rule exI[of _ "[\<lparr>rm_table = 254, rm_nlas = [PrefSource [10, 0, 0, 5]]\<rparr>,
        \<lparr>rm_table = 254, rm_nlas = [Gateway [10, 0, 0, 1]]\<rparr>]"])
      (simp add: setenv_bridge_def io_bind_run gw demo_answers quiet_execute_all[OF demo_quiet]
        scripts_nonempty execute_all_logged list_interfaces_run demo_interfaces_up demo_veth4
        ip_netns_nonempty get_routes_run quiet_del_routes set_up_defs
        exec_event_def ip_address_def subset_iff
      del: execute_all.simps execute_all_with_log_error.simps)
qed


theorem setenv_bridge_effects_witness:
  "\<exists>routes h' g. setenv_bridge demo_sys demo_env [] = (Inr (), h') \<and>
     sys_get_routes demo_sys g = Inr routes \<and>
     (\<exists>t. h' = t @ GetRoutes # map DelRoute (filter (kernel_route demo_env) routes))"
proof -
  obtain rs where rs: "setenv_bridge demo_sys demo_env []
     = (Inr (), QueryGateway # set_up_events demo_env demo_gateway 0x0A000005 ''02:00:00:00:00:04'' rs)"
    using demo_setenv[of "[]"] by auto
  from setenv_bridge_effects [OF this] this show ?thesis by (auto simp del: replicate_Suc)
qed

lemma demo_cooperative: "cooperative demo_sys demo_env"
proof -
  have "\<exists>i mac. find (\<lambda>i. if_name i = veth4 demo_env)
      (sys_interfaces demo_sys (g @ Exec (ip_link_set_up (veth4 demo_env)) # t)) = Some i \<and> if_mac i = Some mac" for g t
    by (simp add: demo_sys_def demo_veth4)
  then show ?thesis
    unfolding cooperative_def using demo_quiet
    by (simp add: demo_answers) (simp add: demo_sys_def)
qed

theorem set_net_effects_witness:
  "\<exists>h'. set_net demo_sys demo_env (Some ''80,443'') 1025 True [] = (Inr (), h') \<and>
     (\<exists>mac. Exec ` set (set_iptables demo_env (Some ''80,443'') (dec 1025) mac) \<subseteq> set h')"
proof -
  obtain h' where h': "set_net demo_sys demo_env (Some ''80,443'') 1025 True [] = (Inr (), h')"
    using set_net_succeeds[OF demo_cooperative] by blast
  from set_net_effects [OF this] show ?thesis
    using h' by fastforce
qed

theorem kernel_route_own_address_witness:
  "kernel_route demo_env \<lparr>rm_table = 254, rm_nlas = [PrefSource [10, 0, 0, 5]]\<rparr>"
  by (rule kernel_route_own_address [where a = "0x0A000005" and p = 24 and addr = "[10, 0, 0, 5]"])
    ((rule sym)?, simp add: demo_env_def octets_text_def ipv4_to_string_def ipv4_octets_def dec.simps digit_def
      char_of_eq_iff)+

text \<open>The address test is a substring test: there are environments and routes whose preferred
  sources are all other addresses, and which the set-up removes all the same.\<close>

theorem kernel_route_matches_foreign_address:
  "\<exists>env a msg. env_ip env = ipv4_to_string a @ ''/24'' \<and> kernel_route env msg \<and>
     list_all (\<lambda>n. \<exists>addr. n = PrefSource addr \<and> octets_text addr \<noteq> ipv4_to_string a) (rm_nlas msg)"
proof (intro exI conjI)
  show "env_ip (demo_env\<lparr>env_ip := ''10.0.0.12/24''\<rparr>) = ipv4_to_string 0x0A00000C @ ''/24''"
    by (rule sym) (simp add: ipv4_to_string_def ipv4_octets_def dec.simps digit_def char_of_eq_iff)
  show "kernel_route (demo_env\<lparr>env_ip := ''10.0.0.12/24''\<rparr>)
      \<lparr>rm_table = 254, rm_nlas = [PrefSource [10, 0, 0, 1]]\<rparr>"
    by (simp add: kernel_route_def octets_text_def dec.simps digit_def char_of_eq_iff)
  show "list_all (\<lambda>n. \<exists>addr. n = PrefSource addr \<and> octets_text addr \<noteq> ipv4_to_string 0x0A00000C)
      (rm_nlas \<lparr>rm_table = 254, rm_nlas = [PrefSource [10, 0, 0, 1]]\<rparr>)"
    by (simp add: octets_text_def ipv4_to_string_def ipv4_octets_def dec.simps digit_def char_of_eq_iff)
qed

end
