(* ===== verification/Config_Transfer.thy ===== *)
theory Config_Transfer
  imports Net_Commands
begin

text \<open>
  The transfer of the configuration from the controller to its sub proxy over a Unix socket:
  \<open>proxy/uds_server.rs\<close> of the controller and \<open>uds_client.rs\<close> of the sub proxy.
\<close>

subsection \<open>The server\<close>

record uds_server =
  us_data :: proxy_raw_config
  us_path :: string

definition uds_server_new :: "proxy_raw_config \<Rightarrow> string \<Rightarrow> uds_server" where
  "uds_server_new data path = \<lparr>us_data = data, us_path = path\<rparr>"

definition uds_server_bind :: "sys \<Rightarrow> uds_server \<Rightarrow> (cevent, unit) io" where
  "uds_server_bind S server = io_call (UdsBind (us_path server)) (\<lambda>h. sys_uds_bind S h (us_path server))"

definition uds_server_clear :: "sys \<Rightarrow> uds_server \<Rightarrow> (cevent, unit) io" where
  "uds_server_clear S server = io_call (RemoveFile (us_path server)) (\<lambda>h. sys_remove_file S h (us_path server))"

text \<open>The loop of \<open>listen\<close>: every accepted connection is given to a task that writes the
  serialised data; the loop ends when accepting or serialising fails. \<open>outcomes\<close> are the
  results of the first calls of \<open>accept\<close>; the value is the tasks spawned by then, each with its
  connection and the bytes it writes, and the error that ended the loop, if one did.\<close>

fun uds_listen ::
  "(proxy_raw_config \<Rightarrow> error + bytes) \<Rightarrow> uds_server \<Rightarrow> (error + nat) list
    \<Rightarrow> (nat \<times> bytes) list \<times> error option" where
  "uds_listen to_vec server [] = ([], None)"
| "uds_listen to_vec server (Inl e # outcomes) = ([], Some (Anyhow (error_text e)))"
| "uds_listen to_vec server (Inr stream # outcomes) = (case to_vec (us_data server) of
       Inl e \<Rightarrow> ([], Some e)
     | Inr buf \<Rightarrow> (case uds_listen to_vec server outcomes of
           (tasks, err) \<Rightarrow> ((stream, buf) # tasks, err)))"

text \<open>The task of a connection, for the result of \<open>write_all\<close>.\<close>

definition uds_write_task :: "error + unit \<Rightarrow> unit res" where
  "uds_write_task written = (case written of Inr _ \<Rightarrow> Inr () | Inl e \<Rightarrow> bail (error_text e))"

subsection \<open>The client\<close>

record uds_world =
  uw_connect :: "string \<Rightarrow> error + unit"
  uw_read_to_end :: "string \<Rightarrow> error + bytes"
  uw_from_slice :: "bytes \<Rightarrow> error + proxy_raw_config"

record uds_client =
  uc_path :: string

definition uds_client_new :: "string \<Rightarrow> uds_client" where
  "uds_client_new path = \<lparr>uc_path = path\<rparr>"

definition uds_read_into :: "uds_world \<Rightarrow> uds_client \<Rightarrow> proxy_raw_config res" where
  "uds_read_into U client =
     res_bind (ext (uw_connect U (uc_path client))) (\<lambda>_.
       case uw_read_to_end U (uc_path client) of
         Inr buf \<Rightarrow> (case uw_from_slice U buf of
             Inr o' \<Rightarrow> Inr o'
           | Inl e \<Rightarrow> bail (error_text e))
       | Inl e \<Rightarrow> bail (error_text e))"

subsection \<open>What is transferred\<close>

text \<open>Every task writes the serialised data of the server, and there is one task for each
  connection accepted before the first failure, in order.\<close>

lemma uds_listen_tasks:
  assumes "to_vec (us_data server) = Inr data"
  shows "uds_listen to_vec server outcomes =
     (map (\<lambda>s. (projr s, data)) (takeWhile (\<lambda>x. \<not> isl x) outcomes),
      map_option (\<lambda>x. Anyhow (error_text (projl x))) (find isl outcomes))"
  using assms by (induction to_vec server outcomes rule: uds_listen.induct) auto

lemma uds_listen_serialised:
  "(s, buf) \<in> set (fst (uds_listen to_vec server outcomes)) \<Longrightarrow> to_vec (us_data server) = Inr buf"
  by (induction to_vec server outcomes rule: uds_listen.induct) (auto split: sum.splits prod.splits)

lemma uds_read_Inr_iff:
  "uds_read_into U client = Inr cfg \<longleftrightarrow>
     uw_connect U (uc_path client) = Inr () \<and>
     (\<exists>buf. uw_read_to_end U (uc_path client) = Inr buf \<and> uw_from_slice U buf = Inr cfg)"
  by (auto simp: uds_read_into_def res_bind_Inr_iff split: sum.splits)

lemma uds_read_no_panic: "uds_read_into U client \<noteq> Inl (Panic x)"
  by (auto simp: uds_read_into_def ext_def bail_def res_bind_def split: sum.splits)

subsection \<open>A concrete configuration\<close>

definition demo_cfg :: proxy_raw_config where
  "demo_cfg = \<lparr>prc_proxy_ports = Some ''80,443'', prc_listen_port = 1025, prc_safe_mode = True,
     prc_rules = [], prc_role = None, prc_tls = None\<rparr>"

end
