(* ===== verification/Proxy_Exec.thy ===== *)
theory Proxy_Exec
  imports Bridge Config_Transfer
begin

text \<open>
  The life of the sub proxy: \<open>proxy/exec.rs\<close> of the controller. A channel is identified by the
  length of the history at which it was made, and the task that owns its receiver by the same
  number. The state survives an error, so the operations return it beside their result.
\<close>

subsection \<open>State\<close>

record proxy_opt =
  ipc_path :: string
  verbose :: u8

record proxy =
  opt :: proxy_opt
  px_env :: net_env
  sender :: "nat option"
  rx :: "nat option"
  task :: "nat option"

subsection \<open>Paths\<close>

text \<open>\<open>Path::join\<close> and \<open>Path::with_extension\<close> of the standard library, for paths that end in a
  file name.\<close>

definition path_join :: "string \<Rightarrow> string \<Rightarrow> string" where
  "path_join dir name =
     (if prefix ''/'' name then name
      else if dir = [] \<or> last dir = CHR ''/'' then dir @ name
      else dir @ ''/'' @ name)"

definition file_name :: "string \<Rightarrow> string" where
  "file_name path = rev (takeWhile (\<lambda>c. c \<noteq> CHR ''/'') (rev path))"

definition parent_dir :: "string \<Rightarrow> string" where
  "parent_dir path = rev (dropWhile (\<lambda>c. c \<noteq> CHR ''/'') (rev path))"

definition file_stem :: "string \<Rightarrow> string" where
  "file_stem name = (let before_dot = dropWhile (\<lambda>c. c \<noteq> CHR ''.'') (rev name) in
     if length before_dot \<le> 1 then name else rev (tl before_dot))"

definition with_extension :: "string \<Rightarrow> string \<Rightarrow> string" where
  "with_extension path extension =
     parent_dir path @ file_stem (file_name path) @ ''.'' @ extension"

subsection \<open>Operations\<close>

definition new_uuid :: "sys \<Rightarrow> (cevent, string) io" where
  "new_uuid S = (\<lambda>h. (Inr (sys_uuid S h), h @ [NewUuid]))"

definition new_channel :: "(cevent, nat) io" where
  "new_channel = (\<lambda>h. (Inr (length h), h @ [NewChannel]))"

definition proxy_new :: "sys \<Rightarrow> u8 \<Rightarrow> (cevent, proxy) io" where
  "proxy_new S v =
     io_bind (new_uuid S) (\<lambda>uuid.
     let uds_path = with_extension (path_join (sys_temp_dir S) uuid) ''sock'' in
     io_bind new_channel (\<lambda>c.
     io_bind (io_unwrap ''unwrap netlink'' (io_call OpenNetlink (sys_open_netlink S))) (\<lambda>_.
     io_bind (net_env_new S) (\<lambda>env.
       io_ok \<lparr>opt = \<lparr>ipc_path = uds_path, verbose = v\<rparr>, px_env = env, sender = Some c,
              rx = Some c, task = None\<rparr>))))"

definition sub_proxy_argv :: "proxy \<Rightarrow> string \<Rightarrow> string list" where
  "sub_proxy_argv p exe_path =
     [''ip'', ''netns'', ''exec'', netns (px_env p), exe_path,
      ''-'' @ replicate (unat (verbose (opt p))) (CHR ''v''),
      ''--proxy'', ''--ipc-path='' @ ipc_path (opt p)]"

text \<open>\<open>exec\<close> up to the spawning of the task; it does not change the state.\<close>

definition exec_prepare :: "sys \<Rightarrow> proxy \<Rightarrow> proxy_raw_config \<Rightarrow> (cevent, string list) io" where
  "exec_prepare S p config =
     (let uds_server = uds_server_new config (ipc_path (opt p)) in
     io_bind (uds_server_bind S uds_server) (\<lambda>_.
     io_bind (io_emit (SpawnUdsServer (us_path uds_server) (us_data uds_server))) (\<lambda>_.
     io_bind (io_try (io_call CurrentExe (sys_current_exe S))) (\<lambda>r.
     io_bind (io_lift (case r of
         Inl e \<Rightarrow> bail (''failed to get current exe path,error : '' @ error_text e)
       | Inr path \<Rightarrow> Inr path)) (\<lambda>exe_path.
     io_bind (set_net S (px_env p) (prc_proxy_ports config) (prc_listen_port config)
         (prc_safe_mode config)) (\<lambda>_.
       io_ok (sub_proxy_argv p exe_path)))))))"

lemma exec_prepare_script:
  "exec_prepare S p config =
     io_bind (io_call (UdsBind (ipc_path (opt p))) (\<lambda>h. sys_uds_bind S h (ipc_path (opt p)))) (\<lambda>_.
     io_bind (io_emit (SpawnUdsServer (ipc_path (opt p)) config)) (\<lambda>_.
     io_bind (io_try (io_call CurrentExe (sys_current_exe S))) (\<lambda>r.
     io_bind (io_lift (case r of
         Inl e \<Rightarrow> bail (''failed to get current exe path,error : '' @ error_text e)
       | Inr path \<Rightarrow> Inr path)) (\<lambda>exe_path.
     io_bind (set_net S (px_env p) (prc_proxy_ports config) (prc_listen_port config)
         (prc_safe_mode config)) (\<lambda>_.
       io_ok (sub_proxy_argv p exe_path))))))"
  by (simp add: exec_prepare_def uds_server_bind_def uds_server_new_def Let_def)

definition proxy_exec ::
  "sys \<Rightarrow> proxy \<Rightarrow> proxy_raw_config \<Rightarrow> (cevent, (error + unit) \<times> proxy) io" where
  "proxy_exec S p config =
     io_bind (io_try (exec_prepare S p config)) (\<lambda>r. case r of
         Inl e \<Rightarrow> io_ok (Inl e, p)
       | Inr argv \<Rightarrow>
           io_bind (io_lift (case rx p of None \<Rightarrow> panic ''unwrap rx'' | Some c \<Rightarrow> Inr c)) (\<lambda>c.
           io_bind (io_emit (SpawnTask c argv)) (\<lambda>_.
             io_ok (Inr (), p\<lparr>rx := None, task := Some c\<rparr>))))"

definition proxy_stop :: "sys \<Rightarrow> proxy \<Rightarrow> (cevent, (error + unit) \<times> proxy) io" where
  "proxy_stop S p = (case task p of
       None \<Rightarrow> io_ok (Inr (), p)
     | Some t \<Rightarrow>
         io_bind (case sender p of Some c \<Rightarrow> io_emit (SendStop c) | None \<Rightarrow> io_ok ()) (\<lambda>_.
         let p = p\<lparr>task := None, sender := None\<rparr> in
         io_bind (io_try (clear_bridge S (px_env p))) (\<lambda>_.
         io_bind (io_try (io_call (AwaitTask t) (\<lambda>h. sys_join_task S h t))) (\<lambda>r. case r of
             Inl join_error \<Rightarrow> io_ok (Inl join_error, p)
           | Inr _ \<Rightarrow> io_ok (Inr (), p)))))"

definition proxy_reload ::
  "sys \<Rightarrow> proxy \<Rightarrow> proxy_raw_config \<Rightarrow> (cevent, (error + unit) \<times> proxy) io" where
  "proxy_reload S p config =
     io_bind (proxy_stop S p) (\<lambda>(r, p). case r of
         Inl e \<Rightarrow> io_ok (Inl e, p)
       | Inr _ \<Rightarrow>
           if prc_proxy_ports config = None then io_ok (Inr (), p)
           else
             io_bind (if task p = None
                      then io_bind (proxy_new S (verbose (opt p))) (\<lambda>new.
                        io_ok (p\<lparr>px_env := px_env new, opt := opt new, sender := sender new, rx := rx new\<rparr>))
                      else io_ok p) (\<lambda>p.
             io_bind (proxy_exec S p config) (\<lambda>(r, p). case r of
                 Inl e \<Rightarrow>
                   io_bind (io_try (clear_bridge S (px_env p))) (\<lambda>r2. case r2 of
                       Inl e2 \<Rightarrow> io_ok (Inl e2, p)
                     | Inr _ \<Rightarrow> io_ok (Inl e, p))
               | Inr _ \<Rightarrow> io_ok (Inr (), p))))"

subsection \<open>The task of the sub proxy\<close>

text \<open>The task spawns the process and waits for its exit or for its channel, whose sender may
  have sent or may be gone. The parameters are the spawn, which gives a process or an error, and
  \<open>process.id()\<close>, asked when the channel has resolved: \<open>None\<close> once the process was reaped.\<close>

datatype task_select = Exited | ChannelResolved

datatype task_effect = SpawnProcess "string list" | KillInterrupt int

definition task_body :: "(string list \<Rightarrow> error + 'p) \<Rightarrow> ('p \<Rightarrow> 32 word option) \<Rightarrow>
    string list \<Rightarrow> task_select \<Rightarrow> unit res \<times> task_effect list" where
  "task_body spawn process_id argv sel = (case spawn argv of
       Inl e \<Rightarrow> (bail (''failed to exec sub proxy : '' @ error_text e), [SpawnProcess argv])
     | Inr process \<Rightarrow> (case sel of
           Exited \<Rightarrow> (Inr (), [SpawnProcess argv])
         | ChannelResolved \<Rightarrow> (case process_id process of
               None \<Rightarrow> (panic ''unwrap process id'', [SpawnProcess argv])
             | Some n \<Rightarrow> (Inr (), [SpawnProcess argv, KillInterrupt (sint n)]))))"

text \<open>A number from \<open>2^31\<close> on would name a process group in \<open>libc::kill\<close>.\<close>

lemma task_body_kills:
  assumes "spawn argv = Inr process" and "process_id process = Some n"
  shows "snd (task_body spawn process_id argv ChannelResolved) =
     [SpawnProcess argv, KillInterrupt (if unat n < 2 ^ 31 then int (unat n) else int (unat n) - 2 ^ 32)]"
  using assms by (simp add: task_body_def sint_u32)

subsection \<open>What the network code may do\<close>

fun task_event :: "cevent \<Rightarrow> bool" where
  "task_event (SpawnTask c argv) = True"
| "task_event (SendStop c) = True"
| "task_event (AwaitTask c) = True"
| "task_event _ = False"

definition net_panics :: "string set" where
  "net_panics = {''unwrap default interface'', ''unwrap ipv4'', ''unwrap routes'',
     ''unwrap interface'', ''unwrap mac'', ''unwrap arp interface'', ''unwrap arp ip'',
     ''unwrap ping client''}"

abbreviation net_code :: "(cevent, 'a) io \<Rightarrow> bool" where
  "net_code \<equiv> within (\<lambda>e. \<not> task_event e) net_panics"

lemma os_err_no_panic [simp]: "os_err S e \<noteq> Inl (Panic x)"
  by (simp add: os_err_def bail_def)

lemma bail_no_panic [simp]: "bail m \<noteq> Inl (Panic x)"
  by (simp add: bail_def)

lemma execute_within [within_intros]: "net_code (execute S c)"
  unfolding execute_def by (cases c) (auto intro!: within_intros)

lemma execute_all_within [within_intros]: "net_code (execute_all S cs)"
  by (induction cs) (auto intro!: within_intros)

lemma execute_all_logged_within [within_intros]: "net_code (execute_all_with_log_error S cs)"
  by (induction cs) (auto intro!: within_intros)

lemma get_routes_within [within_intros]: "net_code (get_routes_noblock S)"
  unfolding get_routes_noblock_def by (intro within_intros) simp

lemma del_each_within [within_intros]: "net_code (del_each S msgs)"
  by (induction msgs) (auto intro!: within_intros)

lemma list_case_within [within_intros]:
  "within E P a \<Longrightarrow> (\<And>x xs. within E P (f x xs)) \<Longrightarrow> within E P (case l of [] \<Rightarrow> a | x # xs \<Rightarrow> f x xs)"
  by (cases l) auto

lemma del_routes_within [within_intros]: "net_code (del_routes_noblock S msgs)"
  unfolding del_routes_noblock_def by (auto intro!: within_intros)

lemma load_routes_within [within_intros]: "net_code (load_routes S msgs)"
  by (induction msgs) (auto intro!: within_intros)

lemma gateway_tries_within [within_intros]: "net_code (gateway_tries S k)"
  by (induction k) (auto intro!: within_intros)

lemma gateway_within [within_intros]: "net_code (try_get_default_gateway S)"
  unfolding try_get_default_gateway_def by (rule within_intros)

lemma list_interfaces_within [within_intros]: "net_code (list_interfaces S)"
  by (rule withinI) (simp add: list_interfaces_run)

lemma draw_prefix_within [within_intros]: "net_code (draw_prefix S ifs)"
proof (rule withinI)
  fix h
  show "\<exists>t. snd (draw_prefix S ifs h) = h @ t \<and> list_all (\<lambda>e. \<not> task_event e) t \<and>
      (\<forall>x. fst (draw_prefix S ifs h) = Inl (Panic x) \<longrightarrow> x \<in> net_panics)"
    using draw_prefix_cases[of ifs S h]
    by (auto simp: list_all_iff split: if_splits)
qed

lemma get_default_interface_no_panic [simp]: "get_default_interface ifs \<noteq> Inl (Panic x)"
  by (induction ifs) simp_all

lemma get_interface_no_panic [simp]: "get_interface ifs n \<noteq> Inl (Panic x)"
  by (induction ifs) simp_all

lemma panic_eq [simp]: "panic m = Inl (Panic x) \<longleftrightarrow> m = x"
  by (simp add: panic_def)

lemma net_env_new_within [within_intros]: "net_code (net_env_new S)"
  unfolding net_env_new_def
  by (intro within_intros) (auto simp: net_panics_def split: option.splits)

lemma setenv_bridge_within [within_intros]: "net_code (setenv_bridge S env)"
  unfolding setenv_bridge_def
  by (intro within_intros) (auto split: option.splits sum.splits)

lemma clear_bridge_within [within_intros]: "net_code (clear_bridge S env)"
  unfolding clear_bridge_def Let_def by (intro within_intros)

lemma set_net_within [within_intros]: "net_code (set_net S env ports lp safe)"
  unfolding set_net_def Let_def gratuitous_arp_def try_ping_def
  by (intro within_intros) (auto simp: net_panics_def split: option.splits)


subsection \<open>Running sub proxies\<close>

text \<open>A sub proxy runs from the spawning of its task until its channel is told to stop.\<close>

definition running :: "cevent list \<Rightarrow> nat set" where
  "running h = {c. (\<exists>argv. SpawnTask c argv \<in> set h) \<and> SendStop c \<notin> set h}"

definition used_channels :: "cevent list \<Rightarrow> nat set" where
  "used_channels h = {c. (\<exists>argv. SpawnTask c argv \<in> set h) \<or> SendStop c \<in> set h}"

definition proxy_inv :: "proxy \<Rightarrow> cevent list \<Rightarrow> bool" where
  "proxy_inv p h \<longleftrightarrow> running h = set_option (task p) \<and> used_channels h \<subseteq> {..<length h} \<and>
     (task p \<noteq> None \<longrightarrow> sender p = task p)"

definition plain :: "cevent list \<Rightarrow> bool" where
  "plain t = list_all (\<lambda>e. \<not> task_event e) t"

lemma plain_simps [simp]:
  "plain []" "plain (e # t) \<longleftrightarrow> \<not> task_event e \<and> plain t" "plain (s @ t) \<longleftrightarrow> plain s \<and> plain t"
  by (auto simp: plain_def)

lemma plain_no_task: "plain t \<Longrightarrow> SpawnTask c argv \<notin> set t \<and> SendStop c \<notin> set t"
  by (induction t) auto

lemma plain_running:
  assumes "plain t"
  shows "running (h @ t) = running h" "used_channels (h @ t) = used_channels h"
  using plain_no_task[OF assms] by (auto simp: running_def used_channels_def)

lemma net_codeE:
  assumes "net_code m" and "m h = (r, h')"
  obtains t where "h' = h @ t" "plain t" "\<forall>x. r = Inl (Panic x) \<longrightarrow> x \<in> net_panics"
  using assms by (rule withinE) (auto simp: plain_def)

lemma running_stop: "running (h @ [SendStop c]) = running h - {c}"
  by (auto simp: running_def)

lemma used_stop: "used_channels (h @ [SendStop c]) = insert c (used_channels h)"
  by (auto simp: used_channels_def)

lemma running_spawn:
  "c \<notin> used_channels h \<Longrightarrow> running (h @ [SpawnTask c argv]) = insert c (running h)"
  by (auto simp: running_def used_channels_def)

lemma used_spawn: "used_channels (h @ [SpawnTask c argv]) = insert c (used_channels h)"
  by (auto simp: used_channels_def)

lemma running_used: "running h \<subseteq> used_channels h"
  by (auto simp: running_def used_channels_def)

text \<open>What \<open>stop\<close> does to a proxy with a task.\<close>

lemma proxy_stop_run:
  assumes "task p = Some c" and "sender p = Some c" and "proxy_stop S p h = (Inr (r, p'), h')"
  shows "p' = p\<lparr>task := None, sender := None\<rparr> \<and>
     (\<exists>t. h' = h @ SendStop c # t @ [AwaitTask c] \<and> plain t \<and>
       r = map_sum id (\<lambda>_. ()) (sys_join_task S (h @ SendStop c # t) c) \<and>
       (\<exists>x. clear_bridge S (px_env p) (h @ [SendStop c]) = (x, h @ SendStop c # t)))"
proof -
  obtain x h1 where cl: "clear_bridge S (px_env p) (h @ [SendStop c]) = (x, h1)"
    by (cases "clear_bridge S (px_env p) (h @ [SendStop c])")
  from net_codeE[OF clear_bridge_within cl] obtain t where t: "h1 = h @ SendStop c # t" "plain t"
    by auto
  from assms cl t(1) have "p' = p\<lparr>task := None, sender := None\<rparr> \<and> h' = h1 @ [AwaitTask c] \<and>
      r = map_sum id (\<lambda>_. ()) (sys_join_task S h1 c)"
    by (auto simp: proxy_stop_def Let_def io_bind_run io_try_run ext_def
        split: sum.splits failure.splits)
  with t cl show ?thesis by auto
qed

lemma proxy_stop_idle: "task p = None \<Longrightarrow> proxy_stop S p h = (Inr (Inr (), p), h)"
  by (simp add: proxy_stop_def)

lemma proxy_stop_inv:
  assumes "proxy_inv p h" and "proxy_stop S p h = (Inr (r, p'), h')"
  shows "proxy_inv p' h' \<and> task p' = None \<and> running h' = {} \<and> opt p' = opt p"
proof (cases "task p")
  case None
  with assms show ?thesis by (auto simp: proxy_stop_idle proxy_inv_def)
next
  case (Some c)
  with assms(1) have "sender p = Some c" by (simp add: proxy_inv_def)
  from proxy_stop_run[OF Some this assms(2)] obtain t where
    p': "p' = p\<lparr>task := None, sender := None\<rparr>" and h': "h' = (h @ [SendStop c]) @ t @ [AwaitTask c]"
    and t: "plain t" by auto
  have run: "running h' = running h - {c}" "used_channels h' = insert c (used_channels h)"
    using t unfolding h'
    by (auto simp: running_def used_channels_def dest: plain_no_task)
  with assms(1) Some have "running h' = {}" by (simp add: proxy_inv_def)
  moreover have "c \<in> used_channels h"
    using assms(1) Some running_used by (auto simp: proxy_inv_def)
  ultimately show ?thesis
    using assms(1) run(2) unfolding proxy_inv_def p' h' by auto
qed

lemma proxy_new_run:
  assumes "proxy_new S v h = (Inr p, h')"
  obtains t env where "h' = h @ [NewUuid, NewChannel, OpenNetlink] @ t" "plain t"
    "net_env_new S (h @ [NewUuid, NewChannel, OpenNetlink]) = (Inr env, h')"
    "p = \<lparr>opt = \<lparr>ipc_path = with_extension (path_join (sys_temp_dir S) (sys_uuid S h)) ''sock'',
        verbose = v\<rparr>, px_env = env, sender = Some (Suc (length h)), rx = Some (Suc (length h)),
        task = None\<rparr>"
proof -
  from assms obtain env where env:
    "net_env_new S (h @ [NewUuid, NewChannel, OpenNetlink]) = (Inr env, h')" and
    p: "p = \<lparr>opt = \<lparr>ipc_path = with_extension (path_join (sys_temp_dir S) (sys_uuid S h)) ''sock'',
        verbose = v\<rparr>, px_env = env, sender = Some (Suc (length h)), rx = Some (Suc (length h)),
        task = None\<rparr>"
    by (auto simp: proxy_new_def new_uuid_def new_channel_def Let_def io_bind_run io_unwrap_run
        ext_def split: sum.splits failure.splits prod.splits)
  from net_codeE[OF net_env_new_within env] obtain t where
    "h' = h @ [NewUuid, NewChannel, OpenNetlink] @ t" "plain t" by auto
  with env p that show thesis by blast
qed

lemma exec_prepare_within: "net_code (exec_prepare S p cfg)"
  unfolding exec_prepare_script by (intro within_intros) (auto split: sum.splits)

lemma proxy_exec_run:
  assumes "proxy_exec S p cfg h = (Inr (r, p'), h')"
  shows "(\<exists>e t. r = Inl e \<and> p' = p \<and> h' = h @ t \<and> plain t \<and>
       exec_prepare S p cfg h = (Inl (Error e), h')) \<or>
     (\<exists>c argv t. r = Inr () \<and> rx p = Some c \<and> p' = p\<lparr>rx := None, task := Some c\<rparr> \<and>
       h' = h @ t @ [SpawnTask c argv] \<and> plain t \<and> exec_prepare S p cfg h = (Inr argv, h @ t))"
proof -
  obtain x h1 where x: "exec_prepare S p cfg h = (x, h1)" by (cases "exec_prepare S p cfg h")
  from net_codeE[OF exec_prepare_within x] obtain t where "h1 = h @ t" "plain t" by auto
  with assms x show ?thesis
    by (auto simp: proxy_exec_def io_bind_run io_try_run
        split: sum.splits failure.splits option.splits)
qed

subsection \<open>Reloading\<close>

lemma renewed:
  "task p = None \<Longrightarrow> task new = None \<Longrightarrow>
    p\<lparr>px_env := px_env new, opt := opt new, sender := sender new, rx := rx new\<rparr> = (new :: proxy)"
  by (cases p; cases new) simp

definition reload_failed :: "sys \<Rightarrow> proxy \<Rightarrow> proxy_raw_config \<Rightarrow> cevent list \<Rightarrow> error + unit \<Rightarrow> proxy
    \<Rightarrow> cevent list \<Rightarrow> bool" where
  "reload_failed S new cfg h r p' h' \<longleftrightarrow>
     (\<exists>e e' h1 x. exec_prepare S new cfg h = (Inl (Error e), h1) \<and> p' = new \<and> r = Inl e' \<and>
        clear_bridge S (px_env new) h1 = (x, h'))"

definition reload_done :: "sys \<Rightarrow> proxy \<Rightarrow> proxy_raw_config \<Rightarrow> cevent list \<Rightarrow> error + unit \<Rightarrow> proxy
    \<Rightarrow> cevent list \<Rightarrow> bool" where
  "reload_done S new cfg h r p' h' \<longleftrightarrow>
     (\<exists>argv c h1. exec_prepare S new cfg h = (Inr argv, h1) \<and> rx new = Some c \<and> r = Inr () \<and>
        p' = new\<lparr>rx := None, task := Some c\<rparr> \<and> h' = h1 @ [SpawnTask c argv])"

lemma proxy_reload_cases:
  assumes "proxy_inv p h" and "proxy_reload S p cfg h = (Inr (r, p'), h')"
  obtains
    (stop_failed) e where "proxy_stop S p h = (Inr (Inl e, p'), h')" "r = Inl e"
  | (no_ports) "proxy_stop S p h = (Inr (Inr (), p'), h')" "r = Inr ()" "prc_proxy_ports cfg = None"
  | (failed) p1 h1 new h2 where "proxy_stop S p h = (Inr (Inr (), p1), h1)" "prc_proxy_ports cfg \<noteq> None"
      "proxy_new S (verbose (opt p)) h1 = (Inr new, h2)" "reload_failed S new cfg h2 r p' h'"
  | (served) p1 h1 new h2 where "proxy_stop S p h = (Inr (Inr (), p1), h1)" "prc_proxy_ports cfg \<noteq> None"
      "proxy_new S (verbose (opt p)) h1 = (Inr new, h2)" "reload_done S new cfg h2 r p' h'"
proof -
  from assms(2) obtain r1 p1 h1 where stop: "proxy_stop S p h = (Inr (r1, p1), h1)"
    unfolding proxy_reload_def by (auto elim!: io_bind_Inr)
  from proxy_stop_inv[OF assms(1) this] have p1: "task p1 = None" "opt p1 = opt p" by simp_all
  show thesis
  proof (cases r1)
    case (Inl e)
    with assms(2) stop show thesis by (intro stop_failed) (auto simp: proxy_reload_def)
  next
    case r1: (Inr u)
    show thesis
    proof (cases "prc_proxy_ports cfg")
      case None
      with assms(2) stop r1 show thesis by (intro no_ports) (auto simp: proxy_reload_def)
    next
      case (Some ports)
      with assms(2) stop r1 p1 obtain new h2 where new: "proxy_new S (verbose (opt p)) h1 = (Inr new, h2)"
        by (auto simp: proxy_reload_def elim!: io_bind_Inr)
      then have "task new = None" by (rule proxy_new_run) simp
      with assms(2) stop r1 p1 Some new renewed[OF p1(1) this] obtain r2 p2 h3 where
        exec: "proxy_exec S new cfg h2 = (Inr (r2, p2), h3)" and
        rest: "(case r2 of Inl e \<Rightarrow> io_bind (io_try (clear_bridge S (px_env p2))) (\<lambda>r2. case r2 of
                       Inl e2 \<Rightarrow> io_ok (Inl e2, p2)
                     | Inr _ \<Rightarrow> io_ok (Inl e, p2))
               | Inr _ \<Rightarrow> io_ok (Inr (), p2)) h3 = (Inr (r, p'), h')"
        by (auto simp: proxy_reload_def elim!: io_bind_Inr)
      from proxy_exec_run[OF exec] show thesis
      proof (elim disjE exE conjE)
        fix e t
        assume "r2 = Inl e" "p2 = new" "exec_prepare S new cfg h2 = (Inl (Error e), h3)"
        with rest have "reload_failed S new cfg h2 r p' h'"
          unfolding reload_failed_def
          by (cases "clear_bridge S (px_env new) h3")
            (auto simp: io_bind_run io_try_run split: sum.splits failure.splits)
        with stop r1 Some new show thesis by (intro failed) simp_all
      next
        fix c argv t
        assume "r2 = Inr ()" "rx new = Some c" "p2 = new\<lparr>rx := None, task := Some c\<rparr>"
          "h3 = h2 @ t @ [SpawnTask c argv]" "exec_prepare S new cfg h2 = (Inr argv, h2 @ t)"
        with rest have "reload_done S new cfg h2 r p' h'"
          unfolding reload_done_def by auto
        with stop r1 Some new show thesis by (intro served) simp_all
      qed
    qed
  qed
qed

lemma proxy_new_inv:
  assumes "running h = {}" and "used_channels h \<subseteq> {..<length h}" and "proxy_new S v h = (Inr p, h')"
  shows "proxy_inv p h' \<and> task p = None \<and> running h' = {} \<and>
    (\<exists>c. rx p = Some c \<and> sender p = Some c \<and> c \<notin> used_channels h' \<and> c < length h')"
  using assms(3)
proof (rule proxy_new_run)
  fix t env
  assume h': "h' = h @ [NewUuid, NewChannel, OpenNetlink] @ t" and t: "plain t"
    and p: "p = \<lparr>opt = \<lparr>ipc_path = with_extension (path_join (sys_temp_dir S) (sys_uuid S h)) ''sock'',
        verbose = v\<rparr>, px_env = env, sender = Some (Suc (length h)), rx = Some (Suc (length h)),
        task = None\<rparr>"
  have "plain ([NewUuid, NewChannel, OpenNetlink] @ t)" using t by simp
  from plain_running[OF this, of h] have "running h' = running h" "used_channels h' = used_channels h"
    by (simp_all add: h')
  with assms(1,2) show ?thesis by (auto simp: proxy_inv_def p h')
qed

lemma reload_failed_inv:
  assumes "proxy_inv new h" and "task new = None" and "reload_failed S new cfg h r p' h'"
  shows "proxy_inv p' h' \<and> task p' = None \<and> running h' = {} \<and> (\<exists>e. r = Inl e)"
proof -
  from assms(3) obtain e e' h1 x where ex: "exec_prepare S new cfg h = (Inl (Error e), h1)" "p' = new"
    "r = Inl e'" and cl: "clear_bridge S (px_env new) h1 = (x, h')"
    unfolding reload_failed_def by blast
  from net_codeE[OF exec_prepare_within ex(1)] obtain t where "h1 = h @ t" "plain t" by blast
  moreover from net_codeE[OF clear_bridge_within cl] obtain s where "h' = h1 @ s" "plain s" by blast
  ultimately have "h' = h @ t @ s" "plain (t @ s)" by simp_all
  then show ?thesis
    using plain_running[of "t @ s" h] assms(1,2) ex(2,3) unfolding proxy_inv_def by fastforce
qed

lemma reload_done_inv:
  assumes "proxy_inv new h" and "task new = None" and "reload_done S new cfg h r p' h'"
    and "rx new = Some c" "sender new = Some c" "c \<notin> used_channels h" "c < length h"
  shows "proxy_inv p' h' \<and> task p' = Some c \<and> running h' = {c} \<and> r = Inr ()"
proof -
  from assms(3,4) obtain argv h1 where ex: "exec_prepare S new cfg h = (Inr argv, h1)" and
    new: "r = Inr ()" "p' = new\<lparr>rx := None, task := Some c\<rparr>" "h' = h1 @ [SpawnTask c argv]"
    unfolding reload_done_def by auto
  from net_codeE[OF exec_prepare_within ex] obtain t where t: "h1 = h @ t" "plain t" by blast
  from assms(6) plain_running[OF t(2), of h] have "running h' = insert c (running h)"
    "used_channels h' = insert c (used_channels h)"
    by (simp_all add: new(3) t(1) running_spawn used_spawn del: append_assoc)
  with assms(1,2,5,7) show ?thesis
    by (auto simp: proxy_inv_def new t(1))
qed

lemma proxy_reload_inv:
  assumes "proxy_inv p h" and "proxy_reload S p cfg h = (Inr (r, p'), h')"
  shows "proxy_inv p' h' \<and> ((\<exists>e. r = Inl e) \<longrightarrow> task p' = None) \<and>
    (r = Inr () \<longrightarrow> (task p' = None \<longleftrightarrow> prc_proxy_ports cfg = None))"
  using assms
proof (cases rule: proxy_reload_cases)
  case (stop_failed e)
  with proxy_stop_inv[OF assms(1) stop_failed(1)] show ?thesis by simp
next
  case no_ports
  with proxy_stop_inv[OF assms(1) no_ports(1)] show ?thesis by simp
next
  case (failed p1 h1 new h2)
  from proxy_stop_inv[OF assms(1) failed(1)] have "running h1 = {}" "used_channels h1 \<subseteq> {..<length h1}"
    by (simp_all add: proxy_inv_def)
  from proxy_new_inv[OF this failed(3)] have new: "proxy_inv new h2" "task new = None" by simp_all
  from reload_failed_inv[OF new failed(4)] show ?thesis by auto
next
  case (served p1 h1 new h2)
  from proxy_stop_inv[OF assms(1) served(1)] have "running h1 = {}" "used_channels h1 \<subseteq> {..<length h1}"
    by (simp_all add: proxy_inv_def)
  from proxy_new_inv[OF this served(3)] obtain c where "proxy_inv new h2" "task new = None"
    "rx new = Some c" "sender new = Some c" "c \<notin> used_channels h2" "c < length h2" by blast
  with reload_done_inv[OF _ _ served(4)] served(2) show ?thesis by auto
qed

subsection \<open>The interface of a controlled proxy\<close>

text \<open>What a controller does to a proxy: any sequence of reloads and stops, each of which
  returned. The operations are parameters.\<close>

inductive controlled ::
  "('p \<Rightarrow> 'c \<Rightarrow> ('e, (error + unit) \<times> 'p) io) \<Rightarrow> ('p \<Rightarrow> ('e, (error + unit) \<times> 'p) io)
    \<Rightarrow> 'p \<Rightarrow> 'e list \<Rightarrow> 'p \<Rightarrow> 'e list \<Rightarrow> bool"
  for rl :: "'p \<Rightarrow> 'c \<Rightarrow> ('e, (error + unit) \<times> 'p) io"
    and st :: "'p \<Rightarrow> ('e, (error + unit) \<times> 'p) io"
    and p0 :: 'p and h0 :: "'e list" where
  fresh: "controlled rl st p0 h0 p0 h0"
| reloaded: "controlled rl st p0 h0 p h \<Longrightarrow> rl p c h = (Inr (r, p'), h') \<Longrightarrow>
    controlled rl st p0 h0 p' h'"
| stopped: "controlled rl st p0 h0 p h \<Longrightarrow> st p h = (Inr (r, p'), h') \<Longrightarrow>
    controlled rl st p0 h0 p' h'"

locale proxy_control =
  fixes rl :: "'p \<Rightarrow> 'c \<Rightarrow> ('e, (error + unit) \<times> 'p) io"
    and st :: "'p \<Rightarrow> ('e, (error + unit) \<times> 'p) io"
    and inv :: "'p \<Rightarrow> 'e list \<Rightarrow> bool"
    and alive :: "'e list \<Rightarrow> nat set"
  assumes reload_keeps: "inv p h \<Longrightarrow> rl p c h = (Inr (r, p'), h') \<Longrightarrow> inv p' h'"
    and reload_error_idle: "inv p h \<Longrightarrow> rl p c h = (Inr (Inl e, p'), h') \<Longrightarrow> alive h' = {}"
    and stop_keeps: "inv p h \<Longrightarrow> st p h = (Inr (r, p'), h') \<Longrightarrow> inv p' h' \<and> alive h' = {}"
    and stop_returns: "\<exists>r p' h'. st p h = (Inr (r, p'), h')"
    and at_most_one: "inv p h \<Longrightarrow> \<exists>c. alive h \<subseteq> {c}"
begin

lemma controlled_inv: "controlled rl st p0 h0 p h \<Longrightarrow> inv p0 h0 \<Longrightarrow> inv p h"
  by (induction rule: controlled.induct) (auto dest: reload_keeps stop_keeps)

lemma shutdown:
  assumes "inv p h"
  shows "\<exists>r p' h'. st p h = (Inr (r, p'), h') \<and> alive h' = {}"
  using stop_returns[of p h] stop_keeps[OF assms] by blast

lemma controlled_one: "controlled rl st p0 h0 p h \<Longrightarrow> inv p0 h0 \<Longrightarrow> \<exists>c. alive h \<subseteq> {c}"
  by (blast dest: controlled_inv at_most_one)

end

lemma clear_bridge_returns:
  "\<exists>x t. clear_bridge S env h = (x, h @ map Exec (clear_script env) @ t) \<and>
     (x = Inr () \<or> (\<exists>e. x = Inl (Error e)))"
proof -
  from clear_bridge_run[where S = S and env = env and h = h] obtain n dels restored tl where
    "restored = h @ map Exec (clear_script env) @ [GetRoutes] @ map DelRoute dels @
       map AddRoute (save_routes env)"
    "snd (clear_bridge S env h) = restored @ replicate n QueryGateway @ tl"
    and res: "case fst (clear_bridge S env h) of
        Inl e \<Rightarrow> n = 5 \<and> tl = [] \<and> e = Error (Anyhow ''tried 5 times but not get gateway'')
      | Inr _ \<Rightarrow> \<exists>gw. 0 < n \<and> sys_gateway S (restored @ replicate (n - 1) QueryGateway) = Inr gw \<and>
          tl = (if list_all (\<lambda>i. i = 0) (gw_mac_octets gw) then []
            else [Exec (arp_set (ip_to_string (gw_ip gw)) (gw_mac gw) (device env))])"
    by blast
  moreover from res have "fst (clear_bridge S env h) = Inr () \<or> (\<exists>e. fst (clear_bridge S env h) = Inl (Error e))"
    by (cases "fst (clear_bridge S env h)") simp_all
  ultimately show ?thesis by (cases "clear_bridge S env h") auto
qed

lemma proxy_stop_returns: "\<exists>r p' h'. proxy_stop S p h = (Inr (r, p'), h')"
proof (cases "task p")
  case None
  then show ?thesis by (simp add: proxy_stop_idle)
next
  case (Some c)
  let ?h = "case sender p of Some c \<Rightarrow> h @ [SendStop c] | None \<Rightarrow> h"
  obtain x t where "clear_bridge S (px_env p) ?h = (x, ?h @ map Exec (clear_script (px_env p)) @ t)"
    "x = Inr () \<or> (\<exists>e. x = Inl (Error e))" using clear_bridge_returns by blast
  with Some show ?thesis
    by (cases "sender p"; cases "sys_join_task S (?h @ map Exec (clear_script (px_env p)) @ t) c")
      (auto simp: proxy_stop_def Let_def io_bind_run io_try_run)
qed

interpretation sub_proxy: proxy_control "proxy_reload S" "proxy_stop S" proxy_inv running for S
proof unfold_locales
  show "\<exists>r p' h'. proxy_stop S p h = (Inr (r, p'), h')" for p h by (rule proxy_stop_returns)
  show "\<exists>c. running h \<subseteq> {c}" if "proxy_inv p h" for p h
    using that by (cases "task p") (auto simp: proxy_inv_def)
  show "running h' = {}" if "proxy_inv p h" and "proxy_reload S p c h = (Inr (Inl e, p'), h')"
    for p h c e p' h'
    using proxy_reload_inv[OF that] by (auto simp: proxy_inv_def)
qed (auto dest: proxy_reload_inv proxy_stop_inv)

subsection \<open>Lifecycle\<close>

text \<open>At most one sub proxy runs. However a controller reloads and stops a proxy, and
  whatever fails on the way, the sub proxies whose task was spawned and not told to stop are
  exactly the one the state holds, whose channel the state can still signal.\<close>

theorem one_sub_proxy:
  assumes "proxy_new S v [] = (Inr p0, h0)"
    and "controlled (proxy_reload S) (proxy_stop S) p0 h0 p h"
  shows "running h = set_option (task p) \<and> (task p = None \<or> sender p = task p) \<and>
     (\<exists>r p' h'. proxy_stop S p h = (Inr (r, p'), h') \<and> running h' = {})"
proof -
  have "running ([] :: cevent list) = {}" "used_channels [] \<subseteq> {..<length ([] :: cevent list)}"
    by (simp_all add: running_def used_channels_def)
  from proxy_new_inv[OF this assms(1)] have "proxy_inv p0 h0" by simp
  from sub_proxy.controlled_inv[OF assms(2) this] have inv: "proxy_inv p h" .
  with sub_proxy.shutdown[OF this] show ?thesis by (auto simp: proxy_inv_def)
qed

text \<open>Stopping is total, ordered and idempotent. Stopping a running sub proxy always returns:
  its own channel is signalled first, then the whole clean-up script runs, then its task is
  awaited; afterwards the state holds no task and no sender, and stopping again does nothing.
  Errors of the clean-up and of the task are ignored; only a failed join is reported.\<close>

theorem proxy_stop_effects:
  assumes "proxy_inv p h" and "task p = Some c"
  shows "\<exists>t. proxy_stop S p h =
      (Inr (map_sum id (\<lambda>_. ()) (sys_join_task S (h @ SendStop c # map Exec (clear_script (px_env p)) @ t) c),
            p\<lparr>task := None, sender := None\<rparr>),
       h @ SendStop c # map Exec (clear_script (px_env p)) @ t @ [AwaitTask c]) \<and>
     proxy_stop S (p\<lparr>task := None, sender := None\<rparr>) h' = (Inr (Inr (), p\<lparr>task := None, sender := None\<rparr>), h')"
proof -
  from assms have s: "sender p = Some c" by (simp add: proxy_inv_def)
  obtain r p' h2 where run: "proxy_stop S p h = (Inr (r, p'), h2)" using proxy_stop_returns by blast
  from proxy_stop_run[OF assms(2) s this] obtain t x where
    p': "p' = p\<lparr>task := None, sender := None\<rparr>" and h2: "h2 = h @ SendStop c # t @ [AwaitTask c]" and
    r: "r = map_sum id (\<lambda>_. ()) (sys_join_task S (h @ SendStop c # t) c)" and
    cl: "clear_bridge S (px_env p) (h @ [SendStop c]) = (x, h @ SendStop c # t)" by blast
  from clear_bridge_returns[of S "px_env p" "h @ [SendStop c]"] cl
  obtain t' where "t = map Exec (clear_script (px_env p)) @ t'" by auto
  then show ?thesis using run p' h2 r by (intro exI[of _ t']) (simp add: proxy_stop_idle)
qed

lemma exec_prepare_Inr:
  assumes "exec_prepare S p cfg h = (Inr argv, h')"
  obtains exe where "argv = sub_proxy_argv p exe"
    "set_net S (px_env p) (prc_proxy_ports cfg) (prc_listen_port cfg) (prc_safe_mode cfg)
       (h @ [UdsBind (ipc_path (opt p)), SpawnUdsServer (ipc_path (opt p)) cfg, CurrentExe]) = (Inr (), h')"
proof -
  let ?b = "UdsBind (ipc_path (opt p))" and ?u = "SpawnUdsServer (ipc_path (opt p)) cfg"
  from assms obtain u h1 where
    bind: "io_call ?b (\<lambda>h. sys_uds_bind S h (ipc_path (opt p))) h = (Inr u, h1)" and
    rest: "io_bind (io_emit ?u) (\<lambda>_. io_bind (io_try (io_call CurrentExe (sys_current_exe S))) (\<lambda>r.
     io_bind (io_lift (case r of
         Inl e \<Rightarrow> bail (''failed to get current exe path,error : '' @ error_text e)
       | Inr path \<Rightarrow> Inr path)) (\<lambda>exe_path.
     io_bind (set_net S (px_env p) (prc_proxy_ports cfg) (prc_listen_port cfg)
         (prc_safe_mode cfg)) (\<lambda>_. io_ok (sub_proxy_argv p exe_path))))) h1 = (Inr argv, h')"
    unfolding exec_prepare_script by (rule io_bind_Inr)
  from bind have h1: "h1 = h @ [?b]" by simp
  from rest obtain u1 h1' r h2 exe h3 u2 h4 where
    u1: "io_emit ?u h1 = (Inr u1, h1')" and
    r: "io_try (io_call CurrentExe (sys_current_exe S)) h1' = (Inr r, h2)" and
    exe: "io_lift (case r of
         Inl e \<Rightarrow> bail (''failed to get current exe path,error : '' @ error_text e)
       | Inr path \<Rightarrow> Inr path) h2 = (Inr exe, h3)" and
    net: "set_net S (px_env p) (prc_proxy_ports cfg) (prc_listen_port cfg) (prc_safe_mode cfg) h3 = (Inr u2, h4)"
    and fin: "io_ok (sub_proxy_argv p exe) h4 = (Inr argv, h')"
    by (elim io_bind_Inr)
  have "h3 = h1 @ [?u, CurrentExe]"
    using u1 r exe by (cases "sys_current_exe S (h1 @ [?u])") (auto simp: io_try_run)
  with net fin h1 show thesis by (intro that[of exe]) simp_all
qed

lemma proxy_stop_prefix:
  assumes "proxy_inv p h" and "proxy_stop S p h = (Inr (r, p1), h1)"
  shows "prefix h h1"
proof (cases "task p")
  case (Some c)
  with assms(1) have "sender p = Some c" by (simp add: proxy_inv_def)
  from proxy_stop_run[OF Some this assms(2)] show ?thesis by auto
qed (use assms(2) in \<open>simp add: proxy_stop_idle\<close>)

text \<open>What a successful reload with proxied ports does, from the stop of the old sub proxy on: a new
  environment is made, the server of the configuration is started, the network is set up, and the
  sub proxy spawned.\<close>

lemma reload_set_up:
  assumes "proxy_inv p h" and "proxy_reload S p cfg h = (Inr (Inr (), p'), h')"
    and "prc_proxy_ports cfg = Some ports"
  obtains c exe p1 h1 g' t where "task p' = Some c" "running h' = {c}"
    "proxy_stop S p h = (Inr (Inr (), p1), h1)" "prefix h h1"
    "net_env_new S (h1 @ [NewUuid, NewChannel, OpenNetlink]) = (Inr (px_env p'), g')" "prefix h1 g'"
    "verbose (opt p') = verbose (opt p)"
    "set_net S (px_env p') (Some ports) (prc_listen_port cfg) (prc_safe_mode cfg)
       (g' @ [UdsBind (ipc_path (opt p')), SpawnUdsServer (ipc_path (opt p')) cfg, CurrentExe])
     = (Inr (), g' @ [UdsBind (ipc_path (opt p')), SpawnUdsServer (ipc_path (opt p')) cfg, CurrentExe] @ t)"
    "h' = g' @ [UdsBind (ipc_path (opt p')), SpawnUdsServer (ipc_path (opt p')) cfg, CurrentExe] @ t @
       [SpawnTask c (sub_proxy_argv p' exe)]"
  using assms(1,2)
proof (cases rule: proxy_reload_cases)
  case (served p1 h1 new h2)
  let ?uds = "[UdsBind (ipc_path (opt new)), SpawnUdsServer (ipc_path (opt new)) cfg, CurrentExe]"
  from served(4) obtain argv c h3 where ex: "exec_prepare S new cfg h2 = (Inr argv, h3)"
    and p': "p' = new\<lparr>rx := None, task := Some c\<rparr>" and h': "h' = h3 @ [SpawnTask c argv]"
    unfolding reload_done_def by blast
  from ex obtain exe where argv: "argv = sub_proxy_argv new exe" and
    net: "set_net S (px_env new) (prc_proxy_ports cfg) (prc_listen_port cfg) (prc_safe_mode cfg) (h2 @ ?uds) = (Inr (), h3)"
    by (rule exec_prepare_Inr)
  from net_codeE[OF set_net_within net] obtain t where t: "h3 = (h2 @ ?uds) @ t" by blast
  from served(3) obtain t' where new: "net_env_new S (h1 @ [NewUuid, NewChannel, OpenNetlink]) = (Inr (px_env new), h2)"
    "verbose (opt new) = verbose (opt p)" "h2 = h1 @ [NewUuid, NewChannel, OpenNetlink] @ t'"
    by (rule proxy_new_run) simp
  have "prefix h h1" using proxy_stop_prefix[OF assms(1) served(1)] .
  moreover have "running h' = {c}" using proxy_reload_inv[OF assms(1,2)] by (auto simp: p' proxy_inv_def)
  moreover have "sub_proxy_argv p' exe = sub_proxy_argv new exe" by (simp add: sub_proxy_argv_def p')
  ultimately show thesis
    using new net t assms(3) served(1)
    by (intro that[of c p1 h1 h2 t exe]) (simp_all add: p' h' argv)
qed (use assms(3) in \<open>auto simp: reload_failed_def\<close>)

text \<open>C20: what a successful reload with proxied ports leaves. A single sub proxy runs, the one just
  spawned. The environment of the proxy is the one that was made for it after the old sub proxy was
  stopped, and the sub proxy was started in its namespace, with the path of the Unix socket at which
  the server hands out exactly the given configuration; between the two, the redirection rules for
  the configured ports and listen port were installed in that environment; the verbosity is kept.\<close>

theorem reload_starts:
  assumes "proxy_inv p h" and "proxy_reload S p cfg h = (Inr (Inr (), p'), h')"
    and "prc_proxy_ports cfg = Some ports"
  shows "\<exists>c exe mac p1 h1 g t. task p' = Some c \<and> running h' = {c} \<and>
     proxy_stop S p h = (Inr (Inr (), p1), h1) \<and> prefix h h1 \<and>
     net_env_new S (h1 @ [NewUuid, NewChannel, OpenNetlink]) = (Inr (px_env p'), g) \<and>
     h' = g @ t @ [SpawnTask c (sub_proxy_argv p' exe)] \<and>
     SpawnUdsServer (ipc_path (opt p')) cfg \<in> set t \<and>
     Exec ` set (set_iptables (px_env p') (Some ports) (dec (unat (prc_listen_port cfg))) mac) \<subseteq> set t \<and>
     verbose (opt p') = verbose (opt p)"
proof -
  from assms obtain c exe p1 h1 g t where
    stop: "task p' = Some c" "running h' = {c}" "proxy_stop S p h = (Inr (Inr (), p1), h1)" "prefix h h1"
      "net_env_new S (h1 @ [NewUuid, NewChannel, OpenNetlink]) = (Inr (px_env p'), g)"
      "verbose (opt p') = verbose (opt p)" and
    net: "set_net S (px_env p') (Some ports) (prc_listen_port cfg) (prc_safe_mode cfg)
       (g @ [UdsBind (ipc_path (opt p')), SpawnUdsServer (ipc_path (opt p')) cfg, CurrentExe])
     = (Inr (), (g @ [UdsBind (ipc_path (opt p')), SpawnUdsServer (ipc_path (opt p')) cfg, CurrentExe]) @ t)" and
    h': "h' = g @ ([UdsBind (ipc_path (opt p')), SpawnUdsServer (ipc_path (opt p')) cfg, CurrentExe] @ t) @
       [SpawnTask c (sub_proxy_argv p' exe)]"
    by (rule reload_set_up) auto
  from set_net_iptables[OF net] obtain mac where
    "Exec ` set (set_iptables (px_env p') (Some ports) (dec (unat (prc_listen_port cfg))) mac) \<subseteq> set t" by blast
  with stop h' show ?thesis
    by (intro exI[of _ c] exI[of _ exe] exI[of _ mac] exI[of _ p1] exI[of _ h1] exI[of _ g]
        exI[of _ "[UdsBind (ipc_path (opt p')), SpawnUdsServer (ipc_path (opt p')) cfg, CurrentExe] @ t"]) auto
qed

text \<open>C21: a failed reload cleans up. When a reload returns an error, no sub proxy is running and
  the last thing done was the tear-down: of the new environment, or, when the old task could
  not be joined, of the old one.\<close>

theorem reload_error_cleans_up:
  assumes "proxy_inv p h" and "proxy_reload S p cfg h = (Inr (Inl e, p'), h')"
  shows "task p' = None \<and> running h' = {} \<and>
     ((\<exists>h1 x. clear_bridge S (px_env p') h1 = (x, h')) \<or>
      (\<exists>c h1 h2 x. task p = Some c \<and> clear_bridge S (px_env p) h1 = (x, h2) \<and> h' = h2 @ [AwaitTask c]))"
proof -
  have "(\<exists>h1 x. clear_bridge S (px_env p') h1 = (x, h')) \<or>
      (\<exists>c h1 h2 x. task p = Some c \<and> clear_bridge S (px_env p) h1 = (x, h2) \<and> h' = h2 @ [AwaitTask c])"
    using assms
  proof (cases rule: proxy_reload_cases)
    case (stop_failed e')
    show ?thesis
    proof (cases "task p")
      case None
      with stop_failed show ?thesis by (simp add: proxy_stop_idle)
    next
      case (Some c)
      with assms(1) have "sender p = Some c" by (simp add: proxy_inv_def)
      from proxy_stop_run[OF Some this stop_failed(1)] Some show ?thesis by fastforce
    qed
  next
    case (failed p1 h1 new h2)
    then show ?thesis unfolding reload_failed_def by blast
  qed (auto simp: reload_done_def)
  with proxy_reload_inv[OF assms] show ?thesis by (auto simp: proxy_inv_def)
qed

subsection \<open>Panics\<close>

abbreviation reload_code :: "(cevent, 'a) io \<Rightarrow> bool" where
  "reload_code \<equiv> within (\<lambda>_. True) (insert ''unwrap netlink'' net_panics)"

lemma net_reload_code: "net_code m \<Longrightarrow> reload_code m"
  by (erule within_mono) auto

lemma proxy_stop_code: "reload_code (proxy_stop S p)"
  unfolding proxy_stop_def Let_def
  by (intro within_intros net_reload_code clear_bridge_within) simp_all

lemma proxy_new_code: "reload_code (proxy_new S v)"
proof -
  have "reload_code (new_uuid S)" "reload_code new_channel"
    by (auto intro!: withinI simp: new_uuid_def new_channel_def)
  then show ?thesis
    unfolding proxy_new_def Let_def
    by (intro within_intros net_reload_code[OF net_env_new_within]) simp_all
qed

lemma proxy_exec_code: "rx p = Some c \<Longrightarrow> reload_code (proxy_exec S p cfg)"
  unfolding proxy_exec_def
  by (intro within_intros net_reload_code[OF exec_prepare_within]) simp_all

lemma proxy_stop_task: "proxy_stop S p h = (Inr (r, p'), h') \<Longrightarrow> task p' = None"
  unfolding proxy_stop_def Let_def
  by (auto split: option.splits sum.splits elim!: io_bind_Inr)

lemma exec_and_clear_code:
  assumes "rx p2 = Some c"
  shows "reload_code (io_bind (proxy_exec S p2 cfg) (\<lambda>(r, p). case r of
                 Inl e \<Rightarrow>
                   io_bind (io_try (clear_bridge S (px_env p))) (\<lambda>r2. case r2 of
                       Inl e2 \<Rightarrow> io_ok (Inl e2, p)
                     | Inr _ \<Rightarrow> io_ok (Inl e, p))
               | Inr _ \<Rightarrow> io_ok (Inr (), p)))"
  by (intro within_intros proxy_exec_code[OF assms] net_reload_code[OF clear_bridge_within])

lemma proxy_new_rx: "proxy_new S v h = (Inr new, h') \<Longrightarrow> \<exists>c. rx new = Some c"
  by (erule proxy_new_run) simp

lemma proxy_reload_code: "reload_code (proxy_reload S p cfg)"
  unfolding proxy_reload_def
proof (rule within_bind_strong[OF proxy_stop_code])
  fix a h0 h1
  assume a: "proxy_stop S p h0 = (Inr a, h1)"
  obtain r p1 where rp: "a = (r, p1)" by (cases a)
  with a have p1: "task p1 = None" by (simp add: proxy_stop_task)
  have renew: "reload_code (io_bind (io_bind (proxy_new S (verbose (opt p1))) (\<lambda>new.
                        io_ok (p1\<lparr>px_env := px_env new, opt := opt new, sender := sender new, rx := rx new\<rparr>)))
      (\<lambda>p. io_bind (proxy_exec S p cfg) (\<lambda>(r, p). case r of
                 Inl e \<Rightarrow>
                   io_bind (io_try (clear_bridge S (px_env p))) (\<lambda>r2. case r2 of
                       Inl e2 \<Rightarrow> io_ok (Inl e2, p)
                     | Inr _ \<Rightarrow> io_ok (Inl e, p))
               | Inr _ \<Rightarrow> io_ok (Inr (), p))))"
  proof (rule within_bind_strong)
    fix p2 h2 h3
    assume "io_bind (proxy_new S (verbose (opt p1))) (\<lambda>new.
                        io_ok (p1\<lparr>px_env := px_env new, opt := opt new, sender := sender new, rx := rx new\<rparr>)) h2
        = (Inr p2, h3)"
    then obtain new h4 where "proxy_new S (verbose (opt p1)) h2 = (Inr new, h4)" and "rx p2 = rx new"
      by (auto elim!: io_bind_Inr)
    with proxy_new_rx obtain c where "rx p2 = Some c" by metis
    then show "reload_code (io_bind (proxy_exec S p2 cfg) (\<lambda>(r, p). case r of
                 Inl e \<Rightarrow>
                   io_bind (io_try (clear_bridge S (px_env p))) (\<lambda>r2. case r2 of
                       Inl e2 \<Rightarrow> io_ok (Inl e2, p)
                     | Inr _ \<Rightarrow> io_ok (Inl e, p))
               | Inr _ \<Rightarrow> io_ok (Inr (), p)))" by (rule exec_and_clear_code)
  qed (intro within_intros proxy_new_code)
  show "reload_code (case a of (r, p) \<Rightarrow> (case r of
         Inl e \<Rightarrow> io_ok (Inl e, p)
       | Inr _ \<Rightarrow>
           if prc_proxy_ports cfg = None then io_ok (Inr (), p)
           else
             io_bind (if task p = None
                      then io_bind (proxy_new S (verbose (opt p))) (\<lambda>new.
                        io_ok (p\<lparr>px_env := px_env new, opt := opt new, sender := sender new, rx := rx new\<rparr>))
                      else io_ok p) (\<lambda>p.
             io_bind (proxy_exec S p cfg) (\<lambda>(r, p). case r of
                 Inl e \<Rightarrow>
                   io_bind (io_try (clear_bridge S (px_env p))) (\<lambda>r2. case r2 of
                       Inl e2 \<Rightarrow> io_ok (Inl e2, p)
                     | Inr _ \<Rightarrow> io_ok (Inl e, p))
               | Inr _ \<Rightarrow> io_ok (Inr (), p)))))"
    using renew by (cases r) (auto simp: rp p1 intro!: within_intros)
qed

text \<open>What can make a reload panic. A reload panics only when the network environment lacks
  something it unwraps: the netlink connection, a default interface with an IPv4 address, the
  routes, the new device, or a client to ping with. In particular the receiver it takes for the new task is always
  there.\<close>

theorem reload_panics:
  assumes "proxy_reload S p cfg h = (Inl (Panic m), h')"
  shows "m \<in> {''unwrap netlink'', ''unwrap default interface'', ''unwrap ipv4'', ''unwrap routes'',
     ''unwrap interface'', ''unwrap mac'', ''unwrap arp interface'', ''unwrap arp ip'',
     ''unwrap ping client''} \<and>
     m \<noteq> ''unwrap rx''"
proof -
  from withinE[OF proxy_reload_code assms] have "m \<in> insert ''unwrap netlink'' net_panics" by blast
  then show ?thesis by (auto simp: net_panics_def)
qed

subsection \<open>Success\<close>

lemma reload_fresh:
  assumes "task p = None" and "prc_proxy_ports cfg \<noteq> None"
    and new: "proxy_new S (verbose (opt p)) h = (Inr new, h2)"
    and "exec_prepare S new cfg h2 = (Inr argv, h3)" and "rx new = Some c"
  shows "proxy_reload S p cfg h = (Inr (Inr (), new\<lparr>rx := None, task := Some c\<rparr>), h3 @ [SpawnTask c argv])"
proof -
  from new have "task new = None" by (rule proxy_new_run) simp
  from renewed[OF assms(1) this]
  have renew: "io_bind (proxy_new S (verbose (opt p))) (\<lambda>new.
      io_ok (p\<lparr>px_env := px_env new, opt := opt new, sender := sender new, rx := rx new\<rparr>)) h = (Inr new, h2)"
    using new by simp
  have "proxy_exec S new cfg h2 = (Inr (Inr (), new\<lparr>rx := None, task := Some c\<rparr>), h3 @ [SpawnTask c argv])"
    using assms(4,5) by (simp add: proxy_exec_def io_bind_run io_try_run)
  moreover from assms(2) obtain ports where "prc_proxy_ports cfg = Some ports" by blast
  ultimately show ?thesis using renew assms(1)
    unfolding proxy_reload_def by (simp add: proxy_stop_idle)
qed


lemma exec_prepare_succeeds:
  assumes "cooperative S (px_env p)"
  shows "\<exists>argv h'. exec_prepare S p cfg h = (Inr argv, h')"
proof -
  let ?h = "h @ [UdsBind (ipc_path (opt p)), SpawnUdsServer (ipc_path (opt p)) cfg]"
  from assms obtain exe where "sys_uds_bind S h (ipc_path (opt p)) = Inr ()" "sys_current_exe S ?h = Inr exe"
    unfolding cooperative_def by blast
  moreover obtain h' where "set_net S (px_env p) (prc_proxy_ports cfg) (prc_listen_port cfg) (prc_safe_mode cfg)
      (?h @ [CurrentExe]) = (Inr (), h')" using set_net_succeeds[OF assms] by blast
  ultimately show ?thesis by (simp add: exec_prepare_script io_bind_run io_try_run)
qed


subsection \<open>Concrete lifecycles\<close>

definition demo_proxy :: proxy where
  "demo_proxy = \<lparr>opt = \<lparr>ipc_path = ''/tmp/123e4567-e89b-42d3-a456-426614174000.sock'', verbose = 1\<rparr>,
     px_env = demo_env, sender = Some 1, rx = Some 1, task = None\<rparr>"

lemma demo_uuid: "sys_uuid demo_sys h = ''123e4567-e89b-42d3-a456-426614174000''"
  "sys_temp_dir demo_sys = ''/tmp/''" "sys_open_netlink demo_sys h = Inr ()"
  "sys_uds_bind demo_sys h path = Inr ()" "sys_current_exe demo_sys h = Inr ''/usr/bin/tproxy''"
  "sys_join_task demo_sys h c = Inr (Inr ())"
  by (simp_all add: demo_sys_def)

lemma demo_proxy_new:
  assumes "Exec (ip_link_set_up ''123e4567-e89bv4'') \<notin> set h"
  shows "proxy_new demo_sys 1 h = (Inr (demo_proxy\<lparr>sender := Some (Suc (length h)), rx := Some (Suc (length h))\<rparr>),
     h @ [NewUuid, NewChannel, OpenNetlink, ListInterfaces, NewUuid, ListInterfaces, GetRoutes])"
  using assms
  by (simp add: proxy_new_def new_uuid_def new_channel_def io_bind_run io_unwrap_run Let_def
      demo_uuid demo_net_env_at demo_proxy_def path_join_def with_extension_def parent_dir_def
      file_name_def file_stem_def)

definition demo_start :: "cevent list" where
  "demo_start = [NewUuid, NewChannel, OpenNetlink, ListInterfaces, NewUuid, ListInterfaces, GetRoutes]"

lemma demo_started: "proxy_new demo_sys 1 [] = (Inr demo_proxy, demo_start)"
  using demo_proxy_new[of "[]"] by (simp add: demo_start_def demo_proxy_def)

lemma demo_inv: "proxy_inv demo_proxy demo_start"
  by (simp add: proxy_inv_def running_def used_channels_def demo_start_def demo_proxy_def)

lemma demo_reload_at:
  assumes "Exec (ip_link_set_up ''123e4567-e89bv4'') \<notin> set h" and "task p = None"
    and "verbose (opt p) = 1"
  shows "\<exists>p' h'. proxy_reload demo_sys p cfg h = (Inr (Inr (), p'), h')"
proof (cases "prc_proxy_ports cfg")
  case (Some ports)
  define new where "new = demo_proxy\<lparr>sender := Some (Suc (length h)), rx := Some (Suc (length h))\<rparr>"
  obtain h2 where new: "proxy_new demo_sys (verbose (opt p)) h = (Inr new, h2)"
    using demo_proxy_new[OF assms(1)] assms(3) by (simp add: new_def)
  have "cooperative demo_sys (px_env new)" using demo_cooperative by (simp add: new_def demo_proxy_def)
  from exec_prepare_succeeds[OF this] obtain argv h3 where "exec_prepare demo_sys new cfg h2 = (Inr argv, h3)"
    by blast
  from reload_fresh[OF assms(2) _ new this] Some show ?thesis by (auto simp: new_def)
qed (use assms(2) in \<open>simp add: proxy_reload_def proxy_stop_idle\<close>)

lemma demo_reload:
  "\<exists>p' h'. proxy_reload demo_sys demo_proxy demo_cfg demo_start = (Inr (Inr (), p'), h')"
  by (rule demo_reload_at) (simp_all add: demo_start_def demo_proxy_def)


theorem one_sub_proxy_witness:
  "\<exists>p' h'. proxy_reload demo_sys demo_proxy demo_cfg demo_start = (Inr (Inr (), p'), h') \<and>
     running h' = set_option (task p')"
proof -
  obtain p' h' where rl: "proxy_reload demo_sys demo_proxy demo_cfg demo_start = (Inr (Inr (), p'), h')"
    using demo_reload by blast
  have "controlled (proxy_reload demo_sys) (proxy_stop demo_sys) demo_proxy demo_start p' h'"
    using controlled.fresh rl by (rule controlled.reloaded)
  from one_sub_proxy [OF demo_started this] rl show ?thesis by blast
qed

theorem reload_starts_witness:
  "\<exists>p' h' c exe g g' t. proxy_reload demo_sys demo_proxy demo_cfg demo_start = (Inr (Inr (), p'), h') \<and>
     net_env_new demo_sys g = (Inr (px_env p'), g') \<and>
     h' = g' @ t @ [SpawnTask c (sub_proxy_argv p' exe)] \<and> running h' = {c}"
proof -
  obtain p' h' where rl: "proxy_reload demo_sys demo_proxy demo_cfg demo_start = (Inr (Inr (), p'), h')"
    using demo_reload by blast
  have "prc_proxy_ports demo_cfg = Some ''80,443''" by (simp add: demo_cfg_def)
  from reload_starts [OF demo_inv rl this] obtain c exe g g' t where
    "net_env_new demo_sys g = (Inr (px_env p'), g')" "h' = g' @ t @ [SpawnTask c (sub_proxy_argv p' exe)]"
    "running h' = {c}" by (elim exE conjE) (rule that)
  with rl show ?thesis by blast
qed

definition busy_proxy :: proxy where
  "busy_proxy = demo_proxy\<lparr>sender := Some 0, rx := None, task := Some 0\<rparr>"

definition busy_start :: "cevent list" where
  "busy_start = [NewChannel, SpawnTask 0 []]"

lemma busy_inv: "proxy_inv busy_proxy busy_start"
  by (auto simp: proxy_inv_def running_def used_channels_def busy_start_def busy_proxy_def)

theorem proxy_stop_effects_witness:
  "\<exists>r t. proxy_stop demo_sys busy_proxy busy_start = (Inr (r, busy_proxy\<lparr>task := None, sender := None\<rparr>),
     busy_start @ SendStop 0 # map Exec (clear_script demo_env) @ t @ [AwaitTask 0])"
proof -
  have "task busy_proxy = Some 0" "px_env busy_proxy = demo_env"
    by (simp_all add: busy_proxy_def demo_proxy_def)
  with proxy_stop_effects [OF busy_inv, of 0 demo_sys busy_start] show ?thesis by auto
qed

definition crashing_sys :: sys where
  "crashing_sys = demo_sys\<lparr>sys_join_task := (\<lambda>h c. Inl (External ''task panicked''))\<rparr>"

lemma crashing_reload:
  "\<exists>p' h'. proxy_reload crashing_sys busy_proxy demo_cfg busy_start = (Inr (Inl (External ''task panicked''), p'), h')"
proof -
  have "task busy_proxy = Some 0" "sender busy_proxy = Some 0" by (simp_all add: busy_proxy_def)
  moreover obtain r p' h' where
    "proxy_stop crashing_sys busy_proxy busy_start = (Inr (r, p'), h')" using proxy_stop_returns by blast
  ultimately have "proxy_stop crashing_sys busy_proxy busy_start = (Inr (Inl (External ''task panicked''), p'), h')"
    using proxy_stop_run[of busy_proxy 0 crashing_sys busy_start r p' h'] by (auto simp: crashing_sys_def)
  then show ?thesis by (simp add: proxy_reload_def)
qed

theorem reload_error_cleans_up_witness:
  "\<exists>e p' h'. proxy_reload crashing_sys busy_proxy demo_cfg busy_start = (Inr (Inl e, p'), h') \<and> running h' = {}"
proof -
  obtain p' h' where rl: "proxy_reload crashing_sys busy_proxy demo_cfg busy_start
      = (Inr (Inl (External ''task panicked''), p'), h')" using crashing_reload by blast
  from reload_error_cleans_up [OF busy_inv rl] rl show ?thesis by blast
qed

definition unprivileged_sys :: sys where
  "unprivileged_sys = demo_sys\<lparr>sys_open_netlink := (\<lambda>h. Inl (External ''no netlink''))\<rparr>"

theorem reload_panics_witness:
  "\<exists>m h'. proxy_reload unprivileged_sys demo_proxy demo_cfg demo_start = (Inl (Panic m), h') \<and> m \<noteq> ''unwrap rx''"
proof -
  have "proxy_new unprivileged_sys v h = (Inl (Panic ''unwrap netlink''), h @ [NewUuid, NewChannel, OpenNetlink])" for v h
    by (simp add: proxy_new_def new_uuid_def new_channel_def io_bind_run io_unwrap_run Let_def unprivileged_sys_def)
  then have rl: "proxy_reload unprivileged_sys demo_proxy demo_cfg demo_start
      = (Inl (Panic ''unwrap netlink''), demo_start @ [NewUuid, NewChannel, OpenNetlink])"
    by (simp add: proxy_reload_def proxy_stop_idle demo_proxy_def demo_cfg_def)
  from reload_panics [OF rl] rl show ?thesis by blast
qed

end
