(* ===== verification/Lifecycle.thy ===== *)
theory Lifecycle
  imports Proxy_Exec
begin

text \<open>
  What the controller promises about a proxy as a whole: which network namespaces its commands
  have left, and the abstract life of a proxy that \<open>proxy/exec.rs\<close> implements.
\<close>

subsection \<open>Namespaces\<close>

text \<open>The namespaces left by a history of commands: those of an \<open>ip netns add\<close> with no
  \<open>ip netns delete\<close> after it.\<close>

definition netns_step :: "string set \<Rightarrow> cevent \<Rightarrow> string set" where
  "netns_step N e = (case e of
       Exec [a, b, c, n] \<Rightarrow>
         if [a, b, c] = [''ip'', ''netns'', ''add''] then insert n N
         else if [a, b, c] = [''ip'', ''netns'', ''delete''] then N - {n} else N
     | _ \<Rightarrow> N)"

definition namespaces :: "cevent list \<Rightarrow> string set" where
  "namespaces h = foldl netns_step {} h"

text \<open>The events that touch no namespace but \<open>n\<close>, and do not delete it either.\<close>

definition only_adds :: "string \<Rightarrow> cevent \<Rightarrow> bool" where
  "only_adds n e \<longleftrightarrow> (\<forall>N. netns_step N e = N \<or> netns_step N e = insert n N)"

definition no_netns :: "cevent \<Rightarrow> bool" where
  "no_netns e \<longleftrightarrow> (\<forall>N. netns_step N e = N)"

lemma netns_step_add [simp]: "netns_step N (Exec (ip_netns_add n)) = insert n N"
  by (simp add: netns_step_def ip_netns_add_def)

lemma netns_step_del [simp]: "netns_step N (Exec (ip_netns_del n)) = N - {n}"
  by (simp add: netns_step_def ip_netns_del_def)

lemma no_netns_events [simp]:
  "no_netns ListInterfaces" "no_netns QueryGateway" "no_netns GetRoutes" "no_netns (DelRoute m)"
  "no_netns (AddRoute m)" "no_netns (FindArpInterface i)" "no_netns (SendArp i a)" "no_netns (StartPing g)"
  "no_netns NewUuid" "no_netns OpenNetlink" "no_netns NewChannel" "no_netns (UdsBind p)"
  "no_netns (SpawnUdsServer p c)" "no_netns (RemoveFile p)" "no_netns CurrentExe" "no_netns (SpawnTask t argv)"
  "no_netns (SendStop t)" "no_netns (AwaitTask t)" "no_netns (SpawnConfigServer t)"
  "no_netns (SendShutdown t)" "no_netns (AwaitConfigServer t)" "no_netns (RunProxyMain p)"
  "no_netns (RegisterSignal k)" "no_netns WaitSignals"
  by (simp_all add: no_netns_def netns_step_def)

lemma no_netns_only_adds: "no_netns e \<Longrightarrow> only_adds n e"
  by (simp add: no_netns_def only_adds_def)

lemma only_adds_add [simp]: "only_adds n (Exec (ip_netns_add n))"
  by (simp add: only_adds_def)

lemma namespaces_append: "namespaces (h @ t) = foldl netns_step (namespaces h) t"
  by (simp add: namespaces_def)

lemma no_netns_fold: "list_all no_netns t \<Longrightarrow> foldl netns_step N t = N"
  by (induction t arbitrary: N) (auto simp: no_netns_def)

lemma namespaces_no_netns: "list_all no_netns t \<Longrightarrow> namespaces (h @ t) = namespaces h"
  by (simp add: namespaces_append no_netns_fold)

lemma only_adds_fold:
  "list_all (only_adds n) t \<Longrightarrow> foldl netns_step N t = N \<or> foldl netns_step N t = insert n N"
proof (induction t arbitrary: N)
  case (Cons e t)
  from Cons.prems have e: "netns_step N e = N \<or> netns_step N e = insert n N"
    and t: "list_all (only_adds n) t" unfolding only_adds_def by simp_all
  from e Cons.IH[OF t, of "netns_step N e"] show ?case by auto
qed simp

lemma only_adds_added:
  assumes "list_all (only_adds n) t" and "Exec (ip_netns_add n) \<in> set t"
  shows "foldl netns_step N t = insert n N"
proof -
  from assms(2) obtain xs ys where t: "t = xs @ Exec (ip_netns_add n) # ys"
    by (auto simp: in_set_conv_decomp)
  with assms(1) have "list_all (only_adds n) xs" "list_all (only_adds n) ys" by auto
  from only_adds_fold[OF this(1), of N] only_adds_fold[OF this(2), of "insert n N"] this(2)
    only_adds_fold[OF this(2), of "insert n (foldl netns_step N xs)"]
  show ?thesis by (auto simp: t)
qed

subsection \<open>What each command does to the namespaces\<close>

lemma only_adds_scripts:
  "c \<in> set (link_script env) \<Longrightarrow> only_adds (netns env) (Exec c)"
  "c \<in> set (route_script env gw n) \<Longrightarrow> no_netns (Exec c)"
  "c \<in> set (set_iptables env ports prt mac) \<Longrightarrow> no_netns (Exec c)"
  "c \<in> set (set_iptables_safe env mac) \<Longrightarrow> no_netns (Exec c)"
  by (auto simp: link_script_def route_script_def set_iptables_def set_iptables_safe_def bash_c_def
      ip_link_add_bridge_def ip_link_add_veth_peer_def ip_netns_def ip_link_set_up_def
      ip_link_set_master_def ip_address_def arp_set_def ip_route_add_def clear_ebtables_def Let_def
      no_netns_def netns_step_def only_adds_def ip_netns_add_def split: option.splits)

lemma no_netns_commands [simp]:
  "no_netns (Exec (ip_address a b c))" "no_netns (Exec (bash_c s))" "no_netns (Exec (arp_set x y z))"
  "no_netns (Exec (ip_netns n cmd))" "no_netns (Exec clear_ebtables)" "no_netns (Exec (ip_link_del_bridge n))"
  by (auto simp: no_netns_def netns_step_def ip_address_def bash_c_def arp_set_def ip_netns_def
      clear_ebtables_def ip_link_del_bridge_def split: list.splits)


lemma only_adds_no_netns [simp]: "no_netns e \<Longrightarrow> only_adds n e"
  by (rule no_netns_only_adds)

subsection \<open>What the network code does to the namespaces\<close>

text \<open>What the set-up of the network does: commands, lookups, route deletions, ARP and ping.\<close>

fun set_up_event :: "string \<Rightarrow> cevent \<Rightarrow> bool" where
  "set_up_event n (Exec c) = only_adds n (Exec c)"
| "set_up_event n ListInterfaces = True"
| "set_up_event n QueryGateway = True"
| "set_up_event n GetRoutes = True"
| "set_up_event n (DelRoute msg) = True"
| "set_up_event n (FindArpInterface i) = True"
| "set_up_event n (SendArp i msg) = True"
| "set_up_event n (StartPing addr) = True"
| "set_up_event n _ = False"

lemma set_up_only_adds: "set_up_event n e \<Longrightarrow> only_adds n e"
  by (cases e) auto

abbreviation adds_code :: "string \<Rightarrow> (cevent, 'a) io \<Rightarrow> bool" where
  "adds_code n \<equiv> within (set_up_event n) UNIV"

lemma execute_adds [within_intros]: "only_adds n (Exec c) \<Longrightarrow> adds_code n (execute S c)"
  unfolding execute_def by (cases c) (auto intro!: within_intros)

lemma execute_all_adds:
  "(\<And>c. c \<in> set cs \<Longrightarrow> only_adds n (Exec c)) \<Longrightarrow> adds_code n (execute_all S cs)"
  by (induction cs) (auto intro!: within_intros)

lemma execute_all_logged_adds:
  "(\<And>c. c \<in> set cs \<Longrightarrow> only_adds n (Exec c)) \<Longrightarrow> adds_code n (execute_all_with_log_error S cs)"
  by (induction cs) (auto intro!: within_intros)

lemma get_routes_adds [within_intros]: "adds_code n (get_routes_noblock S)"
  unfolding get_routes_noblock_def by (intro within_intros) simp

lemma del_routes_adds [within_intros]: "adds_code n (del_routes_noblock S msgs)"
proof (rule withinI)
  fix h
  from del_routes_run[of S msgs h] show "\<exists>t. snd (del_routes_noblock S msgs h) = h @ t \<and>
      list_all (set_up_event n) t \<and> (\<forall>x. fst (del_routes_noblock S msgs h) = Inl (Panic x) \<longrightarrow> x \<in> UNIV)"
    by (auto simp: list_all_iff)
qed

lemma gateway_tries_adds [within_intros]: "adds_code n (gateway_tries S k)"
  by (induction k) (auto intro!: within_intros)

lemma list_interfaces_adds [within_intros]: "adds_code n (list_interfaces S)"
  by (rule withinI) (simp add: list_interfaces_run)

lemma setenv_bridge_adds [within_intros]: "adds_code (netns env) (setenv_bridge S env)"
  unfolding setenv_bridge_def try_get_default_gateway_def
  by (intro within_intros execute_all_adds execute_all_logged_adds)
    (auto simp: only_adds_scripts)

lemma set_net_adds: "adds_code (netns env) (set_net S env ports lp safe)"
  unfolding set_net_def Let_def gratuitous_arp_def try_ping_def
  by (intro within_intros execute_all_adds) (auto simp: only_adds_scripts)

lemma set_net_only_adds: "within (only_adds (netns env)) UNIV (set_net S env ports lp safe)"
  using set_net_adds by (rule within_mono) (simp_all add: set_up_only_adds)

lemma exec_prepare_adds: "within (only_adds (netns (px_env p))) UNIV (exec_prepare S p cfg)"
  unfolding exec_prepare_script
  by (intro within_intros set_net_only_adds) simp_all


abbreviation no_netns_code :: "(cevent, 'a) io \<Rightarrow> bool" where
  "no_netns_code \<equiv> within no_netns UNIV"

lemma draw_prefix_no_netns [within_intros]: "no_netns_code (draw_prefix S ifs)"
proof (rule withinI)
  fix h
  show "\<exists>t. snd (draw_prefix S ifs h) = h @ t \<and> list_all no_netns t \<and>
      (\<forall>x. fst (draw_prefix S ifs h) = Inl (Panic x) \<longrightarrow> x \<in> UNIV)"
    using draw_prefix_cases[of ifs S h] by (auto simp: list_all_iff split: if_splits)
qed

lemma net_env_new_no_netns: "no_netns_code (net_env_new S)"
proof -
  have "no_netns_code (list_interfaces S)" by (rule withinI) (simp add: list_interfaces_run)
  moreover have "no_netns_code (get_routes_noblock S)"
    unfolding get_routes_noblock_def by (intro within_intros) simp
  ultimately show ?thesis
    unfolding net_env_new_def by (intro within_intros) simp_all
qed

lemma proxy_new_no_netns: "no_netns_code (proxy_new S v)"
proof -
  have "no_netns_code (new_uuid S)" "no_netns_code new_channel"
    by (auto intro!: withinI simp: new_uuid_def new_channel_def)
  then show ?thesis
    unfolding proxy_new_def Let_def by (intro within_intros net_env_new_no_netns) simp_all
qed

lemma proxy_new_namespaces: "namespaces (snd (proxy_new S v h)) = namespaces h"
proof -
  obtain t where "snd (proxy_new S v h) = h @ t" "list_all no_netns t"
    using withinE[OF proxy_new_no_netns] by (metis prod.collapse)
  then show ?thesis by (simp add: namespaces_no_netns)
qed

lemma clear_bridge_rest:
  "\<exists>B. snd (clear_bridge S env h) = h @ map Exec (clear_script env) @ B \<and> list_all no_netns B \<and> plain B"
proof -
  from clear_bridge_run[where S = S and env = env and h = h] obtain n dels restored tail where
    run: "snd (clear_bridge S env h) = h @ map Exec (clear_script env) @ ([GetRoutes] @ map DelRoute dels @
       map AddRoute (save_routes env) @ replicate n QueryGateway @ tail)"
    and c: "case fst (clear_bridge S env h) of
        Inl e \<Rightarrow> n = 5 \<and> tail = [] \<and> e = Error (Anyhow ''tried 5 times but not get gateway'')
      | Inr _ \<Rightarrow> \<exists>gw. 0 < n \<and> sys_gateway S (restored @ replicate (n - 1) QueryGateway) = Inr gw \<and>
          tail = (if list_all (\<lambda>i. i = 0) (gw_mac_octets gw) then []
            else [Exec (arp_set (ip_to_string (gw_ip gw)) (gw_mac gw) (device env))])"
    by auto
  from c have "list_all no_netns tail \<and> plain tail"
    by (cases "fst (clear_bridge S env h)") (auto simp: list_all_iff split: if_splits)
  then have "list_all no_netns ([GetRoutes] @ map DelRoute dels @ map AddRoute (save_routes env) @
      replicate n QueryGateway @ tail) \<and> plain ([GetRoutes] @ map DelRoute dels @ map AddRoute (save_routes env) @
      replicate n QueryGateway @ tail)"
    by (auto simp: list_all_iff plain_def)
  with run show ?thesis by blast
qed

lemma clear_script_namespaces: "namespaces (h @ map Exec (clear_script env)) = namespaces h - {netns env}"
proof -
  have "namespaces (h @ map Exec (clear_script env))
     = foldl netns_step (namespaces h - {netns env}) (map Exec (tl (clear_script env)))"
    by (simp add: namespaces_append clear_script_def)
  also have "\<dots> = namespaces h - {netns env}"
    by (rule no_netns_fold) (simp add: clear_script_def)
  finally show ?thesis .
qed

lemma clear_bridge_namespaces: "namespaces (snd (clear_bridge S env h)) = namespaces h - {netns env}"
proof -
  from clear_bridge_rest[of S env h] obtain B where
    "snd (clear_bridge S env h) = (h @ map Exec (clear_script env)) @ B" "list_all no_netns B" by auto
  then show ?thesis
    using namespaces_no_netns[of B "h @ map Exec (clear_script env)"] by (simp add: clear_script_namespaces)
qed

lemma no_panic_Pair [no_panic_intros]: "panic_free r \<Longrightarrow> no_panic (Pair r)"
  by (rule no_panicI) simp

lemma network_no_panic [no_panic_intros]:
  "no_panic (execute S c)" "no_panic (list_interfaces S)" "no_panic (get_routes_noblock S)"
  "no_panic (del_routes_noblock S msgs)"
proof -
  show "no_panic (execute S c)"
    unfolding execute_def by (cases c) (auto intro!: no_panic_intros panic_free_intros simp: os_err_def)
  show "no_panic (list_interfaces S)"
    by (rule no_panicI) (simp add: list_interfaces_run panic_free_def)
  show "no_panic (get_routes_noblock S)"
    unfolding get_routes_noblock_def by (intro no_panic_intros)
  show "no_panic (del_routes_noblock S msgs)"
  proof (rule no_panicI)
    fix h from del_routes_run[of S msgs h] show "panic_free (fst (del_routes_noblock S msgs h))"
      by (auto simp: panic_free_def)
  qed
qed

lemma network_loops_no_panic [no_panic_intros]:
  "no_panic (execute_all S cs)" "no_panic (execute_all_with_log_error S cs)" "no_panic (gateway_tries S k)"
  by (induction cs) (simp_all add: no_panic_intros, induction k, auto intro!: no_panic_intros panic_free_intros)

lemma setenv_bridge_no_panic: "setenv_bridge S env h \<noteq> (Inl (Panic m), h')"
proof -
  have "no_panic (setenv_bridge S env)"
    unfolding setenv_bridge_def try_get_default_gateway_def
    by (intro no_panic_intros) (auto simp: panic_free_def split: sum.splits option.splits)
  then show ?thesis by (rule no_panicD)
qed

lemma set_up_added: "Exec (ip_netns_add (netns env)) \<in> set (set_up_events env gw a mac rs)"
  by (simp add: set_up_defs link_script_def)

text \<open>When the network set-up succeeds, and also when it panics, \<open>setenv_bridge\<close> had succeeded, and
  so the namespace exists.\<close>

lemma set_net_set_up:
  assumes "set_net S env ports lp safe h = (r, h')" and "r = Inr () \<or> r = Inl (Panic m)"
  obtains h1 t where "setenv_bridge S env h = (Inr (), h1)" "h' = h1 @ t"
proof -
  obtain x h1 where sb: "setenv_bridge S env h = (x, h1)" by (cases "setenv_bridge S env h")
  have x: "x = Inr ()"
  proof (cases x)
    case (Inl f)
    with sb assms(1) have "r = Inl f" by (simp add: set_net_def)
    with assms(2) sb Inl show ?thesis using setenv_bridge_no_panic by fastforce
  qed simp
  have "\<exists>rest. set_net S env ports lp safe = io_bind (setenv_bridge S env) rest \<and>
      (\<forall>u. adds_code (netns env) (rest u))"
    unfolding set_net_def Let_def gratuitous_arp_def try_ping_def
    by (rule exI, rule conjI, rule refl, rule allI, intro within_intros execute_all_adds)
      (auto simp: only_adds_scripts)
  then obtain t where "h' = h1 @ t"
    using assms(1) sb x by (auto elim: withinE)
  with sb x that show thesis by simp
qed

lemma set_net_namespaces:
  assumes "set_net S env ports lp safe h = (r, h')" and "r = Inr () \<or> r = Inl (Panic m)"
  shows "namespaces h' = insert (netns env) (namespaces h)"
proof -
  from withinE[OF set_net_only_adds assms(1)] obtain t where
    t: "h' = h @ t" "list_all (only_adds (netns env)) t" by blast
  from assms obtain h1 s where sb: "setenv_bridge S env h = (Inr (), h1)" and h': "h' = h1 @ s"
    by (rule set_net_set_up)
  from setenv_bridge_Inr[OF sb] set_up_added[of env] obtain t1 where
    "h1 = h @ t1" "Exec (ip_netns_add (netns env)) \<in> set t1" by fastforce
  with h' t have "Exec (ip_netns_add (netns env)) \<in> set t" by auto
  from only_adds_added[OF t(2) this] show ?thesis by (simp add: t(1) namespaces_append)
qed


subsection \<open>The namespaces follow the proxy\<close>

definition proxy_netns :: "proxy \<Rightarrow> string set" where
  "proxy_netns p = (case task p of None \<Rightarrow> {} | Some _ \<Rightarrow> {netns (px_env p)})"

definition lifecycle_inv :: "proxy \<Rightarrow> cevent list \<Rightarrow> bool" where
  "lifecycle_inv p h \<longleftrightarrow> proxy_inv p h \<and> namespaces h = proxy_netns p"

text \<open>The general form, for a history in which some namespaces \<open>L\<close> may have been left behind before.\<close>

definition leak_inv :: "string set \<Rightarrow> proxy \<Rightarrow> cevent list \<Rightarrow> bool" where
  "leak_inv L p h \<longleftrightarrow> proxy_inv p h \<and> proxy_netns p \<subseteq> namespaces h \<and> namespaces h \<subseteq> proxy_netns p \<union> L"

lemma lifecycle_leak: "lifecycle_inv p h \<longleftrightarrow> leak_inv {} p h"
  by (auto simp: lifecycle_inv_def leak_inv_def)

lemma leak_inv_idle:
  "task p = None \<Longrightarrow> leak_inv L p h \<longleftrightarrow> proxy_inv p h \<and> namespaces h \<subseteq> L"
  by (auto simp: leak_inv_def proxy_netns_def)

lemma proxy_stop_leak:
  assumes "leak_inv L p h" and "proxy_stop S p h = (Inr (r, p'), h')"
  shows "leak_inv L p' h' \<and> namespaces h' \<subseteq> L \<and> running h' = {} \<and> task p' = None"
proof -
  from assms(1) have "proxy_inv p h" by (simp add: leak_inv_def)
  from proxy_stop_inv[OF this assms(2)] have p': "proxy_inv p' h'" "task p' = None" "running h' = {}"
    by simp_all
  have "namespaces h' \<subseteq> L"
  proof (cases "task p")
    case None
    with assms show ?thesis by (auto simp: proxy_stop_idle leak_inv_def proxy_netns_def)
  next
    case (Some c)
    with assms(1) have s: "sender p = Some c" by (simp add: leak_inv_def proxy_inv_def)
    from proxy_stop_run[OF Some s assms(2)] obtain t x where
      h': "h' = (h @ SendStop c # t) @ [AwaitTask c]" and
      cl: "clear_bridge S (px_env p) (h @ [SendStop c]) = (x, h @ SendStop c # t)" by auto
    have "namespaces h' = namespaces (h @ SendStop c # t)"
      unfolding h' by (subst namespaces_no_netns) simp_all
    also have "\<dots> = namespaces (h @ [SendStop c]) - {netns (px_env p)}"
      using clear_bridge_namespaces[of S "px_env p" "h @ [SendStop c]"] by (simp add: cl)
    also have "\<dots> \<subseteq> L"
      using assms(1) Some by (auto simp: leak_inv_def proxy_netns_def namespaces_no_netns)
    finally show ?thesis .
  qed
  with p' show ?thesis by (simp add: leak_inv_idle)
qed

lemma exec_prepare_namespaces:
  assumes "exec_prepare S p cfg h = (r, h')"
  shows "namespaces h' = namespaces h \<or> namespaces h' = insert (netns (px_env p)) (namespaces h)"
    and "r = Inr argv \<Longrightarrow> namespaces h' = insert (netns (px_env p)) (namespaces h)"
proof -
  from withinE[OF exec_prepare_adds assms] obtain t where
    t: "h' = h @ t" "list_all (only_adds (netns (px_env p))) t" by blast
  from only_adds_fold[OF t(2)] show "namespaces h' = namespaces h \<or>
      namespaces h' = insert (netns (px_env p)) (namespaces h)"
    by (simp add: t(1) namespaces_append)
  assume "r = Inr argv"
  with assms have ex: "exec_prepare S p cfg h = (Inr argv, h')" by simp
  let ?h = "h @ [UdsBind (ipc_path (opt p)), SpawnUdsServer (ipc_path (opt p)) cfg, CurrentExe]"
  from ex obtain exe where "set_net S (px_env p) (prc_proxy_ports cfg) (prc_listen_port cfg)
      (prc_safe_mode cfg) ?h = (Inr (), h')" by (rule exec_prepare_Inr)
  then have "namespaces h' = insert (netns (px_env p)) (namespaces ?h)"
    by (rule set_net_namespaces) simp
  then show "namespaces h' = insert (netns (px_env p)) (namespaces h)"
    by (simp add: namespaces_no_netns)
qed

lemma proxy_new_leak:
  assumes "running h = {}" and "used_channels h \<subseteq> {..<length h}" and "namespaces h \<subseteq> L"
    and "proxy_new S v h = (Inr p, h')"
  shows "leak_inv L p h' \<and> task p = None"
  using proxy_new_inv[OF assms(1,2,4)] proxy_new_namespaces[of S v h] assms(3,4)
  by (simp add: leak_inv_idle)

lemma proxy_stop_new_leak:
  assumes "leak_inv L p h" and "proxy_stop S p h = (Inr (r, p1), h1)" and "proxy_new S v h1 = (Inr new, h2)"
  shows "leak_inv L new h2" and "task new = None"
proof -
  from proxy_stop_leak[OF assms(1,2)] have "running h1 = {}" "used_channels h1 \<subseteq> {..<length h1}"
    "namespaces h1 \<subseteq> L" by (simp_all add: leak_inv_def proxy_inv_def)
  from proxy_new_leak[OF this assms(3)] show "leak_inv L new h2" "task new = None" by simp_all
qed

lemma proxy_reload_leak:
  assumes "leak_inv L p h" and "proxy_reload S p cfg h = (Inr (r, p'), h')"
  shows "leak_inv L p' h'"
proof -
  from assms(1) have inv: "proxy_inv p h" by (simp add: leak_inv_def)
  with proxy_reload_inv[OF this assms(2)] have inv': "proxy_inv p' h'" by simp
  show ?thesis
    using inv assms(2)
  proof (cases rule: proxy_reload_cases)
    case (stop_failed e)
    with proxy_stop_leak[OF assms(1) stop_failed(1)] show ?thesis by simp
  next
    case no_ports
    with proxy_stop_leak[OF assms(1) no_ports(1)] show ?thesis by simp
  next
    case (failed p1 h1 new h2)
    note new = proxy_stop_new_leak[OF assms(1) failed(1,3)]
    from failed obtain e h3 x where ex: "exec_prepare S new cfg h2 = (Inl (Error e), h3)" and p': "p' = new"
      and cl: "clear_bridge S (px_env new) h3 = (x, h')" unfolding reload_failed_def by blast
    from new exec_prepare_namespaces(1)[OF ex] have "namespaces h3 \<subseteq> insert (netns (px_env new)) L"
      by (auto simp: leak_inv_idle)
    then have "namespaces h' \<subseteq> L"
      using clear_bridge_namespaces[of S "px_env new" h3] by (auto simp: cl)
    with new inv' show ?thesis by (simp add: p' leak_inv_idle)
  next
    case (served p1 h1 new h2)
    note new = proxy_stop_new_leak[OF assms(1) served(1,3)]
    from served obtain argv c h3 where ex: "exec_prepare S new cfg h2 = (Inr argv, h3)"
      and p': "p' = new\<lparr>rx := None, task := Some c\<rparr>" and h': "h' = h3 @ [SpawnTask c argv]"
      unfolding reload_done_def by blast
    have "namespaces h' = insert (netns (px_env new)) (namespaces h2)"
      unfolding h' using exec_prepare_namespaces(2)[OF ex] by (simp add: namespaces_no_netns)
    with new inv' show ?thesis by (auto simp: leak_inv_def proxy_netns_def p')
  qed
qed

lemma leak_inv_plain:
  "leak_inv L p h \<Longrightarrow> plain t \<Longrightarrow> list_all no_netns t \<Longrightarrow> leak_inv L p (h @ t)"
  using plain_running[of t h]
  by (auto simp: leak_inv_def proxy_inv_def namespaces_no_netns)

text \<open>The cases in which nothing was left behind before.\<close>

lemma proxy_reload_lifecycle:
  "lifecycle_inv p h \<Longrightarrow> proxy_reload S p cfg h = (Inr (r, p'), h') \<Longrightarrow> lifecycle_inv p' h'"
  unfolding lifecycle_leak by (rule proxy_reload_leak)

lemma proxy_stop_lifecycle:
  assumes "lifecycle_inv p h" and "proxy_stop S p h = (Inr (r, p'), h')"
  shows "lifecycle_inv p' h' \<and> namespaces h' = {} \<and> running h' = {} \<and> task p' = None"
  using proxy_stop_leak[of "{}" p h S r p' h'] assms by (simp add: lifecycle_leak)

lemma proxy_new_lifecycle:
  assumes "running h = {}" and "used_channels h \<subseteq> {..<length h}" and "namespaces h = {}"
    and "proxy_new S v h = (Inr p, h')"
  shows "lifecycle_inv p h' \<and> task p = None"
  using proxy_new_leak[of h "{}" S v p h'] assms by (simp add: lifecycle_leak)

lemma lifecycle_inv_plain:
  "lifecycle_inv p h \<Longrightarrow> plain t \<Longrightarrow> list_all no_netns t \<Longrightarrow> lifecycle_inv p (h @ t)"
  unfolding lifecycle_leak by (rule leak_inv_plain)

interpretation life: proxy_control "proxy_reload S" "proxy_stop S" lifecycle_inv running for S
proof unfold_locales
  show "\<exists>r p' h'. proxy_stop S p h = (Inr (r, p'), h')" for p h by (rule proxy_stop_returns)
  show "\<exists>c. running h \<subseteq> {c}" if "lifecycle_inv p h" for p h
    using that by (cases "task p") (auto simp: lifecycle_inv_def proxy_inv_def)
  show "running h' = {}" if "lifecycle_inv p h" and "proxy_reload S p c h = (Inr (Inl e, p'), h')"
    for p h c e p' h'
    using proxy_reload_inv[of p h S c "Inl e" p' h'] that by (auto simp: lifecycle_inv_def proxy_inv_def)
qed (auto dest: proxy_reload_lifecycle proxy_stop_lifecycle)


subsection \<open>The abstract life of a proxy\<close>

text \<open>What a proxy is for its users: idle, or redirecting the traffic with a configuration. The
  configuration is the one handed out last at the proxy's own socket.\<close>

datatype life = Idle | Serving proxy_raw_config

definition handed_out :: "cevent list \<Rightarrow> string \<Rightarrow> proxy_raw_config option" where
  "handed_out h path = foldl (\<lambda>found e. case e of
       SpawnUdsServer q cfg \<Rightarrow> if q = path then Some cfg else found | _ \<Rightarrow> found) None h"

definition life_of :: "proxy \<Rightarrow> cevent list \<Rightarrow> life option" where
  "life_of p h = (case task p of None \<Rightarrow> Some Idle
     | Some _ \<Rightarrow> map_option Serving (handed_out h (ipc_path (opt p))))"

text \<open>The specification: after a successful reload the proxy serves the new configuration, or is
  idle when it names no ports; after a failed reload and after a stop it is idle.\<close>

datatype proxy_op = Reload proxy_raw_config | Stop

fun life_step :: "life \<Rightarrow> proxy_op \<Rightarrow> error + unit \<Rightarrow> life" where
  "life_step l (Reload cfg) (Inr u) = (if prc_proxy_ports cfg = None then Idle else Serving cfg)"
| "life_step l (Reload cfg) (Inl e) = Idle"
| "life_step l Stop r = Idle"

fun proxy_perform :: "sys \<Rightarrow> proxy \<Rightarrow> proxy_op \<Rightarrow> (cevent, (error + unit) \<times> proxy) io" where
  "proxy_perform S p (Reload cfg) = proxy_reload S p cfg"
| "proxy_perform S p Stop = proxy_stop S p"

lemma handed_out_append:
  "handed_out (h @ t) path = foldl (\<lambda>found e. case e of
       SpawnUdsServer q cfg \<Rightarrow> if q = path then Some cfg else found | _ \<Rightarrow> found) (handed_out h path) t"
  by (simp add: handed_out_def)

lemma handed_out_last: "handed_out (h @ [SpawnUdsServer path cfg]) path = Some cfg"
  by (simp add: handed_out_append)

definition no_uds :: "cevent \<Rightarrow> bool" where
  "no_uds e = (case e of SpawnUdsServer q cfg \<Rightarrow> False | _ \<Rightarrow> True)"

lemma handed_out_other: "list_all no_uds t \<Longrightarrow> handed_out (h @ t) path = handed_out h path"
proof (induction t arbitrary: h)
  case (Cons e t)
  from Cons.prems Cons.IH[of "h @ [e]"] have "handed_out (h @ e # t) path = handed_out (h @ [e]) path"
    by simp
  also have "\<dots> = handed_out h path"
    using Cons.prems by (cases e) (simp_all add: handed_out_append no_uds_def)
  finally show ?case .
qed simp

lemma set_up_no_uds: "set_up_event n e \<Longrightarrow> no_uds e"
  by (cases e) (auto simp: no_uds_def)

lemma exec_prepare_hands_out:
  assumes "exec_prepare S p cfg h = (Inr argv, h')"
  shows "handed_out h' (ipc_path (opt p)) = Some cfg"
proof -
  let ?path = "ipc_path (opt p)"
  let ?h = "h @ [UdsBind ?path, SpawnUdsServer ?path cfg, CurrentExe]"
  from assms obtain exe where net: "set_net S (px_env p) (prc_proxy_ports cfg) (prc_listen_port cfg)
      (prc_safe_mode cfg) ?h = (Inr (), h')" by (rule exec_prepare_Inr)
  have "within no_uds UNIV (set_net S (px_env p) (prc_proxy_ports cfg) (prc_listen_port cfg)
      (prc_safe_mode cfg))"
    using set_net_adds by (rule within_mono) (simp_all add: set_up_no_uds)
  from withinE[OF this net] obtain t where t: "h' = ?h @ t" "list_all no_uds t" by blast
  have "list_all no_uds (CurrentExe # t)" using t(2) by (simp add: no_uds_def)
  from handed_out_other[OF this, of "h @ [UdsBind ?path, SpawnUdsServer ?path cfg]" ?path]
    handed_out_last[of "h @ [UdsBind ?path]" ?path cfg]
  show ?thesis by (simp add: t(1))
qed

lemma proxy_reload_life:
  assumes "proxy_inv p h" and "proxy_reload S p cfg h = (Inr (r, p'), h')"
  shows "life_of p' h' = Some (life_step l (Reload cfg) r)"
proof (cases "task p'")
  case None
  with proxy_reload_inv[OF assms] show ?thesis
    by (cases r) (auto simp: life_of_def)
next
  case (Some c)
  show ?thesis
    using assms
  proof (cases rule: proxy_reload_cases)
    case (served p1 h1 new h2)
    then obtain argv c h3 where ex: "exec_prepare S new cfg h2 = (Inr argv, h3)"
      and p': "p' = new\<lparr>rx := None, task := Some c\<rparr>" and h': "h' = h3 @ [SpawnTask c argv]"
      and r: "r = Inr ()" unfolding reload_done_def by blast
    have "handed_out h' (ipc_path (opt new)) = Some cfg"
      unfolding h' by (subst handed_out_other) (simp_all add: no_uds_def exec_prepare_hands_out[OF ex])
    with served(2) r show ?thesis by (auto simp: life_of_def p')
  next
    case (failed p1 h1 new h2)
    then have "task p' = None" using proxy_reload_inv[OF assms] by (auto simp: reload_failed_def)
    with Some show ?thesis by simp
  qed (use proxy_stop_inv[OF assms(1)] Some in auto)
qed

lemma proxy_perform_life:
  assumes "proxy_inv p h" and "proxy_perform S p op h = (Inr (r, p'), h')"
  shows "life_of p' h' = Some (life_step l op r) \<and> proxy_inv p' h'"
proof (cases op)
  case (Reload cfg)
  with assms proxy_reload_life[OF assms(1)] proxy_reload_inv[OF assms(1)] show ?thesis by simp
next
  case Stop
  with assms proxy_stop_inv[OF assms(1)] show ?thesis by (auto simp: life_of_def)
qed


subsection \<open>Panics\<close>

text \<open>What can panic while the environment is renewed, and while the network is set up.\<close>

definition renew_panics :: "string set" where
  "renew_panics = {''unwrap netlink'', ''unwrap default interface'', ''unwrap ipv4'', ''unwrap routes''}"

definition set_up_panics :: "string set" where
  "set_up_panics = {''unwrap interface'', ''unwrap mac'', ''unwrap arp interface'', ''unwrap arp ip'',
     ''unwrap ping client''}"

text \<open>What a panic of \<open>reload\<close> leaves in the proxy: the assignments made before it.\<close>

definition reload_leftover :: "sys \<Rightarrow> proxy \<Rightarrow> proxy_raw_config \<Rightarrow> cevent list \<Rightarrow> proxy" where
  "reload_leftover S p cfg h = (case proxy_stop S p h of
       (Inr (Inr _, p), h1) \<Rightarrow>
         if prc_proxy_ports cfg \<noteq> None \<and> task p = None then
           (case proxy_new S (verbose (opt p)) h1 of
              (Inr new, h2) \<Rightarrow> p\<lparr>px_env := px_env new, opt := opt new, sender := sender new, rx := rx new\<rparr>
            | _ \<Rightarrow> p)
         else p
     | (Inr (Inl _, p), h1) \<Rightarrow> p
     | _ \<Rightarrow> p)"

lemma proxy_exec_panic:
  assumes "proxy_exec S p cfg h = (Inl (Panic m), h')" and "rx p = Some c"
  shows "exec_prepare S p cfg h = (Inl (Panic m), h')"
  using assms by (cases "exec_prepare S p cfg h")
    (auto simp: proxy_exec_def io_bind_run io_try_run split: sum.splits failure.splits)

lemma clear_bridge_no_panic: "clear_bridge S env h \<noteq> (Inl (Panic m), h')"
  using clear_bridge_returns[of S env h] by auto

lemma proxy_reload_panic_cases:
  assumes "proxy_inv p h" and "proxy_reload S p cfg h = (Inl (Panic m), h')"
  obtains
    (renewing) p1 h1 where "proxy_stop S p h = (Inr (Inr (), p1), h1)"
      "proxy_new S (verbose (opt p)) h1 = (Inl (Panic m), h')" "reload_leftover S p cfg h = p1"
  | (preparing) p1 h1 new h2 where "proxy_stop S p h = (Inr (Inr (), p1), h1)"
      "proxy_new S (verbose (opt p)) h1 = (Inr new, h2)"
      "exec_prepare S new cfg h2 = (Inl (Panic m), h')" "reload_leftover S p cfg h = new"
proof -
  obtain r1 p1 h1 where stop: "proxy_stop S p h = (Inr (r1, p1), h1)" using proxy_stop_returns by blast
  from proxy_stop_inv[OF assms(1) this] have p1: "task p1 = None" "opt p1 = opt p" by simp_all
  from assms(2) stop have r1: "r1 = Inr ()" and ports: "prc_proxy_ports cfg \<noteq> None"
    by (auto simp: proxy_reload_def split: sum.splits if_splits)
  show thesis
  proof (cases "proxy_new S (verbose (opt p)) h1")
    case (Pair x h2)
    show thesis
    proof (cases x)
      case (Inl f)
      with assms(2) stop r1 ports p1 Pair show thesis
        by (intro renewing) (auto simp: proxy_reload_def reload_leftover_def)
    next
      case (Inr new)
      with Pair have new: "proxy_new S (verbose (opt p)) h1 = (Inr new, h2)" by simp
      then obtain c where "task new = None" and rx: "rx new = Some c" by (rule proxy_new_run) simp
      from renewed[OF p1(1) \<open>task new = None\<close>] assms(2) stop r1 ports p1 new have left: "reload_leftover S p cfg h = new"
        and "io_bind (proxy_exec S new cfg) (\<lambda>(r, p). case r of
                 Inl e \<Rightarrow>
                   io_bind (io_try (clear_bridge S (px_env p))) (\<lambda>r2. case r2 of
                       Inl e2 \<Rightarrow> io_ok (Inl e2, p)
                     | Inr _ \<Rightarrow> io_ok (Inl e, p))
               | Inr _ \<Rightarrow> io_ok (Inr (), p)) h2 = (Inl (Panic m), h')"
        by (auto simp: proxy_reload_def reload_leftover_def)
      then have "proxy_exec S new cfg h2 = (Inl (Panic m), h')"
        by (auto simp: io_bind_run io_try_run clear_bridge_no_panic
            split: prod.splits sum.splits failure.splits)
      from proxy_exec_panic[OF this rx] stop r1 new left show thesis by (intro preparing) simp_all
    qed
  qed
qed

lemma set_net_panic_set: "within (\<lambda>_. True) set_up_panics (set_net S env ports lp safe)"
proof -
  have sub: "within (\<lambda>_. True) set_up_panics m" if "adds_code n m" "no_panic m" for n and m :: "(cevent, 'b) io"
  proof (rule withinI)
    fix h
    obtain r h1 where m: "m h = (r, h1)" by (cases "m h")
    from withinE[OF that(1) this] obtain t where "h1 = h @ t" by blast
    moreover have "r \<noteq> Inl (Panic x)" for x using no_panicD[OF that(2)] m by metis
    ultimately show "\<exists>t. snd (m h) = h @ t \<and> list_all (\<lambda>_. True) t \<and>
      (\<forall>x. fst (m h) = Inl (Panic x) \<longrightarrow> x \<in> set_up_panics)" by (auto simp: m list_all_iff)
  qed
  have sb: "no_panic (setenv_bridge S env)"
    using setenv_bridge_no_panic by (intro no_panicI) (metis panic_free_def prod.collapse)
  show ?thesis
    unfolding set_net_def Let_def gratuitous_arp_def try_ping_def
    by (intro within_intros sub[OF setenv_bridge_adds sb] sub[OF list_interfaces_adds network_no_panic(2)]
        sub[OF execute_all_adds network_loops_no_panic(1)] sub[OF execute_adds network_no_panic(1)])
      (auto simp: only_adds_scripts set_up_panics_def split: option.splits)
qed


lemma exec_prepare_panic:
  assumes "exec_prepare S p cfg h = (Inl (Panic m), h')"
  shows "set_net S (px_env p) (prc_proxy_ports cfg) (prc_listen_port cfg) (prc_safe_mode cfg)
      (h @ [UdsBind (ipc_path (opt p)), SpawnUdsServer (ipc_path (opt p)) cfg, CurrentExe])
      = (Inl (Panic m), h')"
proof -
  let ?h = "h @ [UdsBind (ipc_path (opt p)), SpawnUdsServer (ipc_path (opt p)) cfg, CurrentExe]"
  obtain x h1 where net: "set_net S (px_env p) (prc_proxy_ports cfg) (prc_listen_port cfg)
      (prc_safe_mode cfg) ?h = (x, h1)" by fastforce
  with assms show ?thesis
    by (cases x) (auto simp: exec_prepare_script io_bind_run io_try_run ext_def bail_def
        split: sum.splits failure.splits)
qed

lemma proxy_new_panic:
  assumes "proxy_new S v h = (Inl (Panic m), h')"
  shows "m \<in> renew_panics"
proof -
  have "within (\<lambda>_. True) renew_panics (draw_prefix S ifs)" for ifs
  proof (rule withinI)
    fix h
    show "\<exists>t. snd (draw_prefix S ifs h) = h @ t \<and> list_all (\<lambda>_. True) t \<and>
        (\<forall>x. fst (draw_prefix S ifs h) = Inl (Panic x) \<longrightarrow> x \<in> renew_panics)"
      using draw_prefix_cases[of ifs S h] by (auto simp: list_all_iff split: if_splits)
  qed
  moreover have "within (\<lambda>_. True) renew_panics (list_interfaces S)"
    by (rule withinI) (simp add: list_interfaces_run)
  moreover have "within (\<lambda>_. True) renew_panics (get_routes_noblock S)"
    unfolding get_routes_noblock_def by (intro within_intros) simp
  ultimately have "within (\<lambda>_. True) renew_panics (net_env_new S)"
    unfolding net_env_new_def by (intro within_intros) (auto simp: renew_panics_def split: option.splits)
  moreover have "within (\<lambda>_. True) renew_panics (new_uuid S)" "within (\<lambda>_. True) renew_panics new_channel"
    by (auto intro!: withinI simp: new_uuid_def new_channel_def)
  ultimately have "within (\<lambda>_. True) renew_panics (proxy_new S v)"
    unfolding proxy_new_def Let_def by (intro within_intros) (simp_all add: renew_panics_def)
  from withinE[OF this assms] show ?thesis by blast
qed

lemma proxy_new_plain: "within (\<lambda>e. \<not> task_event e) UNIV (proxy_new S v)"
proof -
  have "within (\<lambda>e. \<not> task_event e) UNIV (net_env_new S)"
    using net_env_new_within by (rule within_mono) simp_all
  moreover have "within (\<lambda>e. \<not> task_event e) UNIV (new_uuid S)"
    "within (\<lambda>e. \<not> task_event e) UNIV new_channel"
    by (auto intro!: withinI simp: new_uuid_def new_channel_def)
  ultimately show ?thesis unfolding proxy_new_def Let_def by (intro within_intros) simp_all
qed

lemma proxy_inv_plain: "proxy_inv p h \<Longrightarrow> plain t \<Longrightarrow> proxy_inv p (h @ t)"
  using plain_running[of t h] by (auto simp: proxy_inv_def)

text \<open>What a panic leaves in the namespaces: those left behind before, and the new one when the
  network was being set up.\<close>

lemma reload_panic_leak:
  assumes "leak_inv L p h" and "proxy_reload S p cfg h = (Inl (Panic m), h')"
  shows "task (reload_leftover S p cfg h) = None \<and> proxy_inv (reload_leftover S p cfg h) h' \<and>
     (m \<in> renew_panics \<and> namespaces h' \<subseteq> L \<or>
      m \<in> set_up_panics \<and> netns (px_env (reload_leftover S p cfg h)) \<in> namespaces h' \<and>
        namespaces h' \<subseteq> insert (netns (px_env (reload_leftover S p cfg h))) L)"
proof -
  from assms(1) have inv: "proxy_inv p h" by (simp add: leak_inv_def)
  from this assms(2) show ?thesis
  proof (cases rule: proxy_reload_panic_cases)
    case (renewing p1 h1)
    from proxy_stop_leak[OF assms(1) renewing(1)] have p1: "proxy_inv p1 h1" "task p1 = None"
      "namespaces h1 \<subseteq> L" unfolding leak_inv_def by blast+
    from withinE[OF proxy_new_plain renewing(2)] obtain t where "h' = h1 @ t" "plain t"
      by (auto simp: plain_def)
    with p1(1) have "proxy_inv p1 h'" by (simp add: proxy_inv_plain)
    moreover have "namespaces h' \<subseteq> L"
      using proxy_new_namespaces[of S "verbose (opt p)" h1] p1(3) by (simp add: renewing(2))
    ultimately show ?thesis
      unfolding renewing(3) using p1(2) proxy_new_panic[OF renewing(2)] by simp
  next
    case (preparing p1 h1 new h2)
    note new = proxy_stop_new_leak[OF assms(1) preparing(1,2)]
    from net_codeE[OF exec_prepare_within preparing(3)] obtain t where "h' = h2 @ t" "plain t" by blast
    with new have "proxy_inv new h'" by (simp add: leak_inv_def proxy_inv_plain)
    moreover note net = exec_prepare_panic[OF preparing(3)]
    have "namespaces h' = insert (netns (px_env new)) (namespaces h2)"
      using set_net_namespaces[OF net disjI2, OF refl] by (simp add: namespaces_no_netns)
    moreover have "namespaces h2 \<subseteq> L" using new by (simp add: leak_inv_idle)
    moreover from withinE[OF set_net_panic_set net] have "m \<in> set_up_panics" by blast
    ultimately show ?thesis unfolding preparing(4) using new(2) by auto
  qed
qed

lemma reload_panic_state:
  assumes "lifecycle_inv p h" and "proxy_reload S p cfg h = (Inl (Panic m), h')"
  shows "task (reload_leftover S p cfg h) = None \<and> proxy_inv (reload_leftover S p cfg h) h' \<and>
     (m \<in> renew_panics \<and> namespaces h' = {} \<or>
      m \<in> set_up_panics \<and> namespaces h' = {netns (px_env (reload_leftover S p cfg h))})"
  using reload_panic_leak[of "{}"] assms by (fastforce simp: lifecycle_leak)


subsection \<open>Properties\<close>

text \<open>C5: no namespace is leaked. However a controller reloads and stops a proxy, the namespaces its
  commands have left are exactly the one of the environment of the running sub proxy, and none
  when no sub proxy runs; stopping always returns and leaves none.\<close>

theorem namespaces_match_proxy:
  assumes "proxy_new S v [] = (Inr p0, h0)"
    and "controlled (proxy_reload S) (proxy_stop S) p0 h0 p h"
  shows "namespaces h = (case task p of None \<Rightarrow> {} | Some _ \<Rightarrow> {netns (px_env p)}) \<and>
     (\<exists>r p' h'. proxy_stop S p h = (Inr (r, p'), h') \<and> namespaces h' = {} \<and> running h' = {})"
proof -
  have "running ([] :: cevent list) = {}" "used_channels [] \<subseteq> {..<length ([] :: cevent list)}"
    "namespaces [] = {}" by (simp_all add: running_def used_channels_def namespaces_def)
  from proxy_new_lifecycle[OF this assms(1)] have "lifecycle_inv p0 h0" by simp
  from life.controlled_inv[OF assms(2) this] have inv: "lifecycle_inv p h" .
  obtain r p' h' where stop: "proxy_stop S p h = (Inr (r, p'), h')" using proxy_stop_returns by blast
  from proxy_stop_lifecycle[OF inv this] inv stop show ?thesis
    by (auto simp: lifecycle_inv_def proxy_netns_def)
qed

fun perform_all :: "sys \<Rightarrow> proxy \<Rightarrow> proxy_op list \<Rightarrow> (cevent, (error + unit) list \<times> proxy) io" where
  "perform_all S p [] = io_ok ([], p)"
| "perform_all S p (op # ops) =
     io_bind (proxy_perform S p op) (\<lambda>(r, p).
     io_bind (perform_all S p ops) (\<lambda>(rs, p). io_ok (r # rs, p)))"

text \<open>C9: the proxy refines its abstract life. Whatever sequence of reloads and stops is performed,
  and whatever fails in it, the state and the history at its end represent what the abstract
  life becomes by the same operations with the same results: serving exactly the last
  configuration that was reloaded with success, or idle.\<close>

theorem proxy_refines_life:
  assumes "proxy_inv p h" and "life_of p h = Some l"
    and "perform_all S p ops h = (Inr (rs, p'), h')"
  shows "length rs = length ops \<and>
     life_of p' h' = Some (foldl (\<lambda>l (op, r). life_step l op r) l (zip ops rs))"
  using assms
proof (induction ops arbitrary: p h l rs)
  case (Cons op ops)
  from Cons.prems(3) obtain r p1 h1 rs1 where op: "proxy_perform S p op h = (Inr (r, p1), h1)"
    and rest: "perform_all S p1 ops h1 = (Inr (rs1, p'), h')" and rs: "rs = r # rs1"
    by (auto elim!: io_bind_Inr)
  from proxy_perform_life[OF Cons.prems(1) op, of l] have
    "proxy_inv p1 h1" "life_of p1 h1 = Some (life_step l op r)" by simp_all
  from Cons.IH[OF this rest] show ?case by (simp add: rs)
qed simp

text \<open>C35: a panic of the network set-up leaks its namespace. When setting up the network panics, the
  namespace of the new environment exists and the state holds no task, so stopping the proxy
  afterwards does nothing and the namespace stays; a panic before the set-up leaves none.\<close>

theorem set_up_panic_leaks_namespace:
  assumes "lifecycle_inv p h" and "proxy_reload S p cfg h = (Inl (Panic m), h')"
  shows "let left = reload_leftover S p cfg h in
     proxy_stop S left h' = (Inr (Inr (), left), h') \<and>
     (m \<in> set_up_panics \<and> namespaces h' = {netns (px_env left)} \<or>
      m \<in> renew_panics \<and> namespaces h' = {})"
  using reload_panic_state[OF assms] unfolding Let_def by (auto simp: proxy_stop_idle)

subsection \<open>Concrete lifecycles\<close>

theorem namespaces_match_proxy_witness:
  "\<exists>p' h'. proxy_reload demo_sys demo_proxy demo_cfg demo_start = (Inr (Inr (), p'), h') \<and>
     namespaces h' = {netns (px_env p')}"
proof -
  obtain p' h' where rl: "proxy_reload demo_sys demo_proxy demo_cfg demo_start = (Inr (Inr (), p'), h')"
    using demo_reload by blast
  have "controlled (proxy_reload demo_sys) (proxy_stop demo_sys) demo_proxy demo_start p' h'"
    using controlled.fresh rl by (rule controlled.reloaded)
  from namespaces_match_proxy [OF demo_started this] proxy_reload_inv[OF demo_inv rl] rl show ?thesis
    by (auto simp: demo_cfg_def split: option.splits)
qed

theorem proxy_refines_life_witness:
  "\<exists>rs p' h'. perform_all demo_sys demo_proxy [Reload demo_cfg] demo_start = (Inr (rs, p'), h') \<and>
     life_of p' h' = Some (Serving demo_cfg)"
proof -
  obtain p' h' where rl: "proxy_reload demo_sys demo_proxy demo_cfg demo_start = (Inr (Inr (), p'), h')"
    using demo_reload by blast
  then have run: "perform_all demo_sys demo_proxy [Reload demo_cfg] demo_start = (Inr ([Inr ()], p'), h')"
    by simp
  have "life_of demo_proxy demo_start = Some Idle" by (simp add: life_of_def demo_proxy_def)
  from proxy_refines_life [OF demo_inv this run] run show ?thesis by (auto simp: demo_cfg_def)
qed

lemma demo_lifecycle: "lifecycle_inv demo_proxy demo_start"
  using demo_inv by (simp add: lifecycle_inv_def proxy_netns_def demo_proxy_def demo_start_def
      namespaces_no_netns[of _ "[]", simplified] namespaces_def netns_step_def)

text \<open>A system on which no ping client can be made, as without the capability for raw sockets.\<close>

definition no_ping_sys :: sys where
  "no_ping_sys = demo_sys\<lparr>sys_ping_client := (\<lambda>h. Inl (External ''permission denied''))\<rparr>"

lemma no_ping_answers:
  "sys_output no_ping_sys = sys_output demo_sys" "sys_lossy no_ping_sys = sys_lossy demo_sys"
  "sys_interfaces no_ping_sys = sys_interfaces demo_sys" "sys_gateway no_ping_sys = sys_gateway demo_sys"
  "sys_get_routes no_ping_sys = sys_get_routes demo_sys" "sys_del_route no_ping_sys = sys_del_route demo_sys"
  "sys_arp_interface no_ping_sys = sys_arp_interface demo_sys" "sys_send_arp no_ping_sys = sys_send_arp demo_sys"
  "sys_parse_ipv4_network no_ping_sys = sys_parse_ipv4_network demo_sys" "sys_uuid no_ping_sys = sys_uuid demo_sys"
  "sys_open_netlink no_ping_sys = sys_open_netlink demo_sys" "sys_temp_dir no_ping_sys = sys_temp_dir demo_sys"
  "sys_uds_bind no_ping_sys = sys_uds_bind demo_sys" "sys_current_exe no_ping_sys = sys_current_exe demo_sys"
  by (simp_all add: no_ping_sys_def)

lemma no_ping_commands:
  "execute no_ping_sys c = execute demo_sys c" "list_interfaces no_ping_sys = list_interfaces demo_sys"
  "get_routes_noblock no_ping_sys = get_routes_noblock demo_sys"
proof -
  have "os_err no_ping_sys = os_err demo_sys" by (simp add: os_err_def fun_eq_iff no_ping_answers)
  then show "execute no_ping_sys c = execute demo_sys c"
    by (cases c) (simp_all add: execute_def no_ping_answers)
qed (simp_all add: list_interfaces_def get_routes_noblock_def no_ping_answers)

lemma no_ping_scripts:
  "execute_all no_ping_sys cs = execute_all demo_sys cs"
  "execute_all_with_log_error no_ping_sys cs = execute_all_with_log_error demo_sys cs"
  by (induction cs) (simp_all add: no_ping_commands)

lemma no_ping_setenv: "setenv_bridge no_ping_sys env = setenv_bridge demo_sys env"
proof -
  have "del_each no_ping_sys msgs = del_each demo_sys msgs" for msgs
    by (induction msgs) (simp_all add: no_ping_answers)
  moreover have "gateway_tries no_ping_sys k = gateway_tries demo_sys k" for k
    by (induction k) (simp_all add: no_ping_answers)
  ultimately show ?thesis
    unfolding setenv_bridge_def try_get_default_gateway_def del_routes_noblock_def no_ping_scripts
      no_ping_commands by (simp add: no_ping_answers)
qed

lemma no_ping_new: "proxy_new no_ping_sys v h = proxy_new demo_sys v h"
proof -
  have key: "key_at no_ping_sys = key_at demo_sys" by (simp add: fun_eq_iff key_at_def no_ping_answers)
  have "draw_prefix no_ping_sys ifs h = draw_prefix demo_sys ifs h" for ifs h
    using draw_prefix_cases[of ifs no_ping_sys h] draw_prefix_cases[of ifs demo_sys h] unfolding key
    by (metis linorder_neqE_nat)
  then have "draw_prefix no_ping_sys = draw_prefix demo_sys" by (simp add: fun_eq_iff)
  then have "net_env_new no_ping_sys = net_env_new demo_sys"
    unfolding net_env_new_def no_ping_commands by simp
  then show ?thesis by (simp add: proxy_new_def new_uuid_def no_ping_answers)
qed

lemma no_ping_set_net:
  "\<exists>h'. set_net no_ping_sys demo_env (Some ''80,443'') 1025 True h = (Inl (Panic ''unwrap ping client''), h')"
proof -
  obtain rs where "setenv_bridge demo_sys demo_env h
     = (Inr (), h @ QueryGateway # set_up_events demo_env demo_gateway 0x0A000005 ''02:00:00:00:00:04'' rs)"
    using demo_setenv by blast
  then show ?thesis
    by (simp add: set_net_def io_bind_run io_unwrap_run io_try_run Let_def no_ping_setenv no_ping_commands
        no_ping_scripts no_ping_answers list_interfaces_run demo_interfaces_up set_up_defs
        image_subset_iff demo_veth4 demo_answers gratuitous_arp_def quiet_execute_all[OF demo_quiet]
        scripts_nonempty execute_run bash_c_def os_err_def try_ping_def
        demo_sys_def[THEN arg_cong, of sys_output] no_ping_sys_def[THEN arg_cong, of sys_ping_client]
        del: execute_all.simps)
qed

theorem set_up_panic_leaks_namespace_witness:
  "\<exists>m h'. proxy_reload no_ping_sys demo_proxy demo_cfg demo_start = (Inl (Panic m), h') \<and>
     namespaces h' = {netns (px_env (reload_leftover no_ping_sys demo_proxy demo_cfg demo_start))}"
proof -
  define new where "new = demo_proxy\<lparr>sender := Some 8, rx := Some 8\<rparr>"
  define h2 where "h2 = demo_start @ [NewUuid, NewChannel, OpenNetlink, ListInterfaces, NewUuid,
     ListInterfaces, GetRoutes]"
  have new: "proxy_new no_ping_sys 1 demo_start = (Inr new, h2)"
    using demo_proxy_new[of demo_start] by (simp add: no_ping_new new_def h2_def demo_start_def)
  obtain h3 where net: "set_net no_ping_sys demo_env (Some ''80,443'') 1025 True
      (h2 @ [UdsBind (ipc_path (opt new)), SpawnUdsServer (ipc_path (opt new)) demo_cfg, CurrentExe])
      = (Inl (Panic ''unwrap ping client''), h3)" using no_ping_set_net by blast
  have "px_env new = demo_env" "rx new = Some 8" by (simp_all add: new_def demo_proxy_def)
  with net have "exec_prepare no_ping_sys new demo_cfg h2 = (Inl (Panic ''unwrap ping client''), h3)"
    by (simp add: exec_prepare_script io_bind_run io_try_run demo_uuid no_ping_answers demo_cfg_def)
  with new \<open>rx new = Some 8\<close> have rl:
    "proxy_reload no_ping_sys demo_proxy demo_cfg demo_start = (Inl (Panic ''unwrap ping client''), h3)"
    by (simp add: proxy_reload_def proxy_stop_idle proxy_exec_def io_try_run demo_cfg_def new_def demo_proxy_def)
  from set_up_panic_leaks_namespace [OF demo_lifecycle rl] rl show ?thesis
    by (auto simp: Let_def renew_panics_def)
qed

end
