(* ===== verification/Command_Line.thy ===== *)
theory Command_Line
  imports Lifecycle
begin

text \<open>
  \<open>cmd/command_line.rs\<close> of the controller: its options, their check, and the configuration
  file they name.
\<close>

subsection \<open>The options\<close>

text \<open>\<open>LevelFilter\<close> of \<open>tracing\<close>, ordered by how much is logged.\<close>

datatype level_filter = OFF | ERROR | WARN | INFO | DEBUG | TRACE

fun level_rank :: "level_filter \<Rightarrow> nat" where
  "level_rank OFF = 0" | "level_rank ERROR = 1" | "level_rank WARN = 2"
| "level_rank INFO = 3" | "level_rank DEBUG = 4" | "level_rank TRACE = 5"

lemma level_rank_inject: "level_rank a = level_rank b \<longleftrightarrow> a = b"
  by (cases a; cases b) simp_all

instantiation level_filter :: linorder
begin

definition less_eq_level_filter :: "level_filter \<Rightarrow> level_filter \<Rightarrow> bool" where
  "a \<le> b \<longleftrightarrow> level_rank a \<le> level_rank b"

definition less_level_filter :: "level_filter \<Rightarrow> level_filter \<Rightarrow> bool" where
  "a < b \<longleftrightarrow> level_rank a < level_rank b"

instance
  by standard
    (auto simp: less_eq_level_filter_def less_level_filter_def level_rank_inject[symmetric])

end

record cli_opt =
  input :: "string option"
  interactive :: bool
  cli_verbose :: u8
  cli_proxy :: bool
  cli_ipc_path :: "string option"

definition get_level_filter :: "cli_opt \<Rightarrow> level_filter" where
  "get_level_filter o' =
     (if cli_verbose o' = 0 then ERROR
      else if cli_verbose o' = 1 then INFO
      else if cli_verbose o' = 2 then DEBUG
      else TRACE)"

definition checked :: "cli_opt \<Rightarrow> cli_opt res" where
  "checked o' =
     (if \<not> interactive o' \<and> \<not> cli_proxy o' \<and> input o' = None
      then bail ''config file is required when interactive mode and daemon mode is all disabled, use `-h | --help` for more details''
      else Inr o')"

text \<open>\<open>from_args_safe\<close>, the parser that \<open>structopt\<close> derives from the options, is a parameter.\<close>

definition from_args_checked :: "(string list \<Rightarrow> error + cli_opt) \<Rightarrow> string list \<Rightarrow> cli_opt res" where
  "from_args_checked parse args = res_bind (ext (parse args)) checked"

text \<open>The configuration file, chosen by the extension of its path; \<open>conf_lib\<close> holds the file
  system and the parsers.\<close>

record conf_lib =
  read_to_string :: "string \<Rightarrow> error + string"
  json_config :: "bytes \<Rightarrow> error + ctl_raw_config"
  yaml_config :: "string \<Rightarrow> error + ctl_raw_config"

definition path_extension :: "string \<Rightarrow> string option" where
  "path_extension path = (let name = file_name path in
     if length (dropWhile (\<lambda>c. c \<noteq> CHR ''.'') (rev name)) \<le> 1 then None
     else Some (rev (takeWhile (\<lambda>c. c \<noteq> CHR ''.'') (rev name))))"

definition default_raw_config :: ctl_raw_config where
  "default_raw_config = \<lparr>rc_proxy_ports = None, rc_safe_mode = None, rc_rules = None, rc_tls = None,
     rc_role = None, rc_interface = None, rc_listen_port = None, rc_proxy_mark = None,
     rc_ignore_mark = None, rc_route_table = None\<rparr>"

definition read_raw_config :: "conf_lib \<Rightarrow> cli_opt \<Rightarrow> ctl_raw_config res" where
  "read_raw_config F o' = (case input o' of
       None \<Rightarrow> Inr default_raw_config
     | Some path_buf \<Rightarrow>
         res_bind (ext (read_to_string F path_buf)) (\<lambda>buffer.
           if path_extension path_buf = Some ''json'' then ext (json_config F (into_bytes buffer))
           else if path_extension path_buf = Some ''yaml'' then ext (yaml_config F buffer)
           else bail ''invalid file extension''))"

text \<open>The conversion looks at the interfaces of the system.\<close>

definition try_into_config :: "sys \<Rightarrow> ctl_raw_config \<Rightarrow> (cevent, ctl_config) io" where
  "try_into_config S raw =
     io_bind (list_interfaces S) (\<lambda>interfaces. io_lift (ctl_config_try_from interfaces raw))"

definition get_config_from_opt :: "sys \<Rightarrow> conf_lib \<Rightarrow> cli_opt \<Rightarrow> (cevent, ctl_config) io" where
  "get_config_from_opt S F o' =
     io_bind (io_lift (read_raw_config F o')) (\<lambda>raw. try_into_config S raw)"

subsection \<open>Reading a configuration\<close>

lemma free_port_from_no_panic: "panic_free (free_port_from prt ports)"
proof (induction prt ports rule: free_port_from.induct)
  case (1 prt ports)
  then show ?case
    by (subst free_port_from.simps) (auto simp: panic_free_def split: option.splits)
qed

lemma ctl_config_no_panic: "ctl_config_try_from ifs raw \<noteq> Inl (Panic x)"
proof -
  have "panic_free (get_default_interface ifs)" by (simp add: panic_free_def)
  then have "panic_free (ctl_config_try_from ifs raw)"
    unfolding ctl_config_try_from_def get_free_port_def Let_def
    by (intro panic_free_intros free_port_from_no_panic)
  then show ?thesis by (rule panic_freeD)
qed

lemma try_into_config_within: "net_code (try_into_config S raw)"
  unfolding try_into_config_def by (intro within_intros) (simp_all add: ctl_config_no_panic)

lemma read_raw_config_no_panic: "read_raw_config F o' \<noteq> Inl (Panic x)"
proof -
  have "panic_free (read_raw_config F o')"
    unfolding read_raw_config_def by (intro panic_free_intros)
  then show ?thesis by (rule panic_freeD)
qed

lemma get_config_within: "net_code (get_config_from_opt S F o')"
  unfolding get_config_from_opt_def
  by (intro within_intros try_into_config_within) (simp_all add: read_raw_config_no_panic)

subsection \<open>Verbosity\<close>

text \<open>More flags never log less. The level the verbosity selects grows with it, and is at least
  that of errors.\<close>

theorem level_filter_monotone:
  assumes "cli_verbose a \<le> cli_verbose b"
  shows "get_level_filter a \<le> get_level_filter b \<and> ERROR \<le> get_level_filter a"
  using assms
  by (auto simp: get_level_filter_def less_eq_level_filter_def word_le_nat_alt word_unat_eq_iff)

subsection \<open>Concrete options\<close>

definition safe_raw :: ctl_raw_config where
  "safe_raw = demo_ctl_raw\<lparr>rc_safe_mode := Some True\<rparr>"

definition safe_config :: ctl_config where
  "safe_config = \<lparr>proxy_config = (proxy_config demo_ctl_config)\<lparr>prc_safe_mode := True\<rparr>\<rparr>"

definition demo_conf :: conf_lib where
  "demo_conf = \<lparr>read_to_string = (\<lambda>path. Inr ''{}''),
     json_config = (\<lambda>b. if b = [] then Inl (External ''EOF'') else Inr safe_raw),
     yaml_config = (\<lambda>t. Inl (External ''not yaml''))\<rparr>"

definition file_opt :: cli_opt where
  "file_opt = \<lparr>input = Some ''/etc/tproxy.json'', interactive = False, cli_verbose = 1,
     cli_proxy = False, cli_ipc_path = None\<rparr>"

lemma safe_conversion: "ctl_config_try_from [demo_interface] safe_raw = Inr safe_config"
  by (simp add: ctl_config_try_from_def demo_interface_def demo_ctl_raw_def demo_ctl_config_def
      safe_raw_def safe_config_def
      ipv4s_of_def List.map_filter_simps get_free_port_def free_port_step[of 1025] port_taken_def
      ports_to_string_def dec.simps digit_def Let_def char_of_eq_iff)

lemma safe_try_into:
  "Exec (ip_link_set_up ''123e4567-e89bv4'') \<notin> set h \<Longrightarrow>
    try_into_config demo_sys safe_raw h = (Inr safe_config, h @ [ListInterfaces])"
  using safe_conversion
  by (simp add: try_into_config_def io_bind_run list_interfaces_run demo_sys_def)

lemma safe_fields: "prc_proxy_ports (proxy_config safe_config) = Some ''80,443''"
  "prc_listen_port (proxy_config safe_config) = 1025" "prc_safe_mode (proxy_config safe_config)"
  by (simp_all add: safe_config_def demo_ctl_config_def)

theorem level_filter_monotone_witness:
  "get_level_filter file_opt \<le> get_level_filter (file_opt\<lparr>cli_verbose := 3\<rparr>)"
  using level_filter_monotone [of file_opt "file_opt\<lparr>cli_verbose := 3\<rparr>"]
  by (simp add: file_opt_def)

end
