(* ===== verification/Cancellation.thy ===== *)
theory Cancellation
  imports Lifecycle
begin

text \<open>
  What happens when a reload is dropped before it has ended. The futures of \<open>proxy/exec.rs\<close> run
  between their \<open>await\<close>s without interruption: a command is waited for where it is run, and only
  the netlink requests, the making of a ping and the joining of the task suspend. A future that
  is dropped while it is suspended leaves the history up to there and the assignments it has made.
\<close>

subsection \<open>Dropping a reload\<close>

fun suspends :: "cevent \<Rightarrow> bool" where
  "suspends GetRoutes = True"
| "suspends (DelRoute msg) = True"
| "suspends (AddRoute msg) = True"
| "suspends (StartPing addr) = True"
| "suspends (AwaitTask t) = True"
| "suspends _ = False"

text \<open>The state of a reload whose history has the length \<open>n\<close>: \<open>stop\<close> takes the task and the sender
  before its first \<open>await\<close>, and the new environment is assigned when it is complete.\<close>

definition reload_state_at ::
  "sys \<Rightarrow> proxy \<Rightarrow> proxy_raw_config \<Rightarrow> cevent list \<Rightarrow> nat \<Rightarrow> proxy" where
  "reload_state_at S p cfg h n = (case proxy_stop S p h of
       (Inr (r, p1), h1) \<Rightarrow>
         if n \<le> length h1 then p1
         else (case proxy_new S (verbose (opt p1)) h1 of
             (Inr new, h2) \<Rightarrow>
               if n \<le> length h2 then p1
               else p1\<lparr>px_env := px_env new, opt := opt new, sender := sender new, rx := rx new\<rparr>
           | _ \<Rightarrow> p1)
     | _ \<Rightarrow> p)"

text \<open>The reload dropped at its \<open>k\<close>th event, if that suspends.\<close>

definition reload_dropped ::
  "sys \<Rightarrow> proxy \<Rightarrow> proxy_raw_config \<Rightarrow> cevent list \<Rightarrow> nat \<Rightarrow> (proxy \<times> cevent list) option" where
  "reload_dropped S p cfg h k =
     (let h' = take (length h + k) (snd (proxy_reload S p cfg h)) in
      if 0 < k \<and> length h' = length h + k \<and> suspends (last h')
      then Some (reload_state_at S p cfg h (length h'), h') else None)"

subsection \<open>The history of a reload\<close>

definition spawn_end :: "cevent list \<Rightarrow> bool" where
  "spawn_end t \<longleftrightarrow> (\<exists>c argv. t = [SpawnTask c argv])"

text \<open>After the stop, a reload does nothing to tasks but, perhaps, spawn one at its very end.\<close>

lemma reload_tail:
  assumes "proxy_inv p h" and "proxy_stop S p h = (Inr (r, p1), h1)"
    and "proxy_reload S p cfg h = (x, h')"
  obtains
    (stopped) "h' = h1"
  | (renewing) f t where "h' = h1 @ t" "proxy_new S (verbose (opt p1)) h1 = (f, h')" "\<And>new. f \<noteq> Inr new"
  | (prepared) new h2 y h3 t where "proxy_new S (verbose (opt p1)) h1 = (Inr new, h2)"
      "exec_prepare S new cfg h2 = (y, h3)" "h' = h3 @ t"
      "(case y of Inr _ \<Rightarrow> spawn_end t | Inl (Error e) \<Rightarrow> \<exists>z. clear_bridge S (px_env new) h3 = (z, h') | _ \<Rightarrow> t = [])"
proof -
  from proxy_stop_inv[OF assms(1,2)] have p1: "task p1 = None" by simp
  show thesis
  proof (cases "r = Inr () \<and> prc_proxy_ports cfg \<noteq> None")
    case False
    with assms(2,3) show thesis
      by (intro stopped) (cases r; auto simp: proxy_reload_def)
  next
    case True
    then obtain ports where go: "r = Inr ()" "prc_proxy_ports cfg = Some ports" by auto
    obtain f h2 where new: "proxy_new S (verbose (opt p1)) h1 = (f, h2)" by fastforce
    show thesis
    proof (cases f)
      case (Inl e)
      with assms(2,3) go p1 new have "h' = h2" by (simp add: proxy_reload_def)
      moreover obtain t where "h2 = h1 @ t" using withinE[OF proxy_new_plain new] by blast
      ultimately show thesis using new Inl by (intro renewing) auto
    next
      case (Inr n)
      with new have new: "proxy_new S (verbose (opt p1)) h1 = (Inr n, h2)" by simp
      then obtain c where n: "task n = None" "rx n = Some c" by (rule proxy_new_run) simp
      obtain y h3 where ex: "exec_prepare S n cfg h2 = (y, h3)" by fastforce
      from assms(2,3) go p1 new renewed[OF p1 n(1)] have rest: "io_bind (proxy_exec S n cfg) (\<lambda>(r, p). case r of
                 Inl e \<Rightarrow>
                   io_bind (io_try (clear_bridge S (px_env p))) (\<lambda>r2. case r2 of
                       Inl e2 \<Rightarrow> io_ok (Inl e2, p)
                     | Inr _ \<Rightarrow> io_ok (Inl e, p))
               | Inr _ \<Rightarrow> io_ok (Inr (), p)) h2 = (x, h')"
        by (simp add: proxy_reload_def)
      show thesis
      proof (cases y)
        case (Inr argv)
        with rest ex n have "h' = h3 @ [SpawnTask c argv]"
          by (simp add: proxy_exec_def io_bind_run io_try_run)
        with new ex Inr show thesis by (intro prepared) (auto simp: spawn_end_def)
      next
        case (Inl f)
        show thesis
        proof (cases f)
          case (Error e)
          obtain z h4 where cl: "clear_bridge S (px_env n) h3 = (z, h4)" by fastforce
          with rest ex Inl Error have "h' = h4"
            by (auto simp: proxy_exec_def io_bind_run io_try_run split: sum.splits failure.splits)
          moreover obtain t where "h4 = h3 @ t" using net_codeE[OF clear_bridge_within cl] by blast
          ultimately show thesis using new ex Inl Error cl by (intro prepared) auto
        qed (use rest ex Inl new in \<open>auto intro: prepared simp: proxy_exec_def io_bind_run io_try_run\<close>)
      qed
    qed
  qed
qed

text \<open>Events that add no namespace but \<open>n\<close>.\<close>

definition adds_at_most :: "string \<Rightarrow> cevent \<Rightarrow> bool" where
  "adds_at_most n e \<longleftrightarrow> (\<forall>N. netns_step N e \<subseteq> insert n N)"

lemma adds_at_most_intros:
  "only_adds n e \<Longrightarrow> adds_at_most n e" "adds_at_most n (Exec (ip_netns_del m))"
  by (auto simp: only_adds_def adds_at_most_def)

lemma adds_at_most_fold: "list_all (adds_at_most n) t \<Longrightarrow> foldl netns_step N t \<subseteq> insert n N"
proof (induction t arbitrary: N)
  case (Cons e t)
  from Cons.prems have "netns_step N e \<subseteq> insert n N" by (simp add: adds_at_most_def)
  moreover from Cons.IH[of "netns_step N e"] Cons.prems have
    "foldl netns_step (netns_step N e) t \<subseteq> insert n (netns_step N e)" by simp
  ultimately show ?case by auto
qed auto

lemma execute_all_logged_events:
  "(\<And>c. c \<in> set cs \<Longrightarrow> E (Exec c)) \<Longrightarrow> within E UNIV (execute_all_with_log_error S cs)"
proof (induction cs)
  case (Cons c cs)
  then have "within E UNIV (execute S c)"
    unfolding execute_def by (cases c) (auto intro!: within_intros)
  with Cons show ?case by (auto intro!: within_intros)
qed (auto intro: within_intros)

lemma netlink_no_netns [within_intros]:
  "no_netns_code (get_routes_noblock S)" "no_netns_code (del_routes_noblock S msgs)"
  "no_netns_code (load_routes S msgs)" "no_netns_code (gateway_tries S k)"
proof -
  show "no_netns_code (get_routes_noblock S)"
    unfolding get_routes_noblock_def by (intro within_intros) simp
  show "no_netns_code (del_routes_noblock S msgs)"
  proof (rule withinI)
    fix h
    from del_routes_run[of S msgs h] show "\<exists>t. snd (del_routes_noblock S msgs h) = h @ t \<and>
        list_all no_netns t \<and> (\<forall>x. fst (del_routes_noblock S msgs h) = Inl (Panic x) \<longrightarrow> x \<in> UNIV)"
      by (auto simp: list_all_iff)
  qed
  show "no_netns_code (load_routes S msgs)" by (induction msgs) (auto intro!: within_intros)
  show "no_netns_code (gateway_tries S k)" by (induction k) (auto intro!: within_intros)
qed

lemma clear_bridge_adds_none: "within (adds_at_most n) UNIV (clear_bridge S env)"
proof -
  have weak: "no_netns e \<Longrightarrow> adds_at_most n e" for e by (simp add: adds_at_most_intros)
  have "within (adds_at_most n) UNIV (execute_all_with_log_error S (clear_script env))"
    by (rule execute_all_logged_events) (auto simp: clear_script_def weak adds_at_most_intros)
  moreover have "within (adds_at_most n) UNIV (execute_all_with_log_error S [arp_set a b c])" for a b c
    by (rule execute_all_logged_events) (simp add: weak)
  ultimately show ?thesis
    unfolding clear_bridge_def Let_def try_get_default_gateway_def
    by (intro within_intros netlink_no_netns[THEN within_mono] weak subset_UNIV)
qed

subsection \<open>The state after a drop\<close>

text \<open>A cut that ends in an event of one kind keeps everything before the first event of that kind.\<close>

lemma cut_after:
  assumes "xs = take n (A @ B)" and "xs \<noteq> []" and "P (last xs)" and "list_all (\<lambda>e. \<not> P e) A"
  shows "\<exists>B'. xs = A @ B' \<and> B' \<noteq> [] \<and> prefix B' B"
proof -
  have "length A < n"
  proof (rule ccontr)
    assume "\<not> length A < n"
    with assms(1) have "set xs \<subseteq> set A" by (simp add: set_take_subset)
    moreover have "last xs \<in> set xs" using assms(2) by simp
    ultimately show False using assms(3,4) by (auto simp: list_all_iff)
  qed
  with assms(1) have xs: "xs = A @ take (n - length A) B" by simp
  moreover have "take (n - length A) B \<noteq> []"
  proof
    assume "take (n - length A) B = []"
    with xs have "xs = A" by simp
    with assms(2-4) show False by (auto simp: list_all_iff)
  qed
  ultimately show ?thesis by (blast intro: take_is_prefix)
qed

lemma script_runs: "list_all (\<lambda>e. \<not> suspends e) (map Exec cs)"
  by (simp add: list_all_iff)

lemma prefix_all: "prefix s t \<Longrightarrow> list_all E t \<Longrightarrow> list_all E s"
  by (auto simp: prefix_def)

lemma plain_prefix: "prefix s t \<Longrightarrow> plain t \<Longrightarrow> plain s"
  unfolding plain_def by (rule prefix_all)

lemma dropped_in_stop:
  assumes "leak_inv L p h" and "proxy_stop S p h = (Inr (r, p1), h1)"
    and "h' = take n h1" and "length h < n" and "n \<le> length h1" and "suspends (last h')"
  shows "proxy_inv p1 h' \<and> namespaces h' \<subseteq> L"
proof (cases "task p")
  case None
  with assms show ?thesis by (simp add: proxy_stop_idle)
next
  case (Some c)
  from assms(1) have inv: "proxy_inv p h" by (simp add: leak_inv_def)
  with Some have s: "sender p = Some c" by (simp add: proxy_inv_def)
  let ?A = "SendStop c # map Exec (clear_script (px_env p))"
  from proxy_stop_run[OF Some s assms(2)] obtain t x where
    p1: "p1 = p\<lparr>task := None, sender := None\<rparr>" and h1: "h1 = h @ SendStop c # t @ [AwaitTask c]" and
    cl: "clear_bridge S (px_env p) (h @ [SendStop c]) = (x, h @ SendStop c # t)" by auto
  from clear_bridge_rest[of S "px_env p" "h @ [SendStop c]"] cl obtain B where
    B: "t = map Exec (clear_script (px_env p)) @ B" "list_all no_netns B" "plain B" by auto
  have len: "take (n - length h) (?A @ B @ [AwaitTask c]) \<noteq> []" using assms(4) by simp
  have h': "h' = h @ take (n - length h) (?A @ B @ [AwaitTask c])"
    using assms(3,4) by (simp add: h1 B(1))
  then have "suspends (last (take (n - length h) (?A @ B @ [AwaitTask c])))"
    using assms(6) len by (simp del: take_append)
  from cut_after[where P = suspends, OF refl len this] obtain B' where
    B': "take (n - length h) (?A @ B @ [AwaitTask c]) = ?A @ B'" "prefix B' (B @ [AwaitTask c])"
    by (auto simp: script_runs)
  have "list_all no_netns B'" using prefix_all[OF B'(2)] B(2) by simp
  then have "namespaces h' = namespaces h - {netns (px_env p)}"
    unfolding h' B'(1) using namespaces_no_netns[of B' "(h @ [SendStop c]) @ map Exec (clear_script (px_env p))"]
      clear_script_namespaces[of "h @ [SendStop c]" "px_env p"] namespaces_no_netns[of "[SendStop c]" h]
    by simp
  with assms(1) Some have ns: "namespaces h' \<subseteq> L" by (auto simp: leak_inv_def proxy_netns_def)
  have "list_all (\<lambda>e. \<forall>d argv. e \<noteq> SendStop d \<and> e \<noteq> SpawnTask d argv) (B @ [AwaitTask c])"
    using B(3) by (auto simp: list_all_iff plain_def)
  from prefix_all[OF B'(2) this] have quiet: "SendStop d \<notin> set B'" "SpawnTask d argv \<notin> set B'" for d argv
    by (auto simp: list_all_iff)
  have "running h' = running h - {c}" "used_channels h' = insert c (used_channels h)"
    unfolding h' B'(1) using quiet by (auto simp: running_def used_channels_def)
  moreover have "c \<in> used_channels h"
    using inv Some running_used by (auto simp: proxy_inv_def)
  ultimately have "proxy_inv p1 h'"
    using inv Some assms(4,5) unfolding proxy_inv_def p1 h' by auto
  with ns show ?thesis by simp
qed

lemma dropped_in_new:
  assumes "leak_inv L p1 h1" and "task p1 = None" and "proxy_new S v h1 = (f, h2)" and "prefix s h2" and "prefix h1 s"
  shows "leak_inv L p1 s"
proof -
  from withinE[OF proxy_new_plain assms(3)] obtain t where t: "h2 = h1 @ t" "plain t" by (auto simp: plain_def)
  from withinE[OF proxy_new_no_netns assms(3)] t(1) have ns: "list_all no_netns t" by auto
  from assms(4,5) t(1) obtain u where "s = h1 @ u" "prefix u t" by (auto simp: prefix_def)
  with t(2) ns assms(1) show ?thesis by (simp add: leak_inv_plain plain_prefix prefix_all)
qed

text \<open>Events that neither concern a task nor add a namespace but \<open>n\<close>.\<close>

abbreviation preparing_events :: "string \<Rightarrow> cevent list \<Rightarrow> bool" where
  "preparing_events n t \<equiv> plain t \<and> list_all (adds_at_most n) t"

lemma exec_prepare_events:
  assumes "exec_prepare S p cfg h = (y, h')"
  obtains t where "h' = h @ t" "preparing_events (netns (px_env p)) t"
proof -
  from net_codeE[OF exec_prepare_within assms] obtain t where t: "h' = h @ t" "plain t" by blast
  moreover from withinE[OF exec_prepare_adds assms] t(1) have "list_all (only_adds (netns (px_env p))) t" by auto
  ultimately show thesis by (intro that[of t]) (auto simp: list_all_iff adds_at_most_intros)
qed

lemma clear_bridge_events:
  assumes "clear_bridge S env h = (z, h')"
  obtains t where "h' = h @ t" "preparing_events n t"
proof -
  from net_codeE[OF clear_bridge_within assms] obtain t where t: "h' = h @ t" "plain t" by blast
  moreover from withinE[OF clear_bridge_adds_none assms] t(1) have "list_all (adds_at_most n) t" by auto
  ultimately show thesis using that by simp
qed

lemma dropped_in_exec:
  assumes "leak_inv L new h2" and "task new = None" and "prefix h2 s" and "s \<noteq> h2" and "suspends (last s)"
    and "exec_prepare S new cfg h2 = (y, h3)" and "prefix s (h3 @ t)"
    and "case y of Inr _ \<Rightarrow> spawn_end t | Inl (Error e) \<Rightarrow> \<exists>z. clear_bridge S (px_env new) h3 = (z, h3 @ t) | _ \<Rightarrow> t = []"
  shows "proxy_inv new s \<and> namespaces s \<subseteq> insert (netns (px_env new)) L"
proof -
  let ?n = "netns (px_env new)"
  from assms(6) obtain t3 where t3: "h3 = h2 @ t3" "preparing_events ?n t3" by (rule exec_prepare_events)
  from assms(3) obtain u where s: "s = h2 @ u" by (auto simp: prefix_def)
  with assms(4,7) t3(1) have u: "s = h2 @ u" "u \<noteq> []" "prefix u (t3 @ t)" by auto
  have "preparing_events ?n u"
  proof (cases "spawn_end t")
    case True
    with u(1,2) assms(5) have "u \<noteq> t3 @ t" by (auto simp: spawn_end_def)
    with True u(3) have "prefix u t3" by (auto simp: spawn_end_def prefix_snoc)
    with t3(2) show ?thesis by (auto intro: plain_prefix prefix_all)
  next
    case False
    have "preparing_events ?n t"
    proof (cases "t = []")
      case False
      with assms(8) \<open>\<not> spawn_end t\<close> obtain z where "clear_bridge S (px_env new) h3 = (z, h3 @ t)"
        by (auto split: sum.splits failure.splits)
      then show ?thesis by (rule clear_bridge_events) simp
    qed simp
    with t3(2) have all: "preparing_events ?n (t3 @ t)" by simp
    show ?thesis
      using plain_prefix[OF u(3)] prefix_all[OF u(3)] all by blast
  qed
  moreover have "namespaces h2 \<subseteq> L" using assms(1,2) by (simp add: leak_inv_idle)
  ultimately show ?thesis
    using assms(1) adds_at_most_fold[of ?n u "namespaces h2"]
    by (auto simp: u(1) namespaces_append leak_inv_def proxy_inv_plain)
qed

lemma dropped_leak:
  assumes "leak_inv L p h" and "reload_dropped S p cfg h k = Some (p', h')"
  shows "task p' = None \<and> proxy_inv p' h' \<and> namespaces h' \<subseteq> insert (netns (px_env p')) L"
    and "\<exists>t. h' = h @ t \<and> t \<noteq> [] \<and> prefix h' (snd (proxy_reload S p cfg h))"
proof -
  obtain x H where H: "proxy_reload S p cfg h = (x, H)" by fastforce
  obtain r p1 h1 where stop: "proxy_stop S p h = (Inr (r, p1), h1)" using proxy_stop_returns by blast
  from assms(1) have inv: "proxy_inv p h" by (simp add: leak_inv_def)
  from proxy_stop_leak[OF assms(1) stop] have p1: "leak_inv L p1 h1" "task p1 = None" by simp_all
  let ?n = "length h + k"
  from assms(2) H have h': "h' = take ?n H" "0 < k" "length h' = ?n" "suspends (last h')"
    and p': "p' = reload_state_at S p cfg h ?n"
    by (auto simp: reload_dropped_def Let_def split: if_splits)
  have pre: "prefix h' H" by (simp add: h'(1) take_is_prefix)
  from inv stop have hh1: "prefix h h1" by (rule proxy_stop_prefix)
  have h1H: "prefix h1 H"
    using inv stop H by (rule reload_tail) (auto elim!: withinE[OF proxy_new_plain] exec_prepare_events)
  show "\<exists>t. h' = h @ t \<and> t \<noteq> [] \<and> prefix h' (snd (proxy_reload S p cfg h))"
  proof -
    from hh1 h1H obtain t where "H = h @ t" by (auto simp: prefix_def)
    with h' pre H have "h' = h @ take k t" "take k t \<noteq> []" by auto
    with pre H show ?thesis by auto
  qed
  show "task p' = None \<and> proxy_inv p' h' \<and> namespaces h' \<subseteq> insert (netns (px_env p')) L"
  proof (cases "?n \<le> length h1")
    case True
    with stop have "p' = p1" by (simp add: p' reload_state_at_def)
    moreover have "h' = take ?n h1" using h1H True by (auto simp: h'(1) prefix_def)
    ultimately show ?thesis
      using dropped_in_stop[OF assms(1) stop _ _ True h'(4)] h'(2) p1(2) by auto
  next
    case False
    then have h1h': "prefix h1 h'"
      using h1H h'(3) pre by (metis le_cases prefix_length_prefix)
    show ?thesis
      using inv stop H
    proof (cases rule: reload_tail)
      case stopped
      with pre h'(3) False prefix_length_le[OF pre] show ?thesis by simp
    next
      case (renewing f t)
      with stop have "p' = p1" by (auto simp: p' reload_state_at_def split: sum.splits)
      with dropped_in_new[OF p1 renewing(2) pre h1h'] p1(2) show ?thesis by (auto simp: leak_inv_idle)
    next
      case (prepared new h2 y h3 t)
      note new = proxy_stop_new_leak[OF assms(1) stop prepared(1)]
      show ?thesis
      proof (cases "?n \<le> length h2")
        case True
        with stop prepared(1) have "p' = p1" by (simp add: p' reload_state_at_def)
        moreover have "prefix h2 H"
          using prepared(2,3) by (auto elim!: exec_prepare_events)
        then have "prefix h' h2" using True h'(3) pre by (metis prefix_length_prefix)
        ultimately show ?thesis
          using dropped_in_new[OF p1 prepared(1) _ h1h'] p1(2) by (auto simp: leak_inv_idle)
      next
        case late: False
        with stop prepared(1) False renewed[OF p1(2) new(2)] have "p' = new"
          by (simp add: p' reload_state_at_def)
        moreover have "prefix h2 H" using prepared(2,3) by (auto elim!: exec_prepare_events)
        then have "prefix h2 h'" using late h'(3) pre by (metis le_cases prefix_length_prefix)
        moreover have "h' \<noteq> h2" using late h'(3) by auto
        ultimately show ?thesis
          using dropped_in_exec[OF new _ _ h'(4) prepared(2), of t] pre prepared(3,4) new(2) by auto
      qed
    qed
  qed
qed

lemma exec_prepare_get_routes:
  assumes "exec_prepare S p cfg h = (Inr argv, h')"
  obtains t u where "h' = h @ t @ GetRoutes # u" "Exec (ip_netns_add (netns (px_env p))) \<in> set t"
proof -
  from assms obtain exe where net: "set_net S (px_env p) (prc_proxy_ports cfg) (prc_listen_port cfg) (prc_safe_mode cfg)
       (h @ [UdsBind (ipc_path (opt p)), SpawnUdsServer (ipc_path (opt p)) cfg, CurrentExe]) = (Inr (), h')"
    by (rule exec_prepare_Inr)
  from this disjI1[OF refl] obtain h1 s where
    sb: "setenv_bridge S (px_env p) (h @ [UdsBind (ipc_path (opt p)), SpawnUdsServer (ipc_path (opt p)) cfg, CurrentExe])
       = (Inr (), h1)" and h': "h' = h1 @ s" by (rule set_net_set_up)
  from setenv_bridge_Inr[OF sb] obtain q gw a mac rs where
    h1: "h1 = h @ [UdsBind (ipc_path (opt p)), SpawnUdsServer (ipc_path (opt p)) cfg, CurrentExe] @
       replicate (Suc q) QueryGateway @ set_up_events (px_env p) gw a mac rs"
    by auto
  show thesis
    by (rule that[of "[UdsBind (ipc_path (opt p)), SpawnUdsServer (ipc_path (opt p)) cfg, CurrentExe] @
         replicate (Suc q) QueryGateway @ map Exec (link_script (px_env p)) @
         [Exec (ip_address ''del'' (env_ip (px_env p)) (device (px_env p)))] @
         map Exec (route_script (px_env p) gw (ipv4_to_string a @ ''/32'')) @
         [ListInterfaces, Exec (ip_netns (netns (px_env p)) (arp_set (ipv4_to_string a) mac (bridge2 (px_env p))))]"
         "map DelRoute (filter (kernel_route (px_env p)) rs) @ s"])
      (simp_all add: h' h1 set_up_defs link_script_def)
qed

text \<open>Every reload that would succeed can be dropped at its second listing of routes, and then leaves
  the namespace of the new environment with a state without a task.\<close>

lemma dropped_leaks:
  assumes "leak_inv L p h" and "proxy_reload S p cfg h = (Inr (Inr (), p1), h1)"
    and "prc_proxy_ports cfg = Some ports"
  shows "\<exists>k p' h'. reload_dropped S p cfg h k = Some (p', h') \<and> last h' = GetRoutes \<and>
     task p' = None \<and> px_env p' = px_env p1 \<and> netns (px_env p') \<in> namespaces h'"
proof -
  from assms(1) have inv: "proxy_inv p h" by (simp add: leak_inv_def)
  from this assms(2) show ?thesis
  proof (cases rule: proxy_reload_cases)
    case (served p2 h2 new h3)
    then obtain argv c h4 where ex: "exec_prepare S new cfg h3 = (Inr argv, h4)" and rx: "rx new = Some c"
      and p1: "p1 = new\<lparr>rx := None, task := Some c\<rparr>" and h1: "h1 = h4 @ [SpawnTask c argv]"
      unfolding reload_done_def by blast
    from ex obtain t u where t: "h4 = h3 @ t @ GetRoutes # u" "Exec (ip_netns_add (netns (px_env new))) \<in> set t"
      by (rule exec_prepare_get_routes)
    from withinE[OF exec_prepare_adds ex] t(1) have adds: "list_all (only_adds (netns (px_env new))) (t @ [GetRoutes])"
      by auto
    from proxy_stop_leak[OF assms(1) served(1)] have p2: "task p2 = None" by simp
    from proxy_stop_new_leak[OF assms(1) served(1,3)] have new: "task new = None" by simp
    from proxy_stop_inv[OF inv served(1)] have opt: "opt p2 = opt p" by simp
    obtain s where s: "h3 = h2 @ s" using withinE[OF proxy_new_plain served(3)] by blast
    obtain r where "h2 = h @ r" using proxy_stop_prefix[OF inv served(1)] by (auto simp: prefix_def)
    with s have h3: "h3 = h @ r @ s" "length h2 \<le> length h3" by simp_all
    let ?cut = "h3 @ t @ [GetRoutes]"
    have "reload_state_at S p cfg h (length ?cut) = new"
      using served(1,3) h3(2) renewed[OF p2 new] by (simp add: reload_state_at_def opt)
    then have "reload_dropped S p cfg h (length ?cut - length h) = Some (new, ?cut)"
      using assms(2) by (simp add: reload_dropped_def h1 t(1) h3(1))
    moreover have "namespaces ?cut = insert (netns (px_env new)) (namespaces h3)"
      unfolding namespaces_append[of h3] using adds t(2) by (intro only_adds_added) auto
    ultimately show ?thesis
      using new p1 by (intro exI[of _ "length ?cut - length h"] exI[of _ new] exI[of _ ?cut]) simp
  qed (use assms in \<open>auto simp: reload_failed_def\<close>)
qed

subsection \<open>Properties\<close>

text \<open>C16: the state after a reload that was dropped. Wherever a reload is dropped, no sub proxy runs
  afterwards and the state holds no task, so stopping the proxy does nothing; and of the namespaces
  at most one is left, that of the environment in the state.\<close>

theorem dropped_reload_state:
  assumes "lifecycle_inv p h" and "reload_dropped S p cfg h k = Some (p', h')"
  shows "running h' = {} \<and> proxy_stop S p' h' = (Inr (Inr (), p'), h') \<and>
     namespaces h' \<subseteq> {netns (px_env p')}"
  using dropped_leak(1)[of "{}"] assms by (fastforce simp: lifecycle_leak proxy_stop_idle proxy_inv_def)

subsection \<open>Concrete drops\<close>

theorem dropped_reload_state_witness:
  "\<exists>k p' h'. reload_dropped demo_sys demo_proxy demo_cfg demo_start k = Some (p', h') \<and>
     running h' = {} \<and> namespaces h' = {netns (px_env p')}"
proof -
  obtain p1 h1 where "proxy_reload demo_sys demo_proxy demo_cfg demo_start = (Inr (Inr (), p1), h1)"
    using demo_reload by blast
  with dropped_leaks[of "{}", OF _ this] demo_lifecycle obtain k p' h' where
    dropped: "reload_dropped demo_sys demo_proxy demo_cfg demo_start k = Some (p', h')"
    "netns (px_env p') \<in> namespaces h'" by (auto simp: lifecycle_leak demo_cfg_def)
  with dropped_reload_state [OF demo_lifecycle dropped(1)] show ?thesis by blast
qed

end
