(* ===== verification/Config_Service.thy ===== *)
theory Config_Service
  imports Command_Line Cancellation
begin

text \<open>
  The interactive configuration service, \<open>cmd/interactive/handler.rs\<close> of the controller: the
  handling of a request, and the service with its lock, its task and its shutdown as a
  transition system in which the service, its client and the main flow interleave.
\<close>

subsection \<open>Handling a request\<close>

record config_request =
  cq_method :: string
  cq_body :: body

record config_response =
  cp_status :: u16
  cp_body :: string

definition read_config :: "sys \<Rightarrow> conf_lib \<Rightarrow> config_request \<Rightarrow> (cevent, ctl_config) io" where
  "read_config S F request =
     io_bind (io_lift (ext (body_bytes [] (cq_body request)))) (\<lambda>request_data.
     io_bind (io_lift (ext (json_config F request_data))) (\<lambda>raw_config.
       try_into_config S raw_config))"

definition config_handle ::
  "sys \<Rightarrow> conf_lib \<Rightarrow> proxy \<Rightarrow> config_request \<Rightarrow> (cevent, (error + config_response) \<times> proxy) io"
  where
  "config_handle S F p request =
     (if cq_method request \<noteq> ''PUT'' then io_ok (Inr \<lparr>cp_status = 405, cp_body = ''''\<rparr>, p)
      else io_bind (io_try (read_config S F request)) (\<lambda>r. case r of
          Inl e \<Rightarrow> io_ok (Inr \<lparr>cp_status = 400, cp_body = error_text e\<rparr>, p)
        | Inr config \<Rightarrow>
            io_bind (proxy_reload S p (proxy_config config)) (\<lambda>(r, p). case r of
                Inl e \<Rightarrow> io_ok (Inl e, p)
              | Inr _ \<Rightarrow> io_ok (Inr \<lparr>cp_status = 200, cp_body = ''''\<rparr>, p))))"

text \<open>What a panic of the handler leaves in the proxy: a panic of the reload is its only one.\<close>

definition handle_leftover :: "sys \<Rightarrow> conf_lib \<Rightarrow> proxy \<Rightarrow> config_request \<Rightarrow> cevent list \<Rightarrow> proxy" where
  "handle_leftover S F p request h = (case read_config S F request h of
       (Inr config, h1) \<Rightarrow> reload_leftover S p (proxy_config config) h1
     | _ \<Rightarrow> p)"

text \<open>What is left when the handler is dropped at the \<open>k\<close>th event of its work, which must suspend it:
  it waits for the body before its first event, and in the reload after it has the configuration.\<close>

definition handle_dropped ::
  "sys \<Rightarrow> conf_lib \<Rightarrow> proxy \<Rightarrow> config_request \<Rightarrow> cevent list \<Rightarrow> nat \<Rightarrow> (proxy \<times> cevent list) option" where
  "handle_dropped S F p request h k =
     (if cq_method request \<noteq> ''PUT'' then None
      else if k = 0 then Some (p, h)
      else (case read_config S F request h of
          (Inr config, h1) \<Rightarrow> reload_dropped S p (proxy_config config) h1 (length h + k - length h1)
        | _ \<Rightarrow> None))"

subsection \<open>The server\<close>

record config_server =
  cs_proxy :: proxy
  cs_task :: "nat option"
  cs_rx :: "nat option"
  cs_sender :: "nat option"

definition config_server_new :: "proxy \<Rightarrow> (cevent, config_server) io" where
  "config_server_new p =
     io_bind new_channel (\<lambda>c.
       io_ok \<lparr>cs_proxy = p, cs_task = None, cs_rx = Some c, cs_sender = Some c\<rparr>)"

definition serve_interactive :: "config_server \<Rightarrow> (cevent, config_server) io" where
  "serve_interactive cs =
     io_bind (io_lift (case cs_rx cs of None \<Rightarrow> panic ''unwrap config rx'' | Some c \<Rightarrow> Inr c)) (\<lambda>c.
     io_bind (io_emit (SpawnConfigServer c)) (\<lambda>_.
       io_ok (cs\<lparr>cs_rx := None, cs_task := Some c\<rparr>)))"

text \<open>\<open>stop\<close> up to the waiting for the task: with the lock held, the proxy is stopped and, when
  that succeeds, the task is told to shut down.\<close>

definition stop_service :: "sys \<Rightarrow> config_server \<Rightarrow> (cevent, (error + unit) \<times> config_server) io" where
  "stop_service S cs =
     io_bind (proxy_stop S (cs_proxy cs)) (\<lambda>(r, p).
     let cs = cs\<lparr>cs_proxy := p\<rparr> in case r of
         Inl e \<Rightarrow> io_ok (Inl e, cs)
       | Inr _ \<Rightarrow>
           io_bind (case cs_sender cs of Some c \<Rightarrow> io_emit (SendShutdown c) | None \<Rightarrow> io_ok ()) (\<lambda>_.
             io_ok (Inr (), cs\<lparr>cs_sender := None\<rparr>)))"

subsection \<open>The service as a transition system\<close>

text \<open>The task of the service listens for a request, waits with one for the lock, handles one with
  the lock held, has ended after the shutdown, or has panicked. The main flow
  registers the signals, awaits one of them, waits for the lock in \<open>stop\<close>, holds it and joins the
  task, or has finished.\<close>

datatype service_state =
  Listening | Waiting config_request | Handling config_request | Ended | Crashed

datatype main_state =
  Registering | Awaiting_signal "signal_kind list" | Stopping | Joining | Finished "unit res"

text \<open>What became of a request that was handled: its handler returned, or was dropped.\<close>

datatype answer = Answered "error + config_response" | Dropped

datatype lock_owner = Service_task | Main_flow

record service_world =
  sw_server :: config_server
  sw_history :: "cevent list"
  sw_lock :: "lock_owner option"
  sw_service :: service_state
  sw_main :: main_state
  sw_log :: "(config_request \<times> answer) list"

datatype move =
  Receive config_request
| Disconnect
| Lock
| Handle
| Drop nat
| Shut_down
| Register
| Signal
| Stop_proxy
| Join

text \<open>One step; \<open>None\<close> when the move is not possible. A request whose connection closes before it
  is handled is forgotten. When the connection closes while the request is handled, its handler is
  dropped where it is suspended, which releases the lock. The task sees the shutdown in its \<open>select!\<close> while it does not run a
  handler, and drops the connection with the request that waits on it. A panic of a handler
  releases the lock and ends the task. When the proxy cannot be stopped, the main flow ends with
  the error; otherwise it keeps the lock until it has joined the task.\<close>

fun service_step :: "sys \<Rightarrow> conf_lib \<Rightarrow> service_world \<Rightarrow> move \<Rightarrow> service_world option" where
  "service_step S F w (Receive request) =
     (if sw_service w = Listening then Some (w\<lparr>sw_service := Waiting request\<rparr>) else None)"
| "service_step S F w Disconnect = (case sw_service w of
       Waiting request \<Rightarrow> Some (w\<lparr>sw_service := Listening\<rparr>) | _ \<Rightarrow> None)"
| "service_step S F w Lock = (case sw_service w of
       Waiting request \<Rightarrow>
         if sw_lock w = None then Some (w\<lparr>sw_service := Handling request, sw_lock := Some Service_task\<rparr>)
         else None
     | _ \<Rightarrow> None)"
| "service_step S F w Handle = (case sw_service w of
       Handling request \<Rightarrow>
         (case config_handle S F (cs_proxy (sw_server w)) request (sw_history w) of
            (Inr (r, p), h) \<Rightarrow>
              Some (w\<lparr>sw_server := (sw_server w)\<lparr>cs_proxy := p\<rparr>, sw_history := h, sw_lock := None,
                sw_service := Listening, sw_log := sw_log w @ [(request, Answered r)]\<rparr>)
          | (Inl (Panic m), h) \<Rightarrow>
              Some (w\<lparr>sw_server := (sw_server w)\<lparr>cs_proxy :=
                  handle_leftover S F (cs_proxy (sw_server w)) request (sw_history w)\<rparr>,
                sw_history := h, sw_lock := None, sw_service := Crashed\<rparr>)
          | _ \<Rightarrow> None)
     | _ \<Rightarrow> None)"
| "service_step S F w (Drop k) = (case sw_service w of
       Handling request \<Rightarrow>
         (case handle_dropped S F (cs_proxy (sw_server w)) request (sw_history w) k of
            Some (p, h) \<Rightarrow>
              Some (w\<lparr>sw_server := (sw_server w)\<lparr>cs_proxy := p\<rparr>, sw_history := h, sw_lock := None,
                sw_service := Listening, sw_log := sw_log w @ [(request, Dropped)]\<rparr>)
          | None \<Rightarrow> None)
     | _ \<Rightarrow> None)"
| "service_step S F w Shut_down =
     (if cs_sender (sw_server w) = None \<and>
         (case sw_service w of Listening \<Rightarrow> True | Waiting _ \<Rightarrow> True | _ \<Rightarrow> False)
      then Some (w\<lparr>sw_service := Ended\<rparr>) else None)"
| "service_step S F w Register = (case sw_main w of
       Registering \<Rightarrow>
         (case signals_from_kinds RegisterSignal (sys_signal S) [Interrupt, Terminate] (sw_history w) of
            (Inr signals, h) \<Rightarrow> Some (w\<lparr>sw_main := Awaiting_signal signals, sw_history := h\<rparr>)
          | (Inl f, h) \<Rightarrow> Some (w\<lparr>sw_main := Finished (Inl f), sw_history := h\<rparr>))
     | _ \<Rightarrow> None)"
| "service_step S F w Signal = (case sw_main w of
       Awaiting_signal signals \<Rightarrow>
         (case signals_wait WaitSignals signals (sw_history w) of
            (Inr _, h) \<Rightarrow> Some (w\<lparr>sw_main := Stopping, sw_history := h\<rparr>)
          | (Inl f, h) \<Rightarrow> Some (w\<lparr>sw_main := Finished (Inl f), sw_history := h\<rparr>))
     | _ \<Rightarrow> None)"
| "service_step S F w Stop_proxy =
     (if sw_main w = Stopping \<and> sw_lock w = None then
        (case stop_service S (sw_server w) (sw_history w) of
           (Inr (Inr _, cs), h) \<Rightarrow>
             Some (w\<lparr>sw_server := cs, sw_history := h, sw_lock := Some Main_flow, sw_main := Joining\<rparr>)
         | (Inr (Inl e, cs), h) \<Rightarrow>
             Some (w\<lparr>sw_server := cs, sw_history := h, sw_main := Finished (Inl (Error e))\<rparr>)
         | _ \<Rightarrow> None)
      else None)"
| "service_step S F w Join =
     (case (sw_main w, cs_task (sw_server w)) of
        (Joining, None) \<Rightarrow> Some (w\<lparr>sw_lock := None, sw_main := Finished (Inr ())\<rparr>)
      | (Joining, Some t) \<Rightarrow>
          (case sw_service w of
             Ended \<Rightarrow> Some (w\<lparr>sw_history := sw_history w @ [AwaitConfigServer t], sw_lock := None,
               sw_main := Finished (Inr ())\<rparr>)
           | Crashed \<Rightarrow> Some (w\<lparr>sw_history := sw_history w @ [AwaitConfigServer t], sw_lock := None,
               sw_main := Finished (Inl (Error (External ''task panicked'')))\<rparr>)
           | _ \<Rightarrow> None)
      | _ \<Rightarrow> None)"

text \<open>The program ends with the main flow: no step is taken after it has finished.\<close>

definition service_move :: "sys \<Rightarrow> conf_lib \<Rightarrow> service_world \<Rightarrow> move \<Rightarrow> service_world option" where
  "service_move S F w m = (case sw_main w of Finished r \<Rightarrow> None | _ \<Rightarrow> service_step S F w m)"

inductive reaches :: "sys \<Rightarrow> conf_lib \<Rightarrow> service_world \<Rightarrow> service_world \<Rightarrow> bool" for S F w0 where
  here: "reaches S F w0 w0"
| moved: "reaches S F w0 w \<Longrightarrow> service_move S F w m = Some w' \<Longrightarrow> reaches S F w0 w'"

subsection \<open>What a request does\<close>

lemma read_config_within: "net_code (read_config S F request)"
  unfolding read_config_def try_into_config_def
  by (intro within_intros) (simp_all add: ctl_config_no_panic)

lemma read_config_no_netns: "within no_netns UNIV (read_config S F request)"
proof -
  have "within no_netns UNIV (list_interfaces S)" by (rule withinI) (simp add: list_interfaces_run)
  then show ?thesis
    unfolding read_config_def try_into_config_def by (intro within_intros) simp_all
qed

lemma read_config_keeps:
  assumes "read_config S F request h = (x, h')"
  shows "leak_inv L p h \<Longrightarrow> leak_inv L p h'" and "proxy_inv p h \<Longrightarrow> proxy_inv p h'"
    and "x \<noteq> Inl (Panic m)"
proof -
  from net_codeE[OF read_config_within assms] obtain t where t: "h' = h @ t" "plain t" by blast
  from withinE[OF read_config_no_netns assms] t(1) have "list_all no_netns t" by auto
  with t show "leak_inv L p h \<Longrightarrow> leak_inv L p h'" by (simp add: leak_inv_plain)
  from t show "proxy_inv p h \<Longrightarrow> proxy_inv p h'" by (simp add: proxy_inv_plain)
  show "x \<noteq> Inl (Panic m)"
    using assms by (auto simp: read_config_def try_into_config_def io_bind_run list_interfaces_run
        ctl_config_no_panic ext_def split: sum.splits)
qed

text \<open>A request asks for a configuration when its body is the document of one that converts.\<close>

definition configures :: "conf_lib \<Rightarrow> config_request \<Rightarrow> ctl_config \<Rightarrow> bool" where
  "configures F request config \<longleftrightarrow> (\<exists>data raw interfaces.
     body_bytes [] (cq_body request) = Inr data \<and> json_config F data = Inr raw \<and>
     ctl_config_try_from interfaces raw = Inr config)"

lemma read_config_configures:
  "read_config S F request h = (Inr config, h') \<Longrightarrow> configures F request config"
  by (auto simp: read_config_def try_into_config_def configures_def list_interfaces_run elim!: io_bind_Inr)

lemma config_handle_cases:
  assumes "config_handle S F p request h = (Inr (r, p'), h')"
  obtains
    (not_put) "cq_method request \<noteq> ''PUT''" "r = Inr \<lparr>cp_status = 405, cp_body = ''''\<rparr>" "p' = p" "h' = h"
  | (unreadable) e where "cq_method request = ''PUT''" "read_config S F request h = (Inl (Error e), h')"
      "r = Inr \<lparr>cp_status = 400, cp_body = error_text e\<rparr>" "p' = p"
  | (reloaded) config h1 x where "cq_method request = ''PUT''" "read_config S F request h = (Inr config, h1)"
      "proxy_reload S p (proxy_config config) h1 = (Inr (x, p'), h')"
      "r = map_sum id (\<lambda>_. \<lparr>cp_status = 200, cp_body = ''''\<rparr>) x"
proof (cases "cq_method request = ''PUT''")
  case False
  with assms show thesis by (intro not_put) (simp_all add: config_handle_def)
next
  case put: True
  show thesis
  proof (cases "read_config S F request h")
    case (Pair x h1)
    show thesis
    proof (cases x)
      case (Inl f)
      with assms put Pair unreadable show thesis
        by (cases f) (auto simp: config_handle_def io_bind_run io_try_run)
    next
      case (Inr config)
      with assms put Pair have "io_bind (proxy_reload S p (proxy_config config)) (\<lambda>(r, p). case r of
                Inl e \<Rightarrow> io_ok (Inl e, p)
              | Inr _ \<Rightarrow> io_ok (Inr \<lparr>cp_status = 200, cp_body = ''''\<rparr>, p)) h1 = (Inr (r, p'), h')"
        by (simp add: config_handle_def io_bind_run io_try_run)
      then obtain y p1 h2 where "proxy_reload S p (proxy_config config) h1 = (Inr (y, p1), h2)"
        "(case y of Inl e \<Rightarrow> io_ok (Inl e, p1)
              | Inr _ \<Rightarrow> io_ok (Inr \<lparr>cp_status = 200, cp_body = ''''\<rparr>, p1)) h2 = (Inr (r, p'), h')"
        by (auto elim!: io_bind_Inr)
      with put Pair Inr show thesis by (intro reloaded[of config h1 y]) (auto split: sum.splits)
    qed
  qed
qed

lemma config_handle_panic:
  assumes "config_handle S F p request h = (Inl (Panic m), h')"
  obtains config h1 where "read_config S F request h = (Inr config, h1)"
    "proxy_reload S p (proxy_config config) h1 = (Inl (Panic m), h')"
    "handle_leftover S F p request h = reload_leftover S p (proxy_config config) h1"
proof -
  obtain x h1 where rd: "read_config S F request h = (x, h1)" by (cases "read_config S F request h")
  with assms read_config_keeps(3)[OF rd] obtain config where x: "x = Inr config"
    by (auto simp: config_handle_def io_bind_run io_try_run split: if_splits sum.splits failure.splits)
  with assms rd have "proxy_reload S p (proxy_config config) h1 = (Inl (Panic m), h')"
    by (auto simp: config_handle_def io_bind_run io_try_run split: if_splits prod.splits sum.splits failure.splits)
  with rd x that show thesis by (simp add: handle_leftover_def)
qed

lemma config_handle_leak:
  assumes "leak_inv L p h" and "config_handle S F p request h = (Inr (r, p'), h')"
  shows "leak_inv L p' h'"
  using assms(2)
proof (cases rule: config_handle_cases)
  case (unreadable e)
  with read_config_keeps(1)[OF unreadable(2)] assms(1) show ?thesis by simp
next
  case (reloaded config h1 x)
  with proxy_reload_leak[OF read_config_keeps(1)[OF reloaded(2) assms(1)]] show ?thesis by simp
qed (use assms(1) in simp)

text \<open>Handlers that end too early leave at most one namespace more.\<close>

definition leaks_one :: "string set \<Rightarrow> proxy \<Rightarrow> cevent list \<Rightarrow> bool" where
  "leaks_one L p h \<longleftrightarrow> task p = None \<and> (\<exists>n. leak_inv (insert n L) p h)"

lemma leaks_oneI:
  "task p = None \<Longrightarrow> proxy_inv p h \<Longrightarrow> namespaces h \<subseteq> insert n L \<Longrightarrow> leaks_one L p h"
  by (auto simp: leaks_one_def leak_inv_idle)

lemma config_handle_crash:
  assumes "leak_inv L p h" and "config_handle S F p request h = (Inl (Panic m), h')"
  shows "leaks_one L (handle_leftover S F p request h) h'"
  using assms(2)
proof (rule config_handle_panic)
  fix config h1
  assume rd: "read_config S F request h = (Inr config, h1)"
    and rl: "proxy_reload S p (proxy_config config) h1 = (Inl (Panic m), h')"
    and left: "handle_leftover S F p request h = reload_leftover S p (proxy_config config) h1"
  from reload_panic_leak[OF read_config_keeps(1)[OF rd assms(1)] rl] show ?thesis
    unfolding left by (elim conjE, intro leaks_oneI) auto
qed

lemma handle_dropped_cases:
  assumes "handle_dropped S F p request h k = Some (p', h')"
  obtains (early) "k = 0" "p' = p" "h' = h" "cq_method request = ''PUT''"
  | (late) config h1 j where "cq_method request = ''PUT''" "read_config S F request h = (Inr config, h1)"
      "reload_dropped S p (proxy_config config) h1 j = Some (p', h')"
  using assms by (auto simp: handle_dropped_def split: if_splits prod.splits sum.splits)

lemma handle_dropped_leak:
  assumes "leak_inv L p h" and "handle_dropped S F p request h k = Some (p', h')"
  shows "leak_inv L p' h' \<or> leaks_one L p' h'"
  using assms(2)
proof (cases rule: handle_dropped_cases)
  case (late config h1 j)
  from dropped_leak(1)[OF read_config_keeps(1)[OF late(2) assms(1)] late(3)] show ?thesis
    by (auto intro: leaks_oneI)
qed (use assms(1) in simp)

subsection \<open>The invariant of the service\<close>

definition service_start :: "config_server \<Rightarrow> cevent list \<Rightarrow> service_world" where
  "service_start cs h = \<lparr>sw_server = cs, sw_history = h, sw_lock = None, sw_service = Listening,
     sw_main = Registering, sw_log = []\<rparr>"

definition fresh_server :: "config_server \<Rightarrow> cevent list \<Rightarrow> bool" where
  "fresh_server cs h \<longleftrightarrow> lifecycle_inv (cs_proxy cs) h \<and> task (cs_proxy cs) = None \<and>
     cs_task cs \<noteq> None \<and> cs_sender cs \<noteq> None"

text \<open>The lock is held exactly by the task while it handles a request and by the main flow while
  it joins the task.\<close>

definition lock_ok :: "service_world \<Rightarrow> bool" where
  "lock_ok w \<longleftrightarrow>
     (sw_lock w = Some Service_task \<longleftrightarrow> (\<exists>request. sw_service w = Handling request)) \<and>
     (sw_lock w = Some Main_flow \<longleftrightarrow> sw_main w = Joining)"

text \<open>The main flow has not tried to stop the proxy.\<close>

fun up :: "main_state \<Rightarrow> bool" where
  "up Registering = True"
| "up (Awaiting_signal signals) = True"
| "up Stopping = True"
| "up Joining = False"
| "up (Finished r) = False"

definition server_ok :: "service_world \<Rightarrow> bool" where
  "server_ok w \<longleftrightarrow> cs_task (sw_server w) \<noteq> None \<and>
     (up (sw_main w) \<longrightarrow> cs_sender (sw_server w) \<noteq> None) \<and>
     (sw_service w = Ended \<longrightarrow> cs_sender (sw_server w) = None) \<and>
     (sw_main w = Joining \<longrightarrow> cs_sender (sw_server w) = None) \<and>
     (sw_main w = Finished (Inr ()) \<longrightarrow> sw_service w = Ended)"

text \<open>A dropped or crashed handler may leave a namespace.\<close>

definition leaks :: "service_world \<Rightarrow> nat" where
  "leaks w = length (filter (\<lambda>(request, answer). answer = Dropped) (sw_log w)) +
     (if sw_service w = Crashed then 1 else 0)"

definition leak_bounded :: "nat \<Rightarrow> proxy \<Rightarrow> cevent list \<Rightarrow> bool" where
  "leak_bounded n p h \<longleftrightarrow> (\<exists>L. leak_inv L p h \<and> finite L \<and> card L \<le> n)"

definition proxy_ok :: "service_world \<Rightarrow> bool" where
  "proxy_ok w \<longleftrightarrow> leak_bounded (leaks w) (cs_proxy (sw_server w)) (sw_history w) \<and>
     (sw_service w = Crashed \<or> cs_sender (sw_server w) = None \<longrightarrow>
        task (cs_proxy (sw_server w)) = None)"

lemma leak_bounded_inv: "leak_bounded n p h \<Longrightarrow> proxy_inv p h"
  by (auto simp: leak_bounded_def leak_inv_def)

lemma leak_bounded_plain:
  "leak_bounded n p h \<Longrightarrow> plain t \<Longrightarrow> list_all no_netns t \<Longrightarrow> leak_bounded n p (h @ t)"
  unfolding leak_bounded_def by (blast intro: leak_inv_plain)

lemma leak_bounded_map:
  "leak_bounded n p h \<Longrightarrow> (\<And>L. leak_inv L p h \<Longrightarrow> leak_inv L p' h') \<Longrightarrow> leak_bounded n p' h'"
  unfolding leak_bounded_def by blast

lemma leak_bounded_Suc:
  assumes "leak_bounded n p h" and "\<And>L. leak_inv L p h \<Longrightarrow> leak_inv L p' h' \<or> leaks_one L p' h'"
  shows "leak_bounded (Suc n) p' h'"
proof -
  from assms(1) obtain L where L: "leak_inv L p h" "finite L" "card L \<le> n" by (auto simp: leak_bounded_def)
  from assms(2)[OF L(1)] show ?thesis
  proof
    assume "leaks_one L p' h'"
    then obtain m where "leak_inv (insert m L) p' h'" by (auto simp: leaks_one_def)
    moreover have "card (insert m L) \<le> Suc n" using L(2,3) by (simp add: card_insert_if)
    ultimately show ?thesis using L(2) unfolding leak_bounded_def by blast
  qed (use L in \<open>auto simp: leak_bounded_def\<close>)
qed

lemma leak_bounded_namespaces:
  assumes "leak_bounded n p h"
  shows "proxy_netns p \<subseteq> namespaces h" "finite (namespaces h)" "card (namespaces h - proxy_netns p) \<le> n"
proof -
  from assms obtain L where L: "leak_inv L p h" "finite L" "card L \<le> n" by (auto simp: leak_bounded_def)
  then show "proxy_netns p \<subseteq> namespaces h" by (simp add: leak_inv_def)
  from L have sub: "namespaces h - proxy_netns p \<subseteq> L" "namespaces h \<subseteq> proxy_netns p \<union> L"
    by (auto simp: leak_inv_def)
  moreover have "finite (proxy_netns p)" by (simp add: proxy_netns_def split: option.split)
  ultimately show "finite (namespaces h)" using L(2) by (meson finite_UnI finite_subset)
  from card_mono[OF L(2) sub(1)] L(3) show "card (namespaces h - proxy_netns p) \<le> n" by simp
qed

lemma start_ok:
  assumes "fresh_server cs h"
  shows "lock_ok (service_start cs h) \<and> server_ok (service_start cs h) \<and> proxy_ok (service_start cs h)"
proof -
  from assms have "leak_bounded 0 (cs_proxy cs) h"
    unfolding leak_bounded_def fresh_server_def lifecycle_leak by (intro exI[of _ "{}"]) simp
  with assms show ?thesis
    by (auto simp: fresh_server_def service_start_def lock_ok_def server_ok_def proxy_ok_def leaks_def)
qed

lemma stop_service_run:
  assumes "stop_service S cs h = (Inr (r, cs'), h')"
  obtains p h1 where "proxy_stop S (cs_proxy cs) h = (Inr (r, p), h1)"
    "cs' = (if r = Inr () then cs\<lparr>cs_proxy := p, cs_sender := None\<rparr> else cs\<lparr>cs_proxy := p\<rparr>)"
    "h' = h1 \<or> (\<exists>c. h' = h1 @ [SendShutdown c])"
proof -
  from assms obtain r1 p h1 where stop: "proxy_stop S (cs_proxy cs) h = (Inr (r1, p), h1)"
    and rest: "(let cs = cs\<lparr>cs_proxy := p\<rparr> in case r1 of
         Inl e \<Rightarrow> io_ok (Inl e, cs)
       | Inr _ \<Rightarrow>
           io_bind (case cs_sender cs of Some c \<Rightarrow> io_emit (SendShutdown c) | None \<Rightarrow> io_ok ()) (\<lambda>_.
             io_ok (Inr (), cs\<lparr>cs_sender := None\<rparr>))) h1 = (Inr (r, cs'), h')"
    unfolding stop_service_def by (auto elim!: io_bind_Inr)
  show thesis
  proof (rule that[of p h1])
    show "proxy_stop S (cs_proxy cs) h = (Inr (r, p), h1)"
      using stop rest by (cases r1) (auto simp: Let_def io_bind_run split: option.splits)
  qed (use rest in \<open>cases r1; auto simp: Let_def io_bind_run split: option.splits\<close>)+
qed

lemma stop_service_returns: "\<exists>r cs' h'. stop_service S cs h = (Inr (r, cs'), h')"
proof -
  obtain r p h1 where "proxy_stop S (cs_proxy cs) h = (Inr (r, p), h1)" using proxy_stop_returns by blast
  then show ?thesis
    by (cases r; cases "cs_sender cs") (simp_all add: stop_service_def Let_def io_bind_run)
qed

fun_cases service_stepE: "service_step S F w m = Some w'"

lemma lock_ok_step:
  assumes "lock_ok w" and "service_step S F w m = Some w'"
  shows "lock_ok w'"
  using assms(2)
  by (rule service_stepE; insert assms(1))
    (auto simp: lock_ok_def split: if_splits service_state.splits main_state.splits sum.splits
      prod.splits failure.splits option.splits)

lemma server_ok_step:
  assumes "lock_ok w" and "server_ok w" and "\<And>r. sw_main w \<noteq> Finished r"
    and "service_step S F w m = Some w'"
  shows "server_ok w'"
proof (cases "m = Stop_proxy")
  case True
  with assms(4) obtain r cs h where main: "sw_main w = Stopping" "sw_lock w = None"
    and st: "stop_service S (sw_server w) (sw_history w) = (Inr (r, cs), h)"
    and w': "w' = (case r of
        Inr _ \<Rightarrow> w\<lparr>sw_server := cs, sw_history := h, sw_lock := Some Main_flow, sw_main := Joining\<rparr>
      | Inl e \<Rightarrow> w\<lparr>sw_server := cs, sw_history := h, sw_main := Finished (Inl (Error e))\<rparr>)"
    by (auto split: if_splits sum.splits prod.splits)
  from st show ?thesis
    by (rule stop_service_run) (use assms(2) main w' in \<open>cases r; auto simp: server_ok_def\<close>)
next
  case False
  from assms(4) show ?thesis
    by (rule service_stepE; insert assms(1-3) False)
      (auto simp: lock_ok_def server_ok_def split: if_splits service_state.splits main_state.splits sum.splits
        prod.splits failure.splits option.splits)
qed

lemma service_handleE:
  assumes "service_step S F w Handle = Some w'"
  obtains
    (answered) request r p h where "sw_service w = Handling request"
      "config_handle S F (cs_proxy (sw_server w)) request (sw_history w) = (Inr (r, p), h)"
      "w' = w\<lparr>sw_server := (sw_server w)\<lparr>cs_proxy := p\<rparr>, sw_history := h, sw_lock := None,
                sw_service := Listening, sw_log := sw_log w @ [(request, Answered r)]\<rparr>"
  | (panicked) request m h where "sw_service w = Handling request"
      "config_handle S F (cs_proxy (sw_server w)) request (sw_history w) = (Inl (Panic m), h)"
      "w' = w\<lparr>sw_server := (sw_server w)\<lparr>cs_proxy :=
                  handle_leftover S F (cs_proxy (sw_server w)) request (sw_history w)\<rparr>,
                sw_history := h, sw_lock := None, sw_service := Crashed\<rparr>"
  using assms by (auto split: service_state.splits prod.splits sum.splits failure.splits)

lemma service_dropE:
  assumes "service_step S F w (Drop k) = Some w'"
  obtains request p h where "sw_service w = Handling request"
    "handle_dropped S F (cs_proxy (sw_server w)) request (sw_history w) k = Some (p, h)"
    "w' = w\<lparr>sw_server := (sw_server w)\<lparr>cs_proxy := p\<rparr>, sw_history := h, sw_lock := None,
                sw_service := Listening, sw_log := sw_log w @ [(request, Dropped)]\<rparr>"
  using assms by (auto split: service_state.splits prod.splits option.splits)

lemma service_stop_proxyE:
  assumes "service_step S F w Stop_proxy = Some w'"
  obtains r cs h where "sw_main w = Stopping" "sw_lock w = None"
    "stop_service S (sw_server w) (sw_history w) = (Inr (r, cs), h)"
    "w' = (case r of
        Inr _ \<Rightarrow> w\<lparr>sw_server := cs, sw_history := h, sw_lock := Some Main_flow, sw_main := Joining\<rparr>
      | Inl e \<Rightarrow> w\<lparr>sw_server := cs, sw_history := h, sw_main := Finished (Inl (Error e))\<rparr>)"
  using assms by (auto split: if_splits sum.splits prod.splits)

lemma stop_service_proxy:
  assumes "stop_service S cs h = (Inr (r, cs'), h')"
  shows "proxy_inv (cs_proxy cs) h \<Longrightarrow> proxy_inv (cs_proxy cs') h' \<and> task (cs_proxy cs') = None \<and> running h' = {}"
    and "leak_inv L (cs_proxy cs) h \<Longrightarrow> leak_inv L (cs_proxy cs') h'"
proof -
  from assms obtain p h1 where stop: "proxy_stop S (cs_proxy cs) h = (Inr (r, p), h1)"
    and cs': "cs_proxy cs' = p" and h': "h' = h1 \<or> (\<exists>c. h' = h1 @ [SendShutdown c])"
    by (rule stop_service_run) (auto split: if_splits)
  show "proxy_inv (cs_proxy cs') h' \<and> task (cs_proxy cs') = None \<and> running h' = {}"
    if "proxy_inv (cs_proxy cs) h"
    using proxy_stop_inv[OF that stop] h' proxy_inv_plain[of p h1 "[SendShutdown c]" for c]
      plain_running(1)[of "[SendShutdown c]" h1 for c] by (auto simp: cs')
  show "leak_inv L (cs_proxy cs') h'" if "leak_inv L (cs_proxy cs) h"
    using proxy_stop_leak[OF that stop] h' leak_inv_plain[of L p h1 "[SendShutdown c]" for c]
    by (auto simp: cs')
qed

lemma history_ok:
  assumes "proxy_ok w" and "within (\<lambda>e. \<not> task_event e \<and> no_netns e) UNIV m" and "m (sw_history w) = (x, h)"
  shows "proxy_ok (w\<lparr>sw_main := main, sw_history := h\<rparr>)"
proof -
  from withinE[OF assms(2,3)] obtain t where "h = sw_history w @ t"
    "list_all (\<lambda>e. \<not> task_event e \<and> no_netns e) t" by blast
  then have "h = sw_history w @ t" "plain t" "list_all no_netns t" by (auto simp: plain_def list_all_iff)
  with assms(1) show ?thesis by (auto simp: proxy_ok_def leaks_def leak_bounded_plain)
qed

lemma register_within: "within (\<lambda>e. \<not> task_event e \<and> no_netns e) UNIV
    (signals_from_kinds RegisterSignal answer kinds)"
  by (intro within_intros) simp

lemma wait_within: "within (\<lambda>e. \<not> task_event e \<and> no_netns e) UNIV (signals_wait WaitSignals signals)"
  unfolding signals_wait_def by (intro within_intros) simp_all

lemma handling_up:
  assumes "lock_ok w" and "server_ok w" and "\<And>r. sw_main w \<noteq> Finished r" and "sw_service w = Handling request"
  shows "cs_sender (sw_server w) \<noteq> None"
  using assms by (cases "sw_main w") (auto simp: lock_ok_def server_ok_def)

lemma proxy_ok_step:
  assumes "lock_ok w" and "server_ok w" and "proxy_ok w" and "\<And>r. sw_main w \<noteq> Finished r"
    and "service_step S F w m = Some w'"
  shows "proxy_ok w'"
proof (cases m)
  case Handle
  from assms(3) have inv: "leak_bounded (leaks w) (cs_proxy (sw_server w)) (sw_history w)"
    by (simp add: proxy_ok_def)
  from assms(5)[unfolded Handle] show ?thesis
  proof (cases rule: service_handleE)
    case (answered request r p h)
    from leak_bounded_map[OF inv config_handle_leak[OF _ answered(2)]] handling_up[OF assms(1,2,4) answered(1)]
    show ?thesis by (auto simp: answered(1,3) proxy_ok_def leaks_def)
  next
    case (panicked request x h)
    note one = config_handle_crash[OF _ panicked(2)]
    from leak_bounded_Suc[OF inv disjI2[OF one]] have
      "leak_bounded (leaks w') (cs_proxy (sw_server w')) (sw_history w')"
      by (simp add: panicked(1,3) leaks_def)
    moreover from inv one have "task (cs_proxy (sw_server w')) = None"
      by (auto simp: panicked(3) leak_bounded_def leaks_one_def)
    ultimately show ?thesis by (simp add: proxy_ok_def)
  qed
next
  case (Drop k)
  from assms(3) have inv: "leak_bounded (leaks w) (cs_proxy (sw_server w)) (sw_history w)"
    by (simp add: proxy_ok_def)
  from assms(5)[unfolded Drop] show ?thesis
  proof (rule service_dropE)
    fix request p h
    assume hd: "sw_service w = Handling request"
      and dropped: "handle_dropped S F (cs_proxy (sw_server w)) request (sw_history w) k = Some (p, h)"
      and w': "w' = w\<lparr>sw_server := (sw_server w)\<lparr>cs_proxy := p\<rparr>, sw_history := h, sw_lock := None,
                sw_service := Listening, sw_log := sw_log w @ [(request, Dropped)]\<rparr>"
    from leak_bounded_Suc[OF inv handle_dropped_leak[OF _ dropped]] handling_up[OF assms(1,2,4) hd]
    show ?thesis by (auto simp: w' hd proxy_ok_def leaks_def)
  qed
next
  case Stop_proxy
  from assms(5)[unfolded Stop_proxy] show ?thesis
  proof (rule service_stop_proxyE)
    fix r cs h
    assume st: "stop_service S (sw_server w) (sw_history w) = (Inr (r, cs), h)" and
      w': "w' = (case r of
          Inr _ \<Rightarrow> w\<lparr>sw_server := cs, sw_history := h, sw_lock := Some Main_flow, sw_main := Joining\<rparr>
        | Inl e \<Rightarrow> w\<lparr>sw_server := cs, sw_history := h, sw_main := Finished (Inl (Error e))\<rparr>)"
    from assms(3) have inv: "leak_bounded (leaks w) (cs_proxy (sw_server w)) (sw_history w)"
      by (simp add: proxy_ok_def)
    from leak_bounded_map[OF inv stop_service_proxy(2)[OF st]]
      stop_service_proxy(1)[OF st leak_bounded_inv[OF inv]] show ?thesis
      by (cases r) (simp_all add: w' proxy_ok_def leaks_def)
  qed
next
  case Register
  with assms(5) history_ok[OF assms(3) register_within] show ?thesis
    by (auto split: main_state.splits prod.splits sum.splits simp del: signals_from_kinds.simps)
next
  case Signal
  with assms(5) history_ok[OF assms(3) wait_within] show ?thesis
    by (auto split: main_state.splits prod.splits sum.splits)
next
  case Join
  have "proxy_ok (w\<lparr>sw_main := main, sw_history := sw_history w @ [AwaitConfigServer t]\<rparr>)" for main t
    by (rule history_ok[OF assms(3), of "io_emit (AwaitConfigServer t)"]) (auto intro!: within_intros)
  with assms(3,5) Join show ?thesis
    by (auto simp: proxy_ok_def leaks_def split: main_state.splits option.splits service_state.splits)
qed (use assms(2,3,5) in \<open>auto simp: proxy_ok_def leaks_def server_ok_def split: if_splits service_state.splits\<close>)

lemma service_move_step:
  "service_move S F w m = Some w' \<longleftrightarrow> (\<forall>r. sw_main w \<noteq> Finished r) \<and> service_step S F w m = Some w'"
  by (auto simp: service_move_def split: main_state.splits)

lemma reaches_ok:
  assumes "reaches S F w0 w" and "lock_ok w0 \<and> server_ok w0 \<and> proxy_ok w0"
  shows "lock_ok w \<and> server_ok w \<and> proxy_ok w"
  using assms
proof (induction rule: reaches.induct)
  case (moved w m w')
  then have ok: "lock_ok w" "server_ok w" "proxy_ok w" and step: "service_step S F w m = Some w'"
    and run: "\<And>r. sw_main w \<noteq> Finished r" by (auto simp: service_move_step)
  from lock_ok_step[OF ok(1) step] server_ok_step[OF ok(1,2) run step] proxy_ok_step[OF ok run step]
  show ?case by simp
qed

lemma reaches_trans: "reaches S F w1 w2 \<Longrightarrow> reaches S F w0 w1 \<Longrightarrow> reaches S F w0 w2"
  by (induction rule: reaches.induct) (auto intro: reaches.moved)

subsection \<open>Shutting down\<close>

lemma down_step:
  assumes "lock_ok w" and "\<not> up (sw_main w)" and "service_move S F w m = Some w'"
  shows "sw_server w' = sw_server w \<and> sw_log w' = sw_log w \<and>
     \<not> up (sw_main w') \<and> m \<in> {Receive r | r. True} \<union> {Disconnect, Shut_down, Join}"
proof -
  from assms have join: "sw_main w = Joining" and step: "service_step S F w m = Some w'"
    by (cases "sw_main w"; auto simp: service_move_step)+
  from assms(1) join have lock: "sw_lock w = Some Main_flow" by (simp add: lock_ok_def)
  with assms(1) have "sw_service w \<noteq> Handling request" for request by (auto simp: lock_ok_def)
  with step lock join show ?thesis
    by (cases m) (auto split: if_splits service_state.splits option.splits)
qed

lemma down_reaches:
  assumes "reaches S F w w'" and "lock_ok w" and "\<not> up (sw_main w)"
  shows "sw_server w' = sw_server w \<and> sw_log w' = sw_log w \<and> \<not> up (sw_main w') \<and> lock_ok w'"
  using assms
proof (induction rule: reaches.induct)
  case (moved w1 m w2)
  then have "lock_ok w1" "\<not> up (sw_main w1)" by simp_all
  from down_step[OF this moved(2)] lock_ok_step[OF this(1)] moved show ?case
    by (auto simp: service_move_step)
qed simp

text \<open>A sequence of moves.\<close>

fun service_run :: "sys \<Rightarrow> conf_lib \<Rightarrow> service_world \<Rightarrow> move list \<Rightarrow> service_world option" where
  "service_run S F w [] = Some w"
| "service_run S F w (m # ms) = (case service_move S F w m of
       None \<Rightarrow> None | Some w' \<Rightarrow> service_run S F w' ms)"

lemma service_run_reaches: "service_run S F w ms = Some w' \<Longrightarrow> reaches S F w0 w \<Longrightarrow> reaches S F w0 w'"
  by (induction ms arbitrary: w) (auto intro: reaches.moved split: option.splits)

lemma join_completes:
  assumes "lock_ok w" and "server_ok w" and "sw_main w = Joining"
  shows "\<exists>ms w' r. length ms \<le> 2 \<and> set ms \<subseteq> {Shut_down, Join} \<and>
     service_run S F w ms = Some w' \<and> sw_main w' = Finished r"
proof -
  from assms obtain t where t: "cs_task (sw_server w) = Some t" "cs_sender (sw_server w) = None"
    "sw_lock w = Some Main_flow" by (auto simp: server_ok_def lock_ok_def)
  with assms(1) have busy: "sw_service w \<noteq> Handling request" for request by (auto simp: lock_ok_def)
  show ?thesis
  proof (cases "sw_service w = Ended \<or> sw_service w = Crashed")
    case True
    with assms(3) t(1) show ?thesis
      by (intro exI[of _ "[Join]"]) (auto simp: service_move_def)
  next
    case False
    with busy assms(3) t show ?thesis
      by (intro exI[of _ "[Shut_down, Join]"]) (cases "sw_service w"; auto simp: service_move_def)
  qed
qed

lemma stop_completes:
  assumes "lock_ok w" and "server_ok w" and "sw_main w = Stopping" and "sw_lock w = None"
  shows "\<exists>ms w' r. length ms \<le> 3 \<and> set ms \<subseteq> {Stop_proxy, Shut_down, Join} \<and>
     service_run S F w ms = Some w' \<and> sw_main w' = Finished r"
proof -
  obtain r cs h where st: "stop_service S (sw_server w) (sw_history w) = (Inr (r, cs), h)"
    using stop_service_returns by blast
  show ?thesis
  proof (cases r)
    case (Inl e)
    with st assms(3,4) show ?thesis
      by (intro exI[of _ "[Stop_proxy]"]) (auto simp: service_move_def)
  next
    case (Inr u)
    define w1 where "w1 = w\<lparr>sw_server := cs, sw_history := h, sw_lock := Some Main_flow, sw_main := Joining\<rparr>"
    from st Inr assms(3,4) have step: "service_step S F w Stop_proxy = Some w1" by (simp add: w1_def)
    from assms(3) have run: "sw_main w \<noteq> Finished x" for x by simp
    from join_completes[OF lock_ok_step[OF assms(1) step] server_ok_step[OF assms(1,2) run step], of S F]
    obtain ms w' x where "length ms \<le> 2" "set ms \<subseteq> {Shut_down, Join}" "service_run S F w1 ms = Some w'"
      "sw_main w' = Finished x" by (auto simp: w1_def)
    moreover have "service_move S F w Stop_proxy = Some w1" using step run by (simp add: service_move_step)
    ultimately show ?thesis by (intro exI[of _ "Stop_proxy # ms"]) auto
  qed
qed

subsection \<open>The specification of the service\<close>

text \<open>The abstract service keeps the life of the proxy: a refused request leaves it alone, an
  applied one makes the proxy serve the configuration of the request (or idle, without ports),
  one whose reload failed leaves it idle, and one that was dropped either had not begun or
  leaves it idle.\<close>

inductive service_spec ::
  "conf_lib \<Rightarrow> (config_request \<times> answer) list \<Rightarrow> life \<Rightarrow> bool" for F where
  unused: "service_spec F [] Idle"
| refused_method: "service_spec F log l \<Longrightarrow> cq_method request \<noteq> ''PUT'' \<Longrightarrow>
    service_spec F (log @ [(request, Answered (Inr \<lparr>cp_status = 405, cp_body = ''''\<rparr>))]) l"
| refused_body: "service_spec F log l \<Longrightarrow> cq_method request = ''PUT'' \<Longrightarrow>
    service_spec F (log @ [(request, Answered (Inr \<lparr>cp_status = 400, cp_body = text\<rparr>))]) l"
| applied: "service_spec F log l \<Longrightarrow> cq_method request = ''PUT'' \<Longrightarrow> configures F request config \<Longrightarrow>
    service_spec F (log @ [(request, Answered (Inr \<lparr>cp_status = 200, cp_body = ''''\<rparr>))])
      (life_step l (Reload (proxy_config config)) (Inr ()))"
| failed: "service_spec F log l \<Longrightarrow> cq_method request = ''PUT'' \<Longrightarrow> configures F request config \<Longrightarrow>
    service_spec F (log @ [(request, Answered (Inl e))]) (life_step l (Reload (proxy_config config)) (Inl e))"
| dropped_early: "service_spec F log l \<Longrightarrow> cq_method request = ''PUT'' \<Longrightarrow>
    service_spec F (log @ [(request, Dropped)]) l"
| dropped_late: "service_spec F log l \<Longrightarrow> cq_method request = ''PUT'' \<Longrightarrow> configures F request config \<Longrightarrow>
    service_spec F (log @ [(request, Dropped)]) Idle"

lemma handed_out_keeps:
  assumes "within no_uds UNIV m" and "m h = (x, h')"
  shows "handed_out h' path = handed_out h path"
  using assms by (auto elim!: withinE simp: handed_out_other)

lemma read_config_no_uds: "within no_uds UNIV (read_config S F request)"
proof -
  have "within no_uds UNIV (list_interfaces S)"
    by (rule withinI) (simp add: list_interfaces_run no_uds_def)
  then show ?thesis
    unfolding read_config_def try_into_config_def by (intro within_intros) simp_all
qed

lemma life_of_keeps: "handed_out h' (ipc_path (opt p)) = handed_out h (ipc_path (opt p)) \<Longrightarrow> life_of p h' = life_of p h"
  by (cases "task p") (simp_all add: life_of_def)

lemma config_handle_spec:
  assumes "proxy_inv p h" and "life_of p h = Some l" and "service_spec F log l"
    and "config_handle S F p request h = (Inr (r, p'), h')"
  shows "\<exists>l'. life_of p' h' = Some l' \<and> service_spec F (log @ [(request, Answered r)]) l'"
  using assms(4)
proof (cases rule: config_handle_cases)
  case not_put
  with assms(2,3) show ?thesis by (auto intro: service_spec.intros)
next
  case (unreadable e)
  from life_of_keeps[OF handed_out_keeps[OF read_config_no_uds unreadable(2)], of p] assms(2,3) unreadable
  show ?thesis by (auto intro: service_spec.intros)
next
  case (reloaded config h1 x)
  from read_config_keeps(2)[OF reloaded(2) assms(1)] have "proxy_inv p h1" .
  from proxy_reload_life[OF this reloaded(3), of l] have
    life: "life_of p' h' = Some (life_step l (Reload (proxy_config config)) x)" .
  have "service_spec F (log @ [(request, Answered r)]) (life_step l (Reload (proxy_config config)) x)"
    using assms(3) reloaded(1,4) read_config_configures[OF reloaded(2)]
    by (cases x) (auto intro: service_spec.applied service_spec.failed simp del: life_step.simps)
  with life show ?thesis by blast
qed

lemma handle_dropped_spec:
  assumes "leak_inv L p h" and "life_of p h = Some l" and "service_spec F log l"
    and "handle_dropped S F p request h k = Some (p', h')"
  shows "\<exists>l'. life_of p' h' = Some l' \<and> service_spec F (log @ [(request, Dropped)]) l'"
  using assms(4)
proof (cases rule: handle_dropped_cases)
  case early
  with assms(2,3) show ?thesis by (auto intro: service_spec.intros)
next
  case (late config h1 j)
  from dropped_leak(1)[OF read_config_keeps(1)[OF late(2) assms(1)] late(3)] have
    "life_of p' h' = Some Idle" by (simp add: life_of_def)
  with assms(3) late(1) read_config_configures[OF late(2)] show ?thesis
    by (auto intro: service_spec.dropped_late)
qed

text \<open>While the main flow has not stopped the proxy and no handler has panicked, the state
  represents what the specification makes of the requests answered so far.\<close>

definition spec_ok :: "conf_lib \<Rightarrow> service_world \<Rightarrow> bool" where
  "spec_ok F w \<longleftrightarrow> (sw_service w \<noteq> Crashed \<and> up (sw_main w) \<longrightarrow>
     (\<exists>l. life_of (cs_proxy (sw_server w)) (sw_history w) = Some l \<and> service_spec F (sw_log w) l))"

lemma start_spec: "fresh_server cs h \<Longrightarrow> spec_ok F (service_start cs h)"
  by (auto simp: spec_ok_def service_start_def fresh_server_def life_of_def intro: service_spec.unused)

lemma spec_ok_step:
  assumes "proxy_ok w" and "spec_ok F w" and "service_step S F w m = Some w'"
  shows "spec_ok F w'"
proof (cases m)
  case Handle
  from assms(3)[unfolded Handle] show ?thesis
  proof (cases rule: service_handleE)
    case (answered request r p h)
    show ?thesis
    proof (cases "up (sw_main w)")
      case True
      with assms(2) answered(1) obtain l where l: "life_of (cs_proxy (sw_server w)) (sw_history w) = Some l"
        "service_spec F (sw_log w) l" by (auto simp: spec_ok_def)
      from assms(1) have "proxy_inv (cs_proxy (sw_server w)) (sw_history w)"
        by (auto simp: proxy_ok_def intro: leak_bounded_inv)
      from config_handle_spec[OF this l answered(2)] show ?thesis by (auto simp: answered(3) spec_ok_def)
    qed (simp add: answered(3) spec_ok_def)
  qed (simp add: spec_ok_def)
next
  case (Drop k)
  from assms(3)[unfolded Drop] show ?thesis
  proof (rule service_dropE)
    fix request p h
    assume hd: "sw_service w = Handling request"
      and dropped: "handle_dropped S F (cs_proxy (sw_server w)) request (sw_history w) k = Some (p, h)"
      and w': "w' = w\<lparr>sw_server := (sw_server w)\<lparr>cs_proxy := p\<rparr>, sw_history := h, sw_lock := None,
                sw_service := Listening, sw_log := sw_log w @ [(request, Dropped)]\<rparr>"
    show ?thesis
    proof (cases "up (sw_main w)")
      case True
      with assms(2) hd obtain l where l: "life_of (cs_proxy (sw_server w)) (sw_history w) = Some l"
        "service_spec F (sw_log w) l" by (auto simp: spec_ok_def)
      from assms(1) obtain L where "leak_inv L (cs_proxy (sw_server w)) (sw_history w)"
        by (auto simp: proxy_ok_def leak_bounded_def)
      from handle_dropped_spec[OF this l dropped] show ?thesis by (auto simp: w' spec_ok_def)
    qed (simp add: w' spec_ok_def)
  qed
next
  case Register
  have "within no_uds UNIV (signals_from_kinds RegisterSignal (sys_signal S) [Interrupt, Terminate])"
    by (intro within_intros) (simp add: no_uds_def)
  from life_of_keeps[OF handed_out_keeps[OF this], of "sw_history w" _ _ "cs_proxy (sw_server w)"]
    assms(2,3) Register show ?thesis
    by (auto simp: spec_ok_def split: main_state.splits prod.splits sum.splits simp del: signals_from_kinds.simps)
next
  case Signal
  have "within no_uds UNIV (signals_wait WaitSignals signals)" for signals
    unfolding signals_wait_def by (intro within_intros) (simp_all add: no_uds_def)
  from life_of_keeps[OF handed_out_keeps[OF this], of _ "sw_history w" _ _ "cs_proxy (sw_server w)"]
    assms(2,3) Signal show ?thesis
    by (auto simp: spec_ok_def split: main_state.splits prod.splits sum.splits)
next
  case Stop_proxy
  from assms(3)[unfolded Stop_proxy] show ?thesis
    by (rule service_stop_proxyE) (auto simp: spec_ok_def split: sum.splits)
qed (use assms(2,3) in \<open>auto simp: spec_ok_def split: if_splits service_state.splits
      main_state.splits option.splits\<close>)

lemma reaches_spec:
  assumes "reaches S F w0 w" and "lock_ok w0 \<and> server_ok w0 \<and> proxy_ok w0" and "spec_ok F w0"
  shows "spec_ok F w"
  using assms
proof (induction rule: reaches.induct)
  case (moved w m w')
  from reaches_ok[OF moved(1)] moved(4) have "proxy_ok w" by blast
  with moved show ?case by (auto simp: service_move_step intro: spec_ok_step)
qed simp

subsection \<open>Properties of the service\<close>

text \<open>\<open>main\<close> makes the proxy and its server, and starts the service.\<close>

definition start_service :: "sys \<Rightarrow> u8 \<Rightarrow> (cevent, config_server) io" where
  "start_service S v =
     io_bind (proxy_new S v) (\<lambda>p.
     io_bind (config_server_new p) (\<lambda>cs. serve_interactive cs))"

definition quiet_start :: "cevent list \<Rightarrow> bool" where
  "quiet_start h \<longleftrightarrow> running h = {} \<and> used_channels h \<subseteq> {..<length h} \<and> namespaces h = {}"

lemma quiet_start_Nil [simp]: "quiet_start []"
  by (simp add: quiet_start_def running_def used_channels_def namespaces_def)

lemma quiet_start_plain: "quiet_start h \<Longrightarrow> plain t \<Longrightarrow> list_all no_netns t \<Longrightarrow> quiet_start (h @ t)"
  using plain_running[of t h] by (auto simp: quiet_start_def namespaces_no_netns)

lemma start_service_fresh:
  assumes "quiet_start h" and "start_service S v h = (Inr cs, h')"
  shows "fresh_server cs h'"
proof -
  from assms(2) obtain p h1 cs1 h2 where new: "proxy_new S v h = (Inr p, h1)"
    and mk: "config_server_new p h1 = (Inr cs1, h2)" and srv: "serve_interactive cs1 h2 = (Inr cs, h')"
    unfolding start_service_def by (elim io_bind_Inr)
  from assms(1) proxy_new_lifecycle[OF _ _ _ new] have p: "lifecycle_inv p h1" "task p = None"
    by (simp_all add: quiet_start_def)
  from mk srv have "cs = \<lparr>cs_proxy = p, cs_task = Some (length h1), cs_rx = None, cs_sender = Some (length h1)\<rparr>"
    and h': "h' = h1 @ [NewChannel, SpawnConfigServer (length h1)]"
    by (auto simp: config_server_new_def new_channel_def serve_interactive_def io_bind_run)
  with p lifecycle_inv_plain[OF p(1), of "[NewChannel, SpawnConfigServer (length h1)]"] show ?thesis
    by (simp add: fresh_server_def)
qed

lemmas start_service_ok = start_ok[OF start_service_fresh] start_spec[OF start_service_fresh]

text \<open>C4: what always holds while the service runs. However requests, disconnections, drops and
  panics of the handler and the signal interleave: the lock is held exactly by a task that handles
  a request or by the main flow joining the task; the sub proxies running are exactly the one of
  the state; the namespace of its environment exists, and besides it at most one for each handler
  that was dropped or has panicked.\<close>

theorem service_invariant:
  assumes "start_service S v [] = (Inr cs, h)" and "reaches S F (service_start cs h) w"
  shows "(sw_lock w = Some Service_task \<longleftrightarrow> (\<exists>request. sw_service w = Handling request)) \<and>
     (sw_lock w = Some Main_flow \<longleftrightarrow> sw_main w = Joining) \<and>
     running (sw_history w) = set_option (task (cs_proxy (sw_server w))) \<and>
     proxy_netns (cs_proxy (sw_server w)) \<subseteq> namespaces (sw_history w) \<and> finite (namespaces (sw_history w)) \<and>
     card (namespaces (sw_history w) - proxy_netns (cs_proxy (sw_server w))) \<le> leaks w"
proof -
  have ok: "lock_ok w" "proxy_ok w"
    using reaches_ok[OF assms(2) start_service_ok(1)[OF quiet_start_Nil assms(1)]] by auto
  then have inv: "leak_bounded (leaks w) (cs_proxy (sw_server w)) (sw_history w)" by (simp add: proxy_ok_def)
  from leak_bounded_namespaces[OF inv] leak_bounded_inv[OF inv] ok(1) show ?thesis
    by (simp add: lock_ok_def proxy_inv_def)
qed

text \<open>C8: the service refines its specification. As long as the proxy is not being stopped and no
  handler has panicked, the proxy serves exactly the configuration of the last request that was
  answered by 200, or is idle when there is none, when it names no ports, or when a later reload
  failed or was dropped; refused requests change nothing.\<close>

theorem service_refines_spec:
  assumes "start_service S v [] = (Inr cs, h)" and "reaches S F (service_start cs h) w"
    and "sw_service w \<noteq> Crashed" and "up (sw_main w)"
  shows "\<exists>l. life_of (cs_proxy (sw_server w)) (sw_history w) = Some l \<and> service_spec F (sw_log w) l"
  using reaches_spec[OF assms(2) start_service_ok(1)[OF quiet_start_Nil assms(1)]
      start_service_ok(2)[OF quiet_start_Nil assms(1)]] assms(3,4)
  by (auto simp: spec_ok_def)

text \<open>C12: a shutdown is final. Once the main flow has stopped the proxy, no request is handled any
  more: the proxy and the answers given stay as they are, no sub proxy runs, and at most one
  namespace is left for each handler that was dropped or has panicked; \<open>stop\<close> succeeds only when
  the task ended by the shutdown.\<close>

theorem shutdown_is_final:
  assumes "start_service S v [] = (Inr cs, h)" and "reaches S F (service_start cs h) w"
    and "sw_main w = Joining" and "reaches S F w w'"
  shows "cs_proxy (sw_server w') = cs_proxy (sw_server w) \<and> sw_log w' = sw_log w \<and>
     running (sw_history w') = {} \<and>
     finite (namespaces (sw_history w')) \<and> card (namespaces (sw_history w')) \<le> leaks w' \<and>
     (sw_main w' = Finished (Inr ()) \<longrightarrow> sw_service w' = Ended)"
proof -
  have ok: "lock_ok w" "server_ok w" "server_ok w'" "proxy_ok w'"
    using reaches_ok[OF assms(2) start_service_ok(1)[OF quiet_start_Nil assms(1)]]
      reaches_ok[OF reaches_trans[OF assms(4,2)] start_service_ok(1)[OF quiet_start_Nil assms(1)]] by auto
  from down_reaches[OF assms(4) ok(1)] assms(3) have down: "sw_server w' = sw_server w" "sw_log w' = sw_log w"
    by simp_all
  with ok(2) assms(3) have "cs_sender (sw_server w') = None" by (simp add: server_ok_def)
  with ok(4) have idle: "task (cs_proxy (sw_server w')) = None"
    and inv: "leak_bounded (leaks w') (cs_proxy (sw_server w')) (sw_history w')" by (simp_all add: proxy_ok_def)
  from leak_bounded_namespaces[OF inv] leak_bounded_inv[OF inv] idle ok(3) down show ?thesis
    by (simp add: server_ok_def proxy_inv_def proxy_netns_def)
qed

text \<open>C13: the shutdown is never blocked but by a handler. When the signal has arrived, either a
  request is being handled, and then only the end or the drop of its handler can be the next move, or the
  main flow is at its end after at most three moves: stopping the proxy, the task seeing the
  shutdown, and joining it, whatever they return.\<close>

theorem shutdown_completes:
  assumes "start_service S v [] = (Inr cs, h)" and "reaches S F (service_start cs h) w"
    and "sw_main w = Stopping"
  shows "(\<exists>request. sw_service w = Handling request \<and> (\<forall>m w'. service_move S F w m = Some w' \<longrightarrow> m = Handle \<or> (\<exists>k. m = Drop k))) \<or>
     (\<exists>ms w' r. length ms \<le> 3 \<and> set ms \<subseteq> {Stop_proxy, Shut_down, Join} \<and>
        service_run S F w ms = Some w' \<and> sw_main w' = Finished r)"
proof -
  have ok: "lock_ok w" "server_ok w"
    using reaches_ok[OF assms(2) start_service_ok(1)[OF quiet_start_Nil assms(1)]] by auto
  show ?thesis
  proof (cases "sw_lock w = None")
    case True
    with stop_completes[OF ok assms(3)] show ?thesis by blast
  next
    case False
    with ok(1) assms(3) obtain request where hd: "sw_service w = Handling request"
      by (cases "sw_lock w"; cases "the (sw_lock w)") (auto simp: lock_ok_def)
    have "m = Handle \<or> (\<exists>k. m = Drop k)" if "service_move S F w m = Some w'" for m w'
      using that hd assms(3) False by (cases m) (auto simp: service_move_step split: if_splits)
    with hd show ?thesis by blast
  qed
qed

lemma handle_dropped_late:
  assumes "cq_method request = ''PUT''" and "read_config S F request h = (Inr config, h1)"
    and "reload_dropped S p (proxy_config config) h1 k = Some (p', h')"
  shows "handle_dropped S F p request h (length h1 - length h + k) = Some (p', h')"
proof -
  obtain t where "h1 = h @ t" using assms(2) by (rule net_codeE[OF read_config_within])
  moreover have "0 < k" using assms(3) by (simp add: reload_dropped_def Let_def split: if_splits)
  ultimately show ?thesis using assms by (simp add: handle_dropped_def)
qed

text \<open>C15: a dropped request leaks its namespace for good. Whenever the signal has arrived while a
  request is handled whose reload would succeed, the client can close the connection at a moment
  at which the namespace of the new environment exists; the shutdown then ends with success after
  three more moves, and the namespace is still there.\<close>

theorem dropped_request_leaks:
  assumes "start_service S v [] = (Inr cs, h)" and "reaches S F (service_start cs h) w"
    and "sw_service w = Handling request" and "sw_main w = Stopping"
    and "cq_method request = ''PUT''" and "read_config S F request (sw_history w) = (Inr config, h1)"
    and "proxy_reload S (cs_proxy (sw_server w)) (proxy_config config) h1 = (Inr (Inr (), p), h2)"
    and "prc_proxy_ports (proxy_config config) = Some ports"
  shows "\<exists>k w'. service_run S F w [Drop k, Stop_proxy, Shut_down, Join] = Some w' \<and>
     sw_main w' = Finished (Inr ()) \<and> netns (px_env p) \<in> namespaces (sw_history w')"
proof -
  have ok: "server_ok w" "proxy_ok w"
    using reaches_ok[OF assms(2) start_service_ok(1)[OF quiet_start_Nil assms(1)]] by auto
  from ok(2) obtain L where "leak_inv L (cs_proxy (sw_server w)) (sw_history w)"
    by (auto simp: proxy_ok_def leak_bounded_def)
  from dropped_leaks[OF read_config_keeps(1)[OF assms(6) this] assms(7,8)] obtain k p' h' where
    dropped: "reload_dropped S (cs_proxy (sw_server w)) (proxy_config config) h1 k = Some (p', h')"
    and p': "task p' = None" "netns (px_env p) \<in> namespaces h'" by auto
  note dropped = handle_dropped_late[OF assms(5,6) dropped]
  from ok(1) assms(4) obtain c t where cs: "cs_sender (sw_server w) = Some c" "cs_task (sw_server w) = Some t"
    by (auto simp: server_ok_def)
  define w' where "w' = w\<lparr>sw_server := (sw_server w)\<lparr>cs_proxy := p', cs_sender := None\<rparr>,
     sw_history := h' @ [SendShutdown c, AwaitConfigServer t], sw_lock := None, sw_service := Ended,
     sw_main := Finished (Inr ()), sw_log := sw_log w @ [(request, Dropped)]\<rparr>"
  have "service_run S F w [Drop (length h1 - length (sw_history w) + k), Stop_proxy, Shut_down, Join] = Some w'"
    using assms(3,4) dropped p'(1) cs
    by (simp add: service_move_def stop_service_def io_bind_run proxy_stop_idle Let_def w'_def)
  moreover have "netns (px_env p) \<in> namespaces (sw_history w')"
    using p'(2) namespaces_no_netns[of "[SendShutdown c, AwaitConfigServer t]" h'] by (simp add: w'_def)
  ultimately show ?thesis by (intro exI) (auto simp: w'_def)
qed

text \<open>The answers of the configuration service. Anything but a PUT is answered by 405, and a body
  that gives no configuration by 400 and the error, both without touching the proxy; otherwise
  the proxy is reloaded with the configuration of the body, and answered by 200 exactly when the
  reload succeeds.\<close>

theorem config_handle_responses:
  assumes "config_handle S F p request h = (Inr (r, p'), h')"
  shows "(cq_method request \<noteq> ''PUT'' \<and> r = Inr \<lparr>cp_status = 405, cp_body = ''''\<rparr> \<and> p' = p \<and> h' = h) \<or>
     (cq_method request = ''PUT'' \<and> (\<exists>e. read_config S F request h = (Inl (Error e), h') \<and>
        r = Inr \<lparr>cp_status = 400, cp_body = error_text e\<rparr>) \<and> p' = p) \<or>
     (cq_method request = ''PUT'' \<and> (\<exists>config h1 x. read_config S F request h = (Inr config, h1) \<and>
        configures F request config \<and>
        proxy_reload S p (proxy_config config) h1 = (Inr (x, p'), h') \<and>
        r = map_sum id (\<lambda>_. \<lparr>cp_status = 200, cp_body = ''''\<rparr>) x))"
  using assms by (cases rule: config_handle_cases) (auto intro: read_config_configures)

subsection \<open>Concrete services\<close>

definition put_request :: config_request where
  "put_request = \<lparr>cq_method = ''PUT'', cq_body = [Inr [123], Inr [125]]\<rparr>"

definition bad_request :: config_request where
  "bad_request = \<lparr>cq_method = ''PUT'', cq_body = []\<rparr>"

definition demo_server :: config_server where
  "demo_server = \<lparr>cs_proxy = demo_proxy, cs_task = Some 7, cs_rx = None, cs_sender = Some 7\<rparr>"

definition demo_service_history :: "cevent list" where
  "demo_service_history = demo_start @ [NewChannel, SpawnConfigServer 7]"

lemma demo_service_started: "start_service demo_sys 1 [] = (Inr demo_server, demo_service_history)"
  by (simp add: start_service_def io_bind_run demo_started config_server_new_def new_channel_def
      serve_interactive_def demo_server_def demo_service_history_def)
    (simp add: demo_start_def)

lemma bad_request_run:
  "config_handle demo_sys demo_conf p bad_request h = (Inr (Inr \<lparr>cp_status = 400, cp_body = ''EOF''\<rparr>, p), h)"
  by (simp add: config_handle_def read_config_def bad_request_def demo_conf_def io_bind_run io_try_run)

lemma put_request_steps:
  assumes "Exec (ip_link_set_up ''123e4567-e89bv4'') \<notin> set h"
  shows "read_config demo_sys demo_conf put_request h = (Inr safe_config, h @ [ListInterfaces])"
    and "\<exists>p' h'. proxy_reload demo_sys demo_proxy (proxy_config safe_config)
      (h @ [ListInterfaces]) = (Inr (Inr (), p'), h')"
proof -
  have free: "Exec (ip_link_set_up ''123e4567-e89bv4'') \<notin> set (h @ [ListInterfaces])"
    using assms by simp
  show "\<exists>p' h'. proxy_reload demo_sys demo_proxy (proxy_config safe_config)
      (h @ [ListInterfaces]) = (Inr (Inr (), p'), h')"
    using demo_reload_at[OF free, of demo_proxy "proxy_config safe_config"]
    by (auto simp: demo_proxy_def)
  show "read_config demo_sys demo_conf put_request h = (Inr safe_config, h @ [ListInterfaces])"
    using safe_try_into[OF assms] by (simp add: read_config_def put_request_def demo_conf_def)
qed

lemma put_request_run:
  assumes "Exec (ip_link_set_up ''123e4567-e89bv4'') \<notin> set h"
  shows "\<exists>p' h'. config_handle demo_sys demo_conf demo_proxy put_request h
     = (Inr (Inr \<lparr>cp_status = 200, cp_body = ''''\<rparr>, p'), h')"
  using put_request_steps[OF assms] by (auto simp: config_handle_def put_request_def io_try_run io_bind_run)

text \<open>Two requests are handled, the second with success; then the signal arrives.\<close>

lemma demo_no_veth: "Exec (ip_link_set_up ''123e4567-e89bv4'') \<notin> set demo_service_history"
  by (simp add: demo_service_history_def demo_start_def)

definition demo_world_start :: service_world where
  "demo_world_start = service_start demo_server demo_service_history"

lemma demo_handled:
  "\<exists>w. service_run demo_sys demo_conf demo_world_start
       [Receive bad_request, Lock, Handle, Receive put_request, Lock, Handle] = Some w \<and>
     sw_service w = Listening \<and> sw_main w = Registering \<and> sw_lock w = None \<and>
     cs_task (sw_server w) = Some 7 \<and> cs_sender (sw_server w) = Some 7 \<and>
     sw_log w = [(bad_request, Answered (Inr \<lparr>cp_status = 400, cp_body = ''EOF''\<rparr>)),
       (put_request, Answered (Inr \<lparr>cp_status = 200, cp_body = ''''\<rparr>))]"
proof -
  obtain p h where "config_handle demo_sys demo_conf demo_proxy put_request demo_service_history
     = (Inr (Inr \<lparr>cp_status = 200, cp_body = ''''\<rparr>, p), h)"
    using put_request_run[OF demo_no_veth] by blast
  then show ?thesis
    by (simp add: demo_world_start_def service_start_def service_move_def bad_request_run demo_server_def)
qed

lemma demo_reached:
  assumes "service_run demo_sys demo_conf demo_world_start ms = Some w"
  shows "reaches demo_sys demo_conf (service_start demo_server demo_service_history) w"
  using service_run_reaches[OF assms, of demo_world_start] reaches.here
  unfolding demo_world_start_def by blast

theorem service_refines_spec_witness:
  "\<exists>w l. service_run demo_sys demo_conf demo_world_start
       [Receive bad_request, Lock, Handle, Receive put_request, Lock, Handle] = Some w \<and>
     length (sw_log w) = 2 \<and>
     life_of (cs_proxy (sw_server w)) (sw_history w) = Some l \<and> service_spec demo_conf (sw_log w) l"
proof -
  obtain w where run: "service_run demo_sys demo_conf demo_world_start
       [Receive bad_request, Lock, Handle, Receive put_request, Lock, Handle] = Some w"
    and w: "sw_service w = Listening" "sw_main w = Registering" "length (sw_log w) = 2"
    using demo_handled by auto
  from service_refines_spec [OF demo_service_started demo_reached[OF run]] w run show ?thesis by auto
qed

theorem service_invariant_witness:
  "\<exists>w. service_run demo_sys demo_conf demo_world_start [Receive bad_request, Lock] = Some w \<and>
     sw_lock w = Some Service_task \<and> running (sw_history w) = {} \<and> namespaces (sw_history w) = {}"
proof -
  define w where "w = demo_world_start\<lparr>sw_service := Handling bad_request, sw_lock := Some Service_task\<rparr>"
  have run: "service_run demo_sys demo_conf demo_world_start [Receive bad_request, Lock] = Some w"
    by (simp add: w_def demo_world_start_def service_start_def service_move_def)
  have w: "sw_lock w = Some Service_task" "sw_service w = Handling bad_request" "sw_server w = demo_server"
    by (simp_all add: w_def demo_world_start_def service_start_def)
  from service_invariant [OF demo_service_started demo_reached[OF run]] w run show ?thesis
    by (auto simp: demo_server_def demo_proxy_def proxy_netns_def leaks_def w_def demo_world_start_def service_start_def)
qed

theorem shutdown_completes_witness:
  "\<exists>w ms w' r. service_run demo_sys demo_conf demo_world_start [Register, Receive bad_request, Signal] = Some w \<and>
     length ms \<le> 3 \<and> service_run demo_sys demo_conf w ms = Some w' \<and> sw_main w' = Finished r"
proof -
  define w where "w = demo_world_start\<lparr>sw_service := Waiting bad_request, sw_main := Stopping,
    sw_history := demo_service_history @ [RegisterSignal Interrupt, RegisterSignal Terminate, WaitSignals]\<rparr>"
  have run: "service_run demo_sys demo_conf demo_world_start [Register, Receive bad_request, Signal] = Some w"
    by (simp add: w_def demo_world_start_def service_start_def service_move_def io_bind_run
        signals_wait_def demo_sys_def)
  have w: "sw_main w = Stopping" "sw_service w = Waiting bad_request" by (simp_all add: w_def)
  from shutdown_completes [OF demo_service_started demo_reached[OF run] w(1)] w run show ?thesis by auto
qed

theorem shutdown_is_final_witness:
  "\<exists>w w'. service_run demo_sys demo_conf demo_world_start [Register, Signal, Stop_proxy] = Some w \<and>
     service_run demo_sys demo_conf w [Shut_down, Join] = Some w' \<and> sw_main w' = Finished (Inr ()) \<and>
     running (sw_history w') = {} \<and> namespaces (sw_history w') = {}"
proof -
  define w where "w = demo_world_start\<lparr>sw_server := demo_server\<lparr>cs_sender := None\<rparr>,
    sw_main := Joining, sw_lock := Some Main_flow,
    sw_history := demo_service_history @ [RegisterSignal Interrupt, RegisterSignal Terminate, WaitSignals, SendShutdown 7]\<rparr>"
  have run: "service_run demo_sys demo_conf demo_world_start [Register, Signal, Stop_proxy] = Some w"
    by (simp add: w_def demo_world_start_def service_start_def service_move_def stop_service_def
        io_bind_run signals_wait_def demo_sys_def[THEN arg_cong, of sys_signal]
        proxy_stop_idle demo_server_def demo_proxy_def Let_def)
  define w' where "w' = w\<lparr>sw_service := Ended, sw_main := Finished (Inr ()), sw_lock := None,
    sw_history := demo_service_history @ [RegisterSignal Interrupt, RegisterSignal Terminate, WaitSignals, SendShutdown 7, AwaitConfigServer 7]\<rparr>"
  have run': "service_run demo_sys demo_conf w [Shut_down, Join] = Some w'"
    by (simp add: w'_def w_def demo_world_start_def service_start_def service_move_def demo_server_def)
  have w: "sw_main w = Joining" "sw_service w' = Ended" "sw_main w' = Finished (Inr ())" "leaks w' = 0"
    by (simp_all add: w_def w'_def leaks_def demo_world_start_def service_start_def)
  from shutdown_is_final [OF demo_service_started demo_reached[OF run] w(1)
      service_run_reaches[OF run' reaches.here]] w run run'
  show ?thesis by auto
qed

theorem dropped_request_leaks_witness:
  "\<exists>w k w'. service_run demo_sys demo_conf demo_world_start [Receive put_request, Lock, Register, Signal] = Some w \<and>
     service_run demo_sys demo_conf w [Drop k, Stop_proxy, Shut_down, Join] = Some w' \<and>
     sw_main w' = Finished (Inr ()) \<and> namespaces (sw_history w') \<noteq> {}"
proof -
  define h where "h = demo_service_history @ [RegisterSignal Interrupt, RegisterSignal Terminate, WaitSignals]"
  define w where "w = demo_world_start\<lparr>sw_service := Handling put_request, sw_lock := Some Service_task,
    sw_main := Stopping, sw_history := h\<rparr>"
  have run: "service_run demo_sys demo_conf demo_world_start [Receive put_request, Lock, Register, Signal] = Some w"
    by (simp add: w_def h_def demo_world_start_def service_start_def service_move_def io_bind_run
        signals_wait_def demo_sys_def)
  have w: "sw_service w = Handling put_request" "sw_main w = Stopping" "cq_method put_request = ''PUT''"
    "sw_history w = h" "cs_proxy (sw_server w) = demo_proxy"
    by (simp_all add: w_def put_request_def demo_world_start_def service_start_def demo_server_def)
  have free: "Exec (ip_link_set_up ''123e4567-e89bv4'') \<notin> set h" using demo_no_veth by (simp add: h_def)
  obtain p h2 where "proxy_reload demo_sys (cs_proxy (sw_server w)) (proxy_config safe_config)
      (h @ [ListInterfaces]) = (Inr (Inr (), p), h2)" using put_request_steps(2)[OF free] by (auto simp: w)
  from dropped_request_leaks [OF demo_service_started demo_reached[OF run] w(1-3) _ this safe_fields(1)]
    put_request_steps(1)[OF free] run show ?thesis by (auto simp: w(4))
qed

theorem config_handle_responses_witness:
  "\<exists>e. read_config demo_sys demo_conf bad_request demo_start = (Inl (Error e), demo_start)"
proof -
  have "Inr \<lparr>cp_status = 400, cp_body = ''EOF''\<rparr> \<noteq> map_sum id (\<lambda>_. \<lparr>cp_status = 200, cp_body = ''''\<rparr>) x"
    for x :: "error + unit" by (cases x) simp_all
  with config_handle_responses [OF bad_request_run, of demo_proxy demo_start] show ?thesis
    by (auto simp: bad_request_def)
qed

end
