(* ===== verification/Controller.thy ===== *)
theory Controller
  imports Config_Service
begin

text \<open>
  The controller's \<open>main\<close>: the sub proxy mode, the run from a configuration file, and the
  interactive run.
\<close>

subsection \<open>The program\<close>

text \<open>The rest of the world of \<open>main\<close>: the outcome of the program of the sub proxy, and the moves
  of the interactive service in the order in which they happen.\<close>

record main_world =
  mw_proxy_main :: "cevent list \<Rightarrow> string \<Rightarrow> unit res"
  mw_schedule :: "cevent list \<Rightarrow> move list"

definition lift_result :: "error + 'a \<Rightarrow> (cevent, 'a) io" where
  "lift_result r = io_lift (ext r)"

definition run_file :: "sys \<Rightarrow> conf_lib \<Rightarrow> cli_opt \<Rightarrow> (cevent, unit) io" where
  "run_file S F o' =
     io_bind (get_config_from_opt S F o') (\<lambda>cfg.
     io_bind (proxy_new S (cli_verbose o')) (\<lambda>p.
     io_bind (proxy_reload S p (proxy_config cfg)) (\<lambda>(r, p).
     io_bind (lift_result r) (\<lambda>_.
     io_bind (signals_from_kinds RegisterSignal (sys_signal S) [Interrupt, Terminate]) (\<lambda>signals.
     io_bind (signals_wait WaitSignals signals) (\<lambda>_.
     io_bind (proxy_stop S p) (\<lambda>(r, p). lift_result r)))))))"

text \<open>The interactive run ends when its main flow has finished; with a schedule that is not
  possible, or after which the main flow still waits, it does not end.\<close>

definition run_interactive :: "sys \<Rightarrow> conf_lib \<Rightarrow> main_world \<Rightarrow> cli_opt \<Rightarrow> (cevent, unit) io" where
  "run_interactive S F M o' =
     io_bind (start_service S (cli_verbose o')) (\<lambda>cs h.
       case service_run S F (service_start cs h) (mw_schedule M h) of
         None \<Rightarrow> (Inl Diverge, h)
       | Some w \<Rightarrow> (case sw_main w of
             Finished r \<Rightarrow> (r, sw_history w) | _ \<Rightarrow> (Inl Diverge, sw_history w)))"

definition run_main :: "sys \<Rightarrow> conf_lib \<Rightarrow> main_world \<Rightarrow> cli_opt \<Rightarrow> (cevent, unit) io" where
  "run_main S F M o' =
     io_bind (if cli_proxy o'
              then io_bind (io_lift (case cli_ipc_path o' of None \<Rightarrow> panic ''unwrap ipc_path'' | Some path \<Rightarrow> Inr path))
                (\<lambda>path h. (mw_proxy_main M h path, h @ [RunProxyMain path]))
              else io_ok ()) (\<lambda>_.
       if input o' \<noteq> None then run_file S F o'
       else if interactive o' then run_interactive S F M o'
       else io_ok ())"

text \<open>The exit status of the process: an error of \<open>main\<close> is reported with status 1, a panic of the
  main flow with 101; \<open>None\<close> is a process that does not end.\<close>

fun exit_status :: "unit res \<Rightarrow> nat option" where
  "exit_status (Inr _) = Some 0"
| "exit_status (Inl (Error e)) = Some 1"
| "exit_status (Inl (Panic m)) = Some 101"
| "exit_status (Inl Diverge) = None"

definition program ::
  "sys \<Rightarrow> conf_lib \<Rightarrow> main_world \<Rightarrow> (string list \<Rightarrow> error + cli_opt) \<Rightarrow> string list
    \<Rightarrow> nat option \<times> cevent list" where
  "program S F M parse args = (case from_args_checked parse args of
       Inl f \<Rightarrow> (exit_status (Inl f), [])
     | Inr o' \<Rightarrow> (case run_main S F M o' [] of (r, h) \<Rightarrow> (exit_status r, h)))"

subsection \<open>The run from a file\<close>

lemma lift_result_Inr: "lift_result r h = (Inr u, h') \<longleftrightarrow> r = Inr u \<and> h' = h"
  by (auto simp: lift_result_def)

definition clean :: "cevent list \<Rightarrow> bool" where
  "clean h \<longleftrightarrow> running h = {} \<and> namespaces h = {}"

lemma quiet_start_clean: "quiet_start h \<Longrightarrow> clean h"
  by (simp add: quiet_start_def clean_def)

lemma get_config_no_netns: "within no_netns UNIV (get_config_from_opt S F o')"
proof -
  have "within no_netns UNIV (list_interfaces S)" by (rule withinI) (simp add: list_interfaces_run)
  then show ?thesis
    unfolding get_config_from_opt_def try_into_config_def by (intro within_intros) simp_all
qed

lemma get_config_quiet:
  assumes "quiet_start h" and "get_config_from_opt S F o' h = (x, h')"
  shows "quiet_start h'"
proof -
  from net_codeE[OF get_config_within assms(2)] obtain t where t: "h' = h @ t" "plain t" by blast
  from withinE[OF get_config_no_netns assms(2)] t(1) have "list_all no_netns t" by auto
  with t assms(1) show ?thesis by (simp add: quiet_start_plain)
qed

lemma proxy_new_quiet:
  assumes "quiet_start h" and "proxy_new S v h = (Inr p, h')"
  shows "lifecycle_inv p h'"
  using proxy_new_lifecycle[OF _ _ _ assms(2)] assms(1) by (simp add: quiet_start_def)

lemma idle_clean: "lifecycle_inv p h \<Longrightarrow> task p = None \<Longrightarrow> clean h"
  by (simp add: lifecycle_inv_def proxy_inv_def proxy_netns_def clean_def)

lemma proxy_new_no_error: "proxy_new S v h \<noteq> (Inl (Error e), h')"
proof -
  have "fst (draw_prefix S ifs h) \<noteq> Inl (Error e)" for ifs h
    using draw_prefix_cases[of ifs S h] by auto
  then have draw: "draw_prefix S ifs h \<noteq> (Inl (Error e), h')" for ifs h h' by (metis fst_conv)
  have "net_env_new S h \<noteq> (Inl (Error e), h')" for h h'
    by (auto simp: net_env_new_def io_bind_run io_unwrap_run list_interfaces_run draw panic_def
        split: prod.splits sum.splits failure.splits option.splits)
  then show ?thesis
    by (auto simp: proxy_new_def io_bind_run io_unwrap_run new_uuid_def new_channel_def Let_def
        split: prod.splits sum.splits failure.splits)
qed

lemma proxy_exec_no_error: "proxy_exec S p cfg h \<noteq> (Inl (Error e), h')"
  by (auto simp: proxy_exec_def io_bind_run io_try_run panic_def split: prod.splits sum.splits failure.splits option.splits)

lemma proxy_stop_no_error: "proxy_stop S p h \<noteq> (Inl f, h')"
  using proxy_stop_returns[of S p h] by auto

lemma proxy_reload_no_error: "proxy_reload S p cfg h \<noteq> (Inl (Error e), h')"
proof -
  obtain r p1 h1 where stop: "proxy_stop S p h = (Inr (r, p1), h1)" using proxy_stop_returns by blast
  show ?thesis
    by (auto simp: proxy_reload_def io_bind_run io_try_run stop proxy_new_no_error proxy_exec_no_error
        split: prod.splits sum.splits failure.splits if_splits)
qed

lemma file_tail:
  assumes "lifecycle_inv p h" and
    "io_bind (signals_from_kinds RegisterSignal (sys_signal S) [Interrupt, Terminate]) (\<lambda>signals.
     io_bind (signals_wait WaitSignals signals) (\<lambda>_.
     io_bind (proxy_stop S p) (\<lambda>(r, p). lift_result r))) h = (x, h')"
  shows "clean h' \<or> (\<exists>k pre. h' = pre @ [RegisterSignal k] \<and> (\<exists>e. sys_signal S pre k = Inl e \<and> x = Inl (Error e)))"
proof (cases "\<exists>e. sys_signal S h Interrupt = Inl e \<or> sys_signal S (h @ [RegisterSignal Interrupt]) Terminate = Inl e")
  case True
  with assms(2) show ?thesis
    by (cases "sys_signal S h Interrupt"; cases "sys_signal S (h @ [RegisterSignal Interrupt]) Terminate")
      (force simp: io_bind_run)+
next
  case False
  then obtain u v where "sys_signal S h Interrupt = Inr u"
    "sys_signal S (h @ [RegisterSignal Interrupt]) Terminate = Inr v"
    by (cases "sys_signal S h Interrupt"; cases "sys_signal S (h @ [RegisterSignal Interrupt]) Terminate") auto
  with assms(2) have run: "io_bind (proxy_stop S p) (\<lambda>(r, p). lift_result r)
      (h @ [RegisterSignal Interrupt, RegisterSignal Terminate, WaitSignals]) = (x, h')"
    by (simp add: io_bind_run signals_wait_def)
  obtain r p1 where stop: "proxy_stop S p (h @ [RegisterSignal Interrupt, RegisterSignal Terminate, WaitSignals])
      = (Inr (r, p1), h')"
    using proxy_stop_returns[of S p "h @ [RegisterSignal Interrupt, RegisterSignal Terminate, WaitSignals]"] run
    by (auto simp: lift_result_def)
  have "lifecycle_inv p (h @ [RegisterSignal Interrupt, RegisterSignal Terminate, WaitSignals])"
    using assms(1) by (rule lifecycle_inv_plain) simp_all
  from proxy_stop_lifecycle[OF this stop] show ?thesis by (simp add: clean_def)
qed

lemma run_file_ends:
  assumes "quiet_start h" and "run_file S F o' h = (x, h')" and "x = Inr () \<or> x = Inl (Error e)"
  shows "clean h' \<or> (\<exists>k pre e. h' = pre @ [RegisterSignal k] \<and> sys_signal S pre k = Inl e \<and> x = Inl (Error e))"
proof -
  obtain c h1 where cfg: "get_config_from_opt S F o' h = (c, h1)" by fastforce
  from get_config_quiet[OF assms(1) this] have q1: "quiet_start h1" .
  show ?thesis
  proof (cases c)
    case (Inl f)
    with cfg assms(2) have "h' = h1" by (simp add: run_file_def)
    with q1 show ?thesis by (simp add: quiet_start_clean)
  next
    case (Inr config)
    obtain n h2 where new: "proxy_new S (cli_verbose o') h1 = (n, h2)" by fastforce
    have "\<exists>p. n = Inr p"
      using assms(2,3) cfg Inr new proxy_new_no_error[of S "cli_verbose o'" h1]
      by (cases n) (auto simp: run_file_def)
    then obtain p where p: "n = Inr p" ..
    from proxy_new_quiet[OF q1 new[unfolded p]] have inv: "lifecycle_inv p h2" .
    obtain y h3 where rl: "proxy_reload S p (proxy_config config) h2 = (y, h3)" by fastforce
    have "\<exists>r p1. y = Inr (r, p1)"
      using assms(2,3) cfg Inr new p rl proxy_reload_no_error[of S p "proxy_config config" h2]
      by (cases y) (auto simp: run_file_def)
    then obtain r p1 where y: "y = Inr (r, p1)" by blast
    from proxy_reload_lifecycle[OF inv rl[unfolded y]] have inv1: "lifecycle_inv p1 h3" .
    show ?thesis
    proof (cases r)
      case (Inl e1)
      have "task p1 = None"
        using proxy_reload_inv[OF _ rl[unfolded y]] inv Inl by (simp add: lifecycle_inv_def)
      moreover have "h' = h3"
        using assms(2) cfg Inr new p rl y Inl by (simp add: run_file_def lift_result_def)
      ultimately show ?thesis using idle_clean[OF inv1] by simp
    next
      case r: (Inr u)
      from assms(2) cfg Inr new p rl y r have "io_bind (signals_from_kinds RegisterSignal (sys_signal S) [Interrupt, Terminate]) (\<lambda>signals.
     io_bind (signals_wait WaitSignals signals) (\<lambda>_.
     io_bind (proxy_stop S p1) (\<lambda>(r, p). lift_result r))) h3 = (x, h')"
        by (simp add: run_file_def lift_result_def del: signals_from_kinds.simps)
      from file_tail[OF inv1 this] show ?thesis by blast
    qed
  qed
qed

subsection \<open>The interactive run\<close>

text \<open>The requests a schedule drops.\<close>

definition drops :: "move list \<Rightarrow> nat" where
  "drops ms = length (filter (\<lambda>m. case m of Drop k \<Rightarrow> True | _ \<Rightarrow> False) ms)"

lemma dropped_step:
  assumes "service_move S F w m = Some w'"
  shows "length (filter (\<lambda>(q, a). a = Dropped) (sw_log w')) =
     length (filter (\<lambda>(q, a). a = Dropped) (sw_log w)) + drops [m]"
  using assms unfolding service_move_step
  by (elim conjE service_stepE; auto simp: drops_def split: if_splits service_state.splits main_state.splits
      sum.splits prod.splits failure.splits option.splits)

lemma dropped_run:
  "service_run S F w ms = Some w' \<Longrightarrow>
     length (filter (\<lambda>(q, a). a = Dropped) (sw_log w')) =
       length (filter (\<lambda>(q, a). a = Dropped) (sw_log w)) + drops ms"
proof (induction ms arbitrary: w)
  case (Cons m ms)
  then obtain w1 where w1: "service_move S F w m = Some w1" "service_run S F w1 ms = Some w'"
    by (auto split: option.splits)
  have "drops (m # ms) = drops [m] + drops ms" by (simp add: drops_def)
  with dropped_step[OF w1(1)] Cons.IH[OF w1(2)] show ?case by simp
qed (simp add: drops_def)

text \<open>At most \<open>n\<close> namespaces are left behind, and no sub proxy.\<close>

definition left_behind :: "nat \<Rightarrow> cevent list \<Rightarrow> bool" where
  "left_behind n h \<longleftrightarrow> running h = {} \<and> finite (namespaces h) \<and> card (namespaces h) \<le> n"

lemma clean_left_behind: "clean h \<Longrightarrow> left_behind n h"
  by (simp add: clean_def left_behind_def)

lemma run_interactive_ends:
  assumes "quiet_start h" and "run_interactive S F M o' h = (Inr u, h')"
    and "\<And>h. drops (mw_schedule M h) \<le> n"
  shows "left_behind n h'"
proof -
  from assms(2) obtain cs h1 w where start: "start_service S (cli_verbose o') h = (Inr cs, h1)"
    and run: "service_run S F (service_start cs h1) (mw_schedule M h1) = Some w"
    and w: "sw_main w = Finished (Inr ())" "h' = sw_history w"
    unfolding run_interactive_def
    by (auto elim!: io_bind_Inr split: option.splits main_state.splits)
  have "reaches S F (service_start cs h1) w" using run reaches.here by (rule service_run_reaches)
  from reaches_ok[OF this start_service_ok(1)[OF assms(1) start]] have "server_ok w" "proxy_ok w" by auto
  with w have inv: "leak_bounded (leaks w) (cs_proxy (sw_server w)) h'" "task (cs_proxy (sw_server w)) = None"
    and "sw_service w = Ended" by (auto simp: server_ok_def proxy_ok_def)
  with dropped_run[OF run] assms(3)[of h1] have "leaks w \<le> n" by (simp add: leaks_def service_start_def)
  with leak_bounded_namespaces[OF inv(1)] leak_bounded_inv[OF inv(1)] inv(2) show ?thesis
    by (simp add: left_behind_def proxy_netns_def proxy_inv_def)
qed

subsection \<open>The controller leaves nothing behind\<close>

lemma sub_mode_quiet:
  assumes "quiet_start h" and "(if cli_proxy o'
              then io_bind (io_lift (case cli_ipc_path o' of None \<Rightarrow> panic ''unwrap ipc_path'' | Some path \<Rightarrow> Inr path))
                (\<lambda>path h. (mw_proxy_main M h path, h @ [RunProxyMain path]))
              else io_ok ()) h = (x, h')"
  shows "quiet_start h'"
proof -
  from assms(2) have "h' = h \<or> (\<exists>path. h' = h @ [RunProxyMain path])"
    by (cases "cli_ipc_path o'") (auto simp: panic_def split: if_splits)
  with assms(1) quiet_start_plain[OF assms(1)] show ?thesis by fastforce
qed

text \<open>C10: the controller leaves nothing behind but for dropped requests. Whatever the arguments, the
  files, the requests and their interleaving, and whatever the system answers: when the program
  exits with status 0, every sub proxy it spawned was told to stop, and at most as many of the
  namespaces it added were not deleted as requests were dropped while they were handled: none
  when no request was dropped.\<close>

theorem program_leaves_nothing:
  assumes "program S F M parse args = (Some 0, h')" and "\<forall>h. drops (mw_schedule M h) \<le> n"
  shows "running h' = {} \<and> finite (namespaces h') \<and> card (namespaces h') \<le> n"
proof (cases "from_args_checked parse args")
  case (Inl f)
  with assms show ?thesis by (simp add: program_def running_def namespaces_def)
next
  case (Inr o')
  with assms obtain r where run: "run_main S F M o' [] = (r, h')" and ex: "exit_status r = Some 0"
    by (auto simp: program_def split: prod.splits)
  from ex have "r = Inr ()" by (cases r rule: exit_status.cases) simp_all
  with run obtain h1 where sub: "(if cli_proxy o'
              then io_bind (io_lift (case cli_ipc_path o' of None \<Rightarrow> panic ''unwrap ipc_path'' | Some path \<Rightarrow> Inr path))
                (\<lambda>path h. (mw_proxy_main M h path, h @ [RunProxyMain path]))
              else io_ok ()) [] = (Inr (), h1)" and
    rest: "(if input o' \<noteq> None then run_file S F o'
       else if interactive o' then run_interactive S F M o'
       else io_ok ()) h1 = (Inr (), h')"
    unfolding run_main_def by (auto elim!: io_bind_Inr)
  from sub_mode_quiet[OF quiet_start_Nil sub] have q: "quiet_start h1" .
  have "left_behind n h'"
    using rest run_file_ends[OF q, of S F o' "Inr ()" h' undefined] run_interactive_ends[OF q, of S F M o' "()" h' n]
      quiet_start_clean[OF q] assms(2)
    by (auto split: if_splits intro: clean_left_behind)
  then show ?thesis by (simp add: left_behind_def)
qed

text \<open>C36: the run from a file cleans up after its errors but one. When the program, run with a
  configuration file and not as a sub proxy, exits with an error, nothing is left behind, unless
  the last thing it did was to register a signal, which failed: then it returns without stopping
  the proxy it has started.\<close>

theorem file_error_cleans_up:
  assumes "from_args_checked parse args = Inr o'" and "input o' \<noteq> None" and "\<not> cli_proxy o'"
    and "program S F M parse args = (Some 1, h')"
  shows "(running h' = {} \<and> namespaces h' = {}) \<or>
     (\<exists>k pre e. h' = pre @ [RegisterSignal k] \<and> sys_signal S pre k = Inl e)"
proof -
  from assms obtain r where run: "run_file S F o' [] = (r, h')" and ex: "exit_status r = Some 1"
    by (auto simp: program_def run_main_def split: prod.splits)
  from ex obtain e where "r = Inl (Error e)" by (cases r rule: exit_status.cases) simp_all
  with run_file_ends[OF quiet_start_Nil run, of e] show ?thesis by (auto simp: clean_def)
qed

text \<open>The options of the sub proxy are not checked. Running as the sub proxy without a socket
  path passes the check of the options and then panics.\<close>

theorem sub_proxy_without_path_panics:
  assumes "cli_proxy o'" and "cli_ipc_path o' = None"
  shows "checked o' = Inr o' \<and> run_main S F M o' h = (Inl (Panic ''unwrap ipc_path''), h)"
  using assms by (simp add: checked_def run_main_def io_bind_run panic_def)

subsection \<open>Concrete runs\<close>

definition demo_main :: main_world where
  "demo_main = \<lparr>mw_proxy_main = (\<lambda>h p. Inr ()), mw_schedule = (\<lambda>h. [Register, Signal, Stop_proxy, Shut_down, Join])\<rparr>"

definition demo_parse :: "string list \<Rightarrow> error + cli_opt" where
  "demo_parse args = (if args = [''tproxy'', ''-v'', ''/etc/tproxy.json''] then Inr file_opt
     else if args = [''tproxy'', ''-i''] then Inr (file_opt\<lparr>input := None, interactive := True\<rparr>)
     else Inl (External ''usage''))"

lemma file_run:
  "\<exists>p h. get_config_from_opt demo_sys demo_conf file_opt [] = (Inr safe_config, [ListInterfaces]) \<and>
     proxy_new demo_sys 1 [ListInterfaces] = (Inr (demo_proxy\<lparr>sender := Some 2, rx := Some 2\<rparr>),
       [ListInterfaces, NewUuid, NewChannel, OpenNetlink, ListInterfaces, NewUuid, ListInterfaces, GetRoutes]) \<and>
     proxy_reload demo_sys (demo_proxy\<lparr>sender := Some 2, rx := Some 2\<rparr>) (proxy_config safe_config)
       [ListInterfaces, NewUuid, NewChannel, OpenNetlink, ListInterfaces, NewUuid, ListInterfaces, GetRoutes]
       = (Inr (Inr (), p), h)"
proof -
  have cfg: "get_config_from_opt demo_sys demo_conf file_opt [] = (Inr safe_config, [ListInterfaces])"
    using safe_try_into[of "[]"]
    by (simp add: get_config_from_opt_def read_raw_config_def file_opt_def demo_conf_def
        path_extension_def file_name_def into_bytes_def)
  let ?h = "[ListInterfaces, NewUuid, NewChannel, OpenNetlink, ListInterfaces, NewUuid,
     ListInterfaces, GetRoutes]"
  let ?p = "demo_proxy\<lparr>sender := Some 2, rx := Some 2\<rparr>"
  have "Exec (ip_link_set_up ''123e4567-e89bv4'') \<notin> set ?h" "task ?p = None" "verbose (opt ?p) = 1"
    by (simp_all add: demo_proxy_def)
  from demo_reload_at[OF this, of "proxy_config safe_config"] cfg demo_proxy_new[of "[ListInterfaces]"] show ?thesis by auto
qed

lemma demo_parse_file: "from_args_checked demo_parse [''tproxy'', ''-v'', ''/etc/tproxy.json''] = Inr file_opt"
  by (simp add: from_args_checked_def demo_parse_def checked_def file_opt_def)

theorem program_leaves_nothing_witness:
  "\<exists>h'. program demo_sys demo_conf demo_main demo_parse [''tproxy'', ''-v'', ''/etc/tproxy.json''] = (Some 0, h') \<and>
     running h' = {} \<and> namespaces h' = {}"
proof -
  obtain p h where steps: "get_config_from_opt demo_sys demo_conf file_opt [] = (Inr safe_config, [ListInterfaces])"
    "proxy_new demo_sys 1 [ListInterfaces] = (Inr (demo_proxy\<lparr>sender := Some 2, rx := Some 2\<rparr>),
       [ListInterfaces, NewUuid, NewChannel, OpenNetlink, ListInterfaces, NewUuid, ListInterfaces, GetRoutes])"
    "proxy_reload demo_sys (demo_proxy\<lparr>sender := Some 2, rx := Some 2\<rparr>) (proxy_config safe_config)
       [ListInterfaces, NewUuid, NewChannel, OpenNetlink, ListInterfaces, NewUuid, ListInterfaces, GetRoutes]
       = (Inr (Inr (), p), h)" using file_run by blast
  let ?h = "h @ [RegisterSignal Interrupt, RegisterSignal Terminate, WaitSignals]"
  from proxy_reload_inv[OF _ steps(3)] proxy_new_quiet[OF get_config_quiet[OF quiet_start_Nil steps(1)] steps(2)]
    safe_fields obtain c where "task p = Some c" "sender p = Some c"
    by (auto simp: proxy_inv_def lifecycle_inv_def)
  moreover obtain r p2 h4 where stop: "proxy_stop demo_sys p ?h = (Inr (r, p2), h4)"
    using proxy_stop_returns by blast
  ultimately have "r = Inr ()" using proxy_stop_run[OF _ _ stop] by (auto simp: demo_uuid)
  with steps stop have "program demo_sys demo_conf demo_main demo_parse [''tproxy'', ''-v'', ''/etc/tproxy.json''] = (Some 0, h4)"
    by (simp add: program_def demo_parse_file run_main_def run_file_def file_opt_def io_bind_run lift_result_def
        signals_wait_def demo_sys_def[THEN arg_cong, of sys_signal])
  from program_leaves_nothing [OF this, of 0] this show ?thesis by (auto simp: demo_main_def drops_def)
qed

theorem file_error_cleans_up_witness:
  "program demo_sys (demo_conf\<lparr>read_to_string := (\<lambda>path. Inl (External ''no such file''))\<rparr>) demo_main demo_parse
     [''tproxy'', ''-v'', ''/etc/tproxy.json''] = (Some 1, []) \<and> running [] = {} \<and> namespaces [] = {}"
proof -
  let ?F = "demo_conf\<lparr>read_to_string := (\<lambda>path. Inl (External ''no such file''))\<rparr>"
  have run: "program demo_sys ?F demo_main demo_parse [''tproxy'', ''-v'', ''/etc/tproxy.json''] = (Some 1, [])"
    by (simp add: program_def demo_parse_file run_main_def run_file_def get_config_from_opt_def
        read_raw_config_def file_opt_def io_bind_run)
  from file_error_cleans_up [OF demo_parse_file _ _ run] run show ?thesis by (simp add: file_opt_def)
qed

theorem sub_proxy_without_path_panics_witness:
  "run_main demo_sys demo_conf demo_main (file_opt\<lparr>cli_proxy := True\<rparr>) [] = (Inl (Panic ''unwrap ipc_path''), [])"
  using sub_proxy_without_path_panics [of "file_opt\<lparr>cli_proxy := True\<rparr>"] by (simp add: file_opt_def)

lemma interactive_run:
  "\<exists>h'. program demo_sys demo_conf demo_main demo_parse [''tproxy'', ''-i''] = (Some 0, h')"
proof -
  have "from_args_checked demo_parse [''tproxy'', ''-i''] = Inr (file_opt\<lparr>input := None, interactive := True\<rparr>)"
    by (simp add: from_args_checked_def demo_parse_def checked_def)
  moreover have "\<exists>w. service_run demo_sys demo_conf (service_start demo_server demo_service_history)
      [Register, Signal, Stop_proxy, Shut_down, Join] = Some w \<and> sw_main w = Finished (Inr ())"
    by (simp add: service_start_def service_move_def stop_service_def io_bind_run signals_wait_def
        demo_sys_def[THEN arg_cong, of sys_signal] proxy_stop_idle demo_server_def demo_proxy_def Let_def)
  ultimately show ?thesis
    by (auto simp: program_def run_main_def run_interactive_def io_bind_run demo_service_started demo_main_def
        file_opt_def)
qed

end
