(* ===== verification/Serde.thy ===== *)
theory Serde
  imports Raw_Config "HOL-Library.Monad_Syntax" "HOL-Library.Char_ord" "HOL-Library.List_Lexorder"
begin

text \<open>
  The serialised form of the configuration: what the \<open>derive(Serialize, Deserialize)\<close> and the
  \<open>serde\<close> attributes of \<open>raw_config.rs\<close> say of every struct and enum, over JSON documents. The text of a document (\<open>serde_json\<close>), the text of a duration (\<open>humantime\<close>) and the
  iteration order of a hash map are parameters. Reading follows the derived code: the fields of an
  object in any order, unknown ones ignored and known ones at most once, an array of all fields in
  place of an object, and an absent or null optional field as none. Of a document with several
  faults, which one the error names is left open.
\<close>

subsection \<open>Documents\<close>

text \<open>A number is a natural number or the text of any other.\<close>

datatype json = JNull | JBool bool | JNum nat | JOther string | JStr string | JArr "json list" | JObj "(string \<times> json) list"

text \<open>What \<open>str::from_utf8\<close> accepts, on the numbers of the bytes.\<close>

definition continuation :: "nat \<Rightarrow> bool" where
  "continuation c \<longleftrightarrow> 128 \<le> c \<and> c < 192"

fun utf8_bytes :: "nat list \<Rightarrow> bool" where
  "utf8_bytes [] = True"
| "utf8_bytes (b # bs) =
     (if b < 128 then utf8_bytes bs
      else case bs of [] \<Rightarrow> False
      | c # cs \<Rightarrow>
          if 194 \<le> b \<and> b < 224 then continuation c \<and> utf8_bytes cs
          else case cs of [] \<Rightarrow> False
          | d # ds \<Rightarrow>
              if 224 \<le> b \<and> b < 240
              then continuation c \<and> continuation d \<and> (b = 224 \<longrightarrow> 160 \<le> c) \<and> (b = 237 \<longrightarrow> c < 160) \<and> utf8_bytes ds
              else case ds of [] \<Rightarrow> False
              | e # es \<Rightarrow> 240 \<le> b \<and> b < 245 \<and> continuation c \<and> continuation d \<and> continuation e \<and>
                  (b = 240 \<longrightarrow> 144 \<le> c) \<and> (b = 244 \<longrightarrow> c < 144) \<and> utf8_bytes es)"

definition utf8 :: "string \<Rightarrow> bool" where
  "utf8 s = utf8_bytes (map of_char s)"

text \<open>The documents whose text \<open>serde_json\<close> reads back as they are: texts are UTF-8, numbers are
  natural and fit into \<open>u64\<close>, and at most \<open>n\<close> arrays and objects are nested.\<close>

fun plain_json :: "nat \<Rightarrow> json \<Rightarrow> bool" where
  "plain_json n JNull = True"
| "plain_json n (JBool b) = True"
| "plain_json n (JNum k) = (k < 2 ^ 64)"
| "plain_json n (JOther s) = False"
| "plain_json n (JStr s) = utf8 s"
| "plain_json 0 (JArr vs) = False"
| "plain_json (Suc n) (JArr vs) = list_all (plain_json n) vs"
| "plain_json 0 (JObj kvs) = False"
| "plain_json (Suc n) (JObj kvs) = list_all (\<lambda>(k, v). utf8 k \<and> plain_json n v) kvs"

text \<open>The libraries. A document is written by \<open>to_vec\<close> and read by \<open>from_slice\<close>, whose error for a
  document that does not have the shape of the type is \<open>data_error\<close>.\<close>

record serde_lib =
  json_print :: "json \<Rightarrow> bytes"
  json_parse :: "bytes \<Rightarrow> error + json"
  data_error :: "json \<Rightarrow> string"
  format_duration :: "duration \<Rightarrow> string"
  parse_duration :: "string \<Rightarrow> duration option"
  map_order :: "(string \<rightharpoonup> string) \<Rightarrow> string list"

text \<open>What their documentation says: the text of a plain document, nested at most 127 deep, parses
  back (\<open>serde_json\<close> refuses 128), \<open>parse_duration\<close> gives the value of a formatted duration, and
  iterating over a hash map visits every key once.\<close>

definition serde_laws :: "serde_lib \<Rightarrow> bool" where
  "serde_laws D \<longleftrightarrow>
     (\<forall>v. plain_json 127 v \<longrightarrow> json_parse D (json_print D v) = Inr v) \<and>
     (\<forall>d. parse_duration D (format_duration D d) = Some d \<and> utf8 (format_duration D d)) \<and>
     (\<forall>m. finite (dom m) \<longrightarrow> distinct (map_order D m) \<and> set (map_order D m) = dom m)"

subsection \<open>The shapes of serde\<close>

definition ser_opt :: "('a \<Rightarrow> json) \<Rightarrow> 'a option \<Rightarrow> json" where
  "ser_opt ser x = (case x of None \<Rightarrow> JNull | Some a \<Rightarrow> ser a)"

definition ser_u16 :: "u16 \<Rightarrow> json" where
  "ser_u16 n = JNum (unat n)"

definition ser_map :: "serde_lib \<Rightarrow> (string \<rightharpoonup> string) \<Rightarrow> json" where
  "ser_map D m = JObj (map (\<lambda>k. (k, JStr (the (m k)))) (map_order D m))"

definition ser_pairs :: "(string \<times> string) list \<Rightarrow> json" where
  "ser_pairs l = JArr (map (\<lambda>(a, b). JArr [JStr a, JStr b]) l)"

text \<open>The fields of a struct in a document, in the order of the struct; \<open>None\<close> stands for a field
  that is absent.\<close>

fun struct_fields :: "string list \<Rightarrow> json \<Rightarrow> json option list option" where
  "struct_fields names (JObj kvs) =
     (if distinct (filter (\<lambda>k. k \<in> set names) (map fst kvs)) then Some (map (map_of kvs) names) else None)"
| "struct_fields names (JArr vs) = (if length vs = length names then Some (map Some vs) else None)"
| "struct_fields names _ = None"

definition req_field :: "(json \<Rightarrow> 'a option) \<Rightarrow> json option \<Rightarrow> 'a option" where
  "req_field de v = Option.bind v de"

definition opt_field :: "(json \<Rightarrow> 'a option) \<Rightarrow> json option \<Rightarrow> 'a option option" where
  "opt_field de v = (case v of None \<Rightarrow> Some None | Some JNull \<Rightarrow> Some None | Some j \<Rightarrow> map_option Some (de j))"

fun de_bool :: "json \<Rightarrow> bool option" where
  "de_bool (JBool b) = Some b"
| "de_bool _ = None"

fun de_u16 :: "json \<Rightarrow> u16 option" where
  "de_u16 (JNum n) = (if n < 65536 then Some (of_nat n) else None)"
| "de_u16 _ = None"

fun de_u8 :: "json \<Rightarrow> u8 option" where
  "de_u8 (JNum n) = (if n < 256 then Some (of_nat n) else None)"
| "de_u8 _ = None"

fun de_string :: "json \<Rightarrow> string option" where
  "de_string (JStr s) = Some s"
| "de_string _ = None"

fun de_list :: "(json \<Rightarrow> 'a option) \<Rightarrow> json \<Rightarrow> 'a list option" where
  "de_list de (JArr vs) = those (map de vs)"
| "de_list de _ = None"

fun de_pair :: "json \<Rightarrow> (string \<times> string) option" where
  "de_pair (JArr [JStr a, JStr b]) = Some (a, b)"
| "de_pair _ = None"

text \<open>A hash map is filled in the order of the document, so a later entry replaces an earlier one.\<close>

fun de_map :: "json \<Rightarrow> (string \<rightharpoonup> string) option" where
  "de_map (JObj kvs) =
     map_option (\<lambda>l. map_of (rev l)) (those (map (\<lambda>(k, v). map_option (Pair k) (de_string v)) kvs))"
| "de_map _ = None"

text \<open>\<open>serde(tag = "type", content = "value")\<close>: the tag and the content.\<close>

definition ser_tagged :: "string \<Rightarrow> json \<Rightarrow> json" where
  "ser_tagged tag v = JObj [(''type'', JStr tag), (''value'', v)]"

definition de_tagged :: "json \<Rightarrow> (string \<times> json) option" where
  "de_tagged j = (case struct_fields [''type'', ''value''] j of
       Some [Some (JStr tag), Some v] \<Rightarrow> Some (tag, v)
     | _ \<Rightarrow> None)"

subsection \<open>Addresses and durations\<close>

text \<open>\<open>Ipv4Addr::from_str\<close>: four numbers of one to three digits below 256, without leading zeros.\<close>

definition octet_from_str :: "string \<Rightarrow> nat option" where
  "octet_from_str s =
     (if s \<noteq> [] \<and> length s \<le> 3 \<and> list_all is_digit s \<and> (hd s = CHR ''0'' \<longrightarrow> s = ''0'') \<and> undec s < 256
      then Some (undec s) else None)"

definition ipv4_from_str :: "string \<Rightarrow> ipv4_addr option" where
  "ipv4_from_str s = (case those (map octet_from_str (split_on (CHR ''.'') s)) of
       Some [a, b, c, d] \<Rightarrow> Some (of_nat (a * 16777216 + b * 65536 + c * 256 + d))
     | _ \<Rightarrow> None)"

definition ser_ipv4 :: "ipv4_addr \<Rightarrow> json" where
  "ser_ipv4 a = JStr (ipv4_to_string a)"

definition de_ipv4 :: "json \<Rightarrow> ipv4_addr option" where
  "de_ipv4 j = Option.bind (de_string j) ipv4_from_str"

definition ser_delay :: "serde_lib \<Rightarrow> duration option \<Rightarrow> json" where
  "ser_delay D = ser_opt (\<lambda>d. JStr (format_duration D d))"

definition de_delay :: "serde_lib \<Rightarrow> json option \<Rightarrow> duration option option" where
  "de_delay D = opt_field (\<lambda>j. Option.bind (de_string j) (parse_duration D))"

subsection \<open>The types of the configuration\<close>

definition ser_role :: "role \<Rightarrow> json" where
  "ser_role r = (case r of
       Client as \<Rightarrow> JObj [(''Client'', JArr (map ser_ipv4 as))]
     | Server as \<Rightarrow> JObj [(''Server'', JArr (map ser_ipv4 as))])"

definition de_role :: "json \<Rightarrow> role option" where
  "de_role j = (case j of
       JObj [(variant, v)] \<Rightarrow>
         if variant = ''Client'' then map_option Client (de_list de_ipv4 v)
         else if variant = ''Server'' then map_option Server (de_list de_ipv4 v)
         else None
     | _ \<Rightarrow> None)"

text \<open>Serialising a path fails when it is not UTF-8; nothing else of the configuration can fail.\<close>

definition ser_file :: "raw_file \<Rightarrow> error + json" where
  "ser_file f = (case f of
       Path p \<Rightarrow> if utf8 p then Inr (ser_tagged ''Path'' (JStr p))
                 else Inl (External ''path contains invalid UTF-8 characters'')
     | Contents c \<Rightarrow> Inr (ser_tagged ''Contents'' (JArr (map (\<lambda>b. JNum (unat b)) c))))"

definition de_file :: "json \<Rightarrow> raw_file option" where
  "de_file j = do {
     (tag, v) \<leftarrow> de_tagged j;
     if tag = ''Path'' then map_option Path (de_string v)
     else if tag = ''Contents'' then map_option Contents (de_list de_u8 v)
     else None }"

definition ser_tls :: "tls_raw_config \<Rightarrow> error + json" where
  "ser_tls t =
     (case (case ca_file t of None \<Rightarrow> Inr JNull | Some f \<Rightarrow> ser_file f) of Inl e \<Rightarrow> Inl e
      | Inr ca \<Rightarrow> (case ser_file (cert_file t) of Inl e \<Rightarrow> Inl e
      | Inr cert \<Rightarrow> (case ser_file (key_file t) of Inl e \<Rightarrow> Inl e
      | Inr key \<Rightarrow> Inr (JObj [(''ca_file'', ca), (''cert_file'', cert), (''key_file'', key)]))))"

definition de_tls :: "json \<Rightarrow> tls_raw_config option" where
  "de_tls j = (case struct_fields [''ca_file'', ''cert_file'', ''key_file''] j of
       Some [a, b, c] \<Rightarrow> do {
         ca \<leftarrow> opt_field de_file a;
         cert \<leftarrow> req_field de_file b;
         key \<leftarrow> req_field de_file c;
         Some \<lparr>ca_file = ca, cert_file = cert, key_file = key\<rparr> }
     | _ \<Rightarrow> None)"

definition ser_target :: "raw_target \<Rightarrow> json" where
  "ser_target t = JStr (case t of RawRequest \<Rightarrow> ''Request'' | RawResponse \<Rightarrow> ''Response'')"

definition de_target :: "json \<Rightarrow> raw_target option" where
  "de_target j = do {
     variant \<leftarrow> (case j of JStr s \<Rightarrow> Some s | JObj [(s, JNull)] \<Rightarrow> Some s | _ \<Rightarrow> None);
     if variant = ''Request'' then Some RawRequest
     else if variant = ''Response'' then Some RawResponse
     else None }"

definition ser_selector :: "serde_lib \<Rightarrow> raw_selector \<Rightarrow> json" where
  "ser_selector D s = JObj
     [(''port'', ser_opt ser_u16 (rs_port s)),
      (''path'', ser_opt JStr (rs_path s)),
      (''method'', ser_opt JStr (rs_method s)),
      (''code'', ser_opt ser_u16 (rs_code s)),
      (''request_headers'', ser_opt (ser_map D) (rs_request_headers s)),
      (''response_headers'', ser_opt (ser_map D) (rs_response_headers s))]"

definition de_selector :: "json \<Rightarrow> raw_selector option" where
  "de_selector j =
     (case struct_fields [''port'', ''path'', ''method'', ''code'', ''request_headers'', ''response_headers''] j of
       Some [a, b, c, d, e, f] \<Rightarrow> do {
         port \<leftarrow> opt_field de_u16 a;
         path \<leftarrow> opt_field de_string b;
         method \<leftarrow> opt_field de_string c;
         code \<leftarrow> opt_field de_u16 d;
         request \<leftarrow> opt_field de_map e;
         response \<leftarrow> opt_field de_map f;
         Some \<lparr>rs_port = port, rs_path = path, rs_method = method, rs_code = code,
           rs_request_headers = request, rs_response_headers = response\<rparr> }
     | _ \<Rightarrow> None)"

definition ser_patch_body :: "raw_patch_body \<Rightarrow> json" where
  "ser_patch_body b = JObj [(''contents'', case rpb_contents b of RawJSON s \<Rightarrow> ser_tagged ''JSON'' (JStr s))]"

definition de_patch_contents :: "json \<Rightarrow> raw_patch_body_contents option" where
  "de_patch_contents j = do {
     (tag, v) \<leftarrow> de_tagged j;
     if tag = ''JSON'' then map_option RawJSON (de_string v) else None }"

definition de_patch_body :: "json \<Rightarrow> raw_patch_body option" where
  "de_patch_body j = (case struct_fields [''contents''] j of
       Some [a] \<Rightarrow> do {
         contents \<leftarrow> req_field de_patch_contents a;
         Some \<lparr>rpb_contents = contents\<rparr> }
     | _ \<Rightarrow> None)"

definition ser_patch :: "raw_patch_action \<Rightarrow> json" where
  "ser_patch p = JObj
     [(''body'', ser_opt ser_patch_body (rpa_body p)),
      (''queries'', ser_opt ser_pairs (rpa_queries p)),
      (''headers'', ser_opt ser_pairs (rpa_headers p))]"

definition de_patch :: "json \<Rightarrow> raw_patch_action option" where
  "de_patch j = (case struct_fields [''body'', ''queries'', ''headers''] j of
       Some [a, b, c] \<Rightarrow> do {
         body \<leftarrow> opt_field de_patch_body a;
         queries \<leftarrow> opt_field (de_list de_pair) b;
         headers \<leftarrow> opt_field (de_list de_pair) c;
         Some \<lparr>rpa_body = body, rpa_queries = queries, rpa_headers = headers\<rparr> }
     | _ \<Rightarrow> None)"

definition ser_replace_body :: "raw_replace_body \<Rightarrow> json" where
  "ser_replace_body b = JObj [(''contents'', case rrb_contents b of
       TEXT s \<Rightarrow> ser_tagged ''TEXT'' (JStr s)
     | BASE64 s \<Rightarrow> ser_tagged ''BASE64'' (JStr s))]"

definition de_replace_contents :: "json \<Rightarrow> raw_replace_body_contents option" where
  "de_replace_contents j = do {
     (tag, v) \<leftarrow> de_tagged j;
     if tag = ''TEXT'' then map_option TEXT (de_string v)
     else if tag = ''BASE64'' then map_option BASE64 (de_string v)
     else None }"

definition de_replace_body :: "json \<Rightarrow> raw_replace_body option" where
  "de_replace_body j = (case struct_fields [''contents''] j of
       Some [a] \<Rightarrow> do {
         contents \<leftarrow> req_field de_replace_contents a;
         Some \<lparr>rrb_contents = contents\<rparr> }
     | _ \<Rightarrow> None)"

definition ser_replace :: "serde_lib \<Rightarrow> raw_replace_action \<Rightarrow> json" where
  "ser_replace D r = JObj
     [(''path'', ser_opt JStr (rra_path r)),
      (''method'', ser_opt JStr (rra_method r)),
      (''body'', ser_opt ser_replace_body (rra_body r)),
      (''code'', ser_opt ser_u16 (rra_code r)),
      (''queries'', ser_opt (ser_map D) (rra_queries r)),
      (''headers'', ser_opt (ser_map D) (rra_headers r))]"

definition de_replace :: "json \<Rightarrow> raw_replace_action option" where
  "de_replace j =
     (case struct_fields [''path'', ''method'', ''body'', ''code'', ''queries'', ''headers''] j of
       Some [a, b, c, d, e, f] \<Rightarrow> do {
         path \<leftarrow> opt_field de_string a;
         method \<leftarrow> opt_field de_string b;
         body \<leftarrow> opt_field de_replace_body c;
         code \<leftarrow> opt_field de_u16 d;
         queries \<leftarrow> opt_field de_map e;
         headers \<leftarrow> opt_field de_map f;
         Some \<lparr>rra_path = path, rra_method = method, rra_body = body, rra_code = code,
           rra_queries = queries, rra_headers = headers\<rparr> }
     | _ \<Rightarrow> None)"

definition ser_actions :: "serde_lib \<Rightarrow> raw_actions \<Rightarrow> json" where
  "ser_actions D a = JObj
     [(''abort'', ser_opt JBool (rac_abort a)),
      (''delay'', ser_delay D (rac_delay a)),
      (''replace'', ser_opt (ser_replace D) (rac_replace a)),
      (''patch'', ser_opt ser_patch (rac_patch a))]"

definition de_actions :: "serde_lib \<Rightarrow> json \<Rightarrow> raw_actions option" where
  "de_actions D j = (case struct_fields [''abort'', ''delay'', ''replace'', ''patch''] j of
       Some [a, b, c, d] \<Rightarrow> do {
         abort \<leftarrow> opt_field de_bool a;
         delay \<leftarrow> de_delay D b;
         replace \<leftarrow> opt_field de_replace c;
         patch \<leftarrow> opt_field de_patch d;
         Some \<lparr>rac_abort = abort, rac_delay = delay, rac_replace = replace, rac_patch = patch\<rparr> }
     | _ \<Rightarrow> None)"

definition ser_rule :: "serde_lib \<Rightarrow> raw_rule \<Rightarrow> json" where
  "ser_rule D r = JObj
     [(''target'', ser_target (rr_target r)),
      (''selector'', ser_selector D (rr_selector r)),
      (''actions'', ser_actions D (rr_actions r))]"

definition de_rule :: "serde_lib \<Rightarrow> json \<Rightarrow> raw_rule option" where
  "de_rule D j = (case struct_fields [''target'', ''selector'', ''actions''] j of
       Some [a, b, c] \<Rightarrow> do {
         target \<leftarrow> req_field de_target a;
         selector \<leftarrow> req_field de_selector b;
         actions \<leftarrow> req_field (de_actions D) c;
         Some \<lparr>rr_target = target, rr_selector = selector, rr_actions = actions\<rparr> }
     | _ \<Rightarrow> None)"

definition ser_config :: "serde_lib \<Rightarrow> proxy_raw_config \<Rightarrow> error + json" where
  "ser_config D cfg =
     (case (case prc_tls cfg of None \<Rightarrow> Inr JNull | Some t \<Rightarrow> ser_tls t) of Inl e \<Rightarrow> Inl e
      | Inr tls \<Rightarrow> Inr (JObj
         [(''proxy_ports'', ser_opt JStr (prc_proxy_ports cfg)),
          (''listen_port'', ser_u16 (prc_listen_port cfg)),
          (''safe_mode'', JBool (prc_safe_mode cfg)),
          (''rules'', JArr (map (ser_rule D) (prc_rules cfg))),
          (''role'', ser_opt ser_role (prc_role cfg)),
          (''tls'', tls)]))"

definition de_config :: "serde_lib \<Rightarrow> json \<Rightarrow> proxy_raw_config option" where
  "de_config D j =
     (case struct_fields [''proxy_ports'', ''listen_port'', ''safe_mode'', ''rules'', ''role'', ''tls''] j of
       Some [a, b, c, d, e, f] \<Rightarrow> do {
         ports \<leftarrow> opt_field de_string a;
         listen \<leftarrow> req_field de_u16 b;
         safe \<leftarrow> req_field de_bool c;
         rules \<leftarrow> req_field (de_list (de_rule D)) d;
         role \<leftarrow> opt_field de_role e;
         tls \<leftarrow> opt_field de_tls f;
         Some \<lparr>prc_proxy_ports = ports, prc_listen_port = listen, prc_safe_mode = safe,
           prc_rules = rules, prc_role = role, prc_tls = tls\<rparr> }
     | _ \<Rightarrow> None)"

text \<open>\<open>serde_json::to_vec\<close> and \<open>serde_json::from_slice\<close> at the type of the configuration.\<close>

definition raw_config_to_vec :: "serde_lib \<Rightarrow> proxy_raw_config \<Rightarrow> error + bytes" where
  "raw_config_to_vec D cfg = (case ser_config D cfg of Inl e \<Rightarrow> Inl e | Inr j \<Rightarrow> Inr (json_print D j))"

definition raw_config_from_slice :: "serde_lib \<Rightarrow> bytes \<Rightarrow> error + proxy_raw_config" where
  "raw_config_from_slice D bs = (case json_parse D bs of
       Inl e \<Rightarrow> Inl e
     | Inr j \<Rightarrow> (case de_config D j of None \<Rightarrow> Inl (External (data_error D j)) | Some cfg \<Rightarrow> Inr cfg))"

subsection \<open>Values of the Rust types\<close>

text \<open>A Rust \<open>String\<close> is UTF-8 and a \<open>HashMap\<close> is finite. A path need not be UTF-8.\<close>

definition rust_map :: "(string \<rightharpoonup> string) \<Rightarrow> bool" where
  "rust_map m \<longleftrightarrow> finite (dom m) \<and> (\<forall>k v. m k = Some v \<longrightarrow> utf8 k \<and> utf8 v)"

definition rust_pairs :: "(string \<times> string) list \<Rightarrow> bool" where
  "rust_pairs l \<longleftrightarrow> list_all (\<lambda>(a, b). utf8 a \<and> utf8 b) l"

definition rust_selector :: "raw_selector \<Rightarrow> bool" where
  "rust_selector s \<longleftrightarrow> opt_all utf8 (rs_path s) \<and> opt_all utf8 (rs_method s) \<and>
     opt_all rust_map (rs_request_headers s) \<and> opt_all rust_map (rs_response_headers s)"

definition rust_patch :: "raw_patch_action \<Rightarrow> bool" where
  "rust_patch p \<longleftrightarrow> opt_all (\<lambda>b. case rpb_contents b of RawJSON s \<Rightarrow> utf8 s) (rpa_body p) \<and>
     opt_all rust_pairs (rpa_queries p) \<and> opt_all rust_pairs (rpa_headers p)"

definition rust_replace :: "raw_replace_action \<Rightarrow> bool" where
  "rust_replace r \<longleftrightarrow> opt_all utf8 (rra_path r) \<and> opt_all utf8 (rra_method r) \<and>
     opt_all (\<lambda>b. case rrb_contents b of TEXT s \<Rightarrow> utf8 s | BASE64 s \<Rightarrow> utf8 s) (rra_body r) \<and>
     opt_all rust_map (rra_queries r) \<and> opt_all rust_map (rra_headers r)"

definition rust_rule :: "raw_rule \<Rightarrow> bool" where
  "rust_rule r \<longleftrightarrow> rust_selector (rr_selector r) \<and>
     opt_all rust_replace (rac_replace (rr_actions r)) \<and> opt_all rust_patch (rac_patch (rr_actions r))"

definition rust_config :: "proxy_raw_config \<Rightarrow> bool" where
  "rust_config cfg \<longleftrightarrow> opt_all utf8 (prc_proxy_ports cfg) \<and> list_all rust_rule (prc_rules cfg)"

subsection \<open>Reading back the shapes\<close>

lemma opt_field_ser [simp]:
  assumes "\<And>a. x = Some a \<Longrightarrow> de (ser a) = Some a \<and> ser a \<noteq> JNull"
  shows "opt_field de (Some (ser_opt ser x)) = Some x"
  using assms by (cases x) (auto simp: opt_field_def ser_opt_def split: json.splits)

lemma req_field_Some [simp]: "req_field de (Some v) = de v"
  by (simp add: req_field_def)

lemma de_u16_ser [simp]: "de_u16 (ser_u16 n) = Some n" "ser_u16 n \<noteq> JNull"
  using unsigned_less[of n, where 'a = nat] by (simp_all add: ser_u16_def)

lemma those_map: "(\<And>x. x \<in> set xs \<Longrightarrow> f x = Some (g x)) \<Longrightarrow> those (map f xs) = Some (map g xs)"
  by (induction xs) auto

lemma de_list_ser:
  "(\<And>x. x \<in> set xs \<Longrightarrow> de (ser x) = Some x) \<Longrightarrow> de_list de (JArr (map ser xs)) = Some xs"
  using those_map[of xs "\<lambda>x. de (ser x)" id] by (simp add: comp_def)

lemma de_pairs_ser [simp]: "de_list de_pair (ser_pairs l) = Some l" "ser_pairs l \<noteq> JNull"
proof -
  show "de_list de_pair (ser_pairs l) = Some l" unfolding ser_pairs_def by (rule de_list_ser) auto
qed (simp add: ser_pairs_def)

lemma de_bytes_ser [simp]: "de_list de_u8 (JArr (map (\<lambda>b. JNum (unat b)) c)) = Some c"
proof (rule de_list_ser)
  fix b :: u8
  show "de_u8 (JNum (unat b)) = Some b" using unsigned_less[of b, where 'a = nat] by simp
qed

lemma de_map_ser [simp]:
  assumes "serde_laws D" and "rust_map m"
  shows "de_map (ser_map D m) = Some m"
proof -
  from assms have ks: "distinct (map_order D m)" "set (map_order D m) = dom m"
    by (simp_all add: serde_laws_def rust_map_def)
  let ?l = "map (\<lambda>k. (k, the (m k))) (map_order D m)"
  have "those (map (\<lambda>(k, v). map_option (Pair k) (de_string v)) (map (\<lambda>k. (k, JStr (the (m k)))) (map_order D m)))
      = Some ?l"
    using those_map[of "map_order D m" "\<lambda>k. Some (k, the (m k))" "\<lambda>k. (k, the (m k))"] by (simp add: comp_def)
  moreover have "map_of (rev ?l) = map_of ?l" using ks(1) by (subst map_of_inject_set) (simp_all add: rev_map [symmetric] comp_def)
  moreover have "map_of ?l = m"
    unfolding map_of_map_restrict ks(2) by (auto simp: restrict_map_def fun_eq_iff domIff)
  ultimately show ?thesis by (simp add: ser_map_def)
qed

lemma ser_map_not_null [simp]: "ser_map D m \<noteq> JNull"
  by (simp add: ser_map_def)

lemma de_tagged_ser [simp]: "de_tagged (ser_tagged tag v) = Some (tag, v)" "ser_tagged tag v \<noteq> JNull"
  by (simp_all add: de_tagged_def ser_tagged_def)

lemma octet_dec: "n < 256 \<Longrightarrow> octet_from_str (dec n) = Some n"
proof -
  assume n: "n < 256"
  then have "length (dec n) \<le> 3" by (intro length_dec_le) simp_all
  moreover have "hd (dec n) = CHR ''0'' \<longrightarrow> n = 0"
  proof (induction n rule: dec.induct)
    case (1 n)
    show ?case
    proof (cases "n < 10")
      case True
      moreover have "undigit (CHR ''0'') = 0" by (simp add: undigit_def)
      ultimately show ?thesis using undigit_digit[OF True] by (auto simp: dec.simps[of n] simp del: undigit_digit)
    next
      case False
      with 1 show ?thesis by (subst dec.simps) (simp add: hd_append div_eq_0_iff)
    qed
  qed
  moreover have "dec 0 = ''0''" by (simp add: dec.simps digit_def char_of_eq_iff)
  ultimately show ?thesis using n dec_digits[of n] by (auto simp: octet_from_str_def)
qed

lemma ipv4_from_to_string [simp]: "ipv4_from_str (ipv4_to_string a) = Some a"
proof -
  have os: "ipv4_octets a \<noteq> []" by (simp add: ipv4_octets_def Let_def)
  have "list_all (\<lambda>w. CHR ''.'' \<notin> set w) (map dec (ipv4_octets a))"
    using dec_no_separator by (auto simp: list_all_iff)
  with os have "split_on (CHR ''.'') (ipv4_to_string a) = map dec (ipv4_octets a)"
    unfolding ipv4_to_string_def by (intro split_on_join) simp_all
  moreover have "those (map octet_from_str (map dec (ipv4_octets a))) = Some (ipv4_octets a)"
    using those_map[of "ipv4_octets a" "octet_from_str \<circ> dec" id] octet_dec ipv4_octets_bound[of a]
    by (simp add: comp_def)
  ultimately have "ipv4_from_str (ipv4_to_string a) = Some (of_nat (unat a div 16777216 * 16777216 +
      unat a div 65536 mod 256 * 65536 + unat a div 256 mod 256 * 256 + unat a mod 256))"
    by (simp add: ipv4_from_str_def ipv4_octets_def Let_def del: of_nat_add of_nat_mult list.map)
  moreover have "unat a div 16777216 * 16777216 + unat a div 65536 mod 256 * 65536 +
      unat a div 256 mod 256 * 256 + unat a mod 256 = unat a"
    using bytes_of_nat[of "unat a"] by (simp add: algebra_simps)
  ultimately show ?thesis by simp
qed

lemma de_ipv4_ser [simp]: "de_ipv4 (ser_ipv4 a) = Some a"
  by (simp add: de_ipv4_def ser_ipv4_def)

lemma de_delay_ser [simp]: "serde_laws D \<Longrightarrow> de_delay D (Some (ser_delay D d)) = Some d"
  unfolding de_delay_def ser_delay_def by (rule opt_field_ser) (simp add: serde_laws_def)

subsection \<open>Reading back the configuration\<close>

lemma de_role_ser [simp]: "de_role (ser_role r) = Some r" "ser_role r \<noteq> JNull"
  by (cases r; simp add: ser_role_def de_role_def de_list_ser del: de_list.simps)+

lemma de_file_ser: "ser_file f = Inr j \<Longrightarrow> de_file j = Some f \<and> j \<noteq> JNull"
  by (cases f) (auto simp: ser_file_def de_file_def simp del: de_list.simps split: if_splits)

lemma de_tls_ser:
  assumes "ser_tls t = Inr j"
  shows "de_tls j = Some t \<and> j \<noteq> JNull"
proof -
  from assms obtain ca cert key where
    ca: "(case ca_file t of None \<Rightarrow> Inr JNull | Some f \<Rightarrow> ser_file f) = Inr ca" and
    files: "ser_file (cert_file t) = Inr cert" "ser_file (key_file t) = Inr key" and
    j: "j = JObj [(''ca_file'', ca), (''cert_file'', cert), (''key_file'', key)]"
    by (auto simp: ser_tls_def split: sum.splits)
  from ca have "opt_field de_file (Some ca) = Some (ca_file t)"
    by (auto simp: opt_field_def dest: de_file_ser split: option.splits json.splits)
  with de_file_ser[OF files(1)] de_file_ser[OF files(2)] show ?thesis by (simp add: j de_tls_def)
qed

lemma de_target_ser [simp]: "de_target (ser_target t) = Some t"
  by (cases t) (simp_all add: de_target_def ser_target_def)

lemma de_selector_ser [simp]:
  assumes "serde_laws D" and "rust_selector s"
  shows "de_selector (ser_selector D s) = Some s"
  using assms by (simp add: de_selector_def ser_selector_def rust_selector_def opt_all_iff)

lemma de_patch_ser [simp]: "de_patch (ser_patch p) = Some p" "ser_patch p \<noteq> JNull"
proof -
  have "de_patch_body (ser_patch_body b) = Some b \<and> ser_patch_body b \<noteq> JNull" for b
    by (cases "rpb_contents b") (simp_all add: de_patch_body_def ser_patch_body_def de_patch_contents_def)
  then show "de_patch (ser_patch p) = Some p" by (simp add: de_patch_def ser_patch_def del: de_list.simps)
qed (simp add: ser_patch_def)

lemma de_replace_ser [simp]:
  assumes "serde_laws D" and "rust_replace r"
  shows "de_replace (ser_replace D r) = Some r" "ser_replace D r \<noteq> JNull"
proof -
  have "de_replace_body (ser_replace_body b) = Some b \<and> ser_replace_body b \<noteq> JNull" for b
    by (cases "rrb_contents b") (simp_all add: de_replace_body_def ser_replace_body_def de_replace_contents_def)
  with assms show "de_replace (ser_replace D r) = Some r"
    by (simp add: de_replace_def ser_replace_def rust_replace_def opt_all_iff)
qed (simp add: ser_replace_def)

lemma de_rule_ser:
  assumes "serde_laws D" and "rust_rule r"
  shows "de_rule D (ser_rule D r) = Some r"
proof -
  have "de_actions D (ser_actions D (rr_actions r)) = Some (rr_actions r)"
    using assms by (simp add: de_actions_def ser_actions_def rust_rule_def opt_all_iff)
  with assms show ?thesis by (simp add: de_rule_def ser_rule_def rust_rule_def)
qed

lemma ser_config_Inr:
  assumes "ser_config D cfg = Inr j"
  obtains tls where "(case prc_tls cfg of None \<Rightarrow> Inr JNull | Some t \<Rightarrow> ser_tls t) = Inr tls"
    "j = JObj [(''proxy_ports'', ser_opt JStr (prc_proxy_ports cfg)), (''listen_port'', ser_u16 (prc_listen_port cfg)),
          (''safe_mode'', JBool (prc_safe_mode cfg)), (''rules'', JArr (map (ser_rule D) (prc_rules cfg))),
          (''role'', ser_opt ser_role (prc_role cfg)), (''tls'', tls)]"
  using assms unfolding ser_config_def by (auto split: sum.splits)

lemma de_config_ser:
  assumes "serde_laws D" and "rust_config cfg" and "ser_config D cfg = Inr j"
  shows "de_config D j = Some cfg"
proof -
  from assms(3) obtain tls where
    tls: "(case prc_tls cfg of None \<Rightarrow> Inr JNull | Some t \<Rightarrow> ser_tls t) = Inr tls" and
    j: "j = JObj [(''proxy_ports'', ser_opt JStr (prc_proxy_ports cfg)), (''listen_port'', ser_u16 (prc_listen_port cfg)),
          (''safe_mode'', JBool (prc_safe_mode cfg)), (''rules'', JArr (map (ser_rule D) (prc_rules cfg))),
          (''role'', ser_opt ser_role (prc_role cfg)), (''tls'', tls)]"
    by (rule ser_config_Inr)
  from tls have "opt_field de_tls (Some tls) = Some (prc_tls cfg)"
    by (auto simp: opt_field_def dest: de_tls_ser split: option.splits json.splits)
  moreover have "de_list (de_rule D) (JArr (map (ser_rule D) (prc_rules cfg))) = Some (prc_rules cfg)"
    using assms(1,2) by (intro de_list_ser de_rule_ser) (auto simp: rust_config_def list_all_iff)
  ultimately show ?thesis by (simp add: j de_config_def del: de_list.simps)
qed

subsection \<open>Documents of configurations are plain\<close>

lemma utf8_ascii: "list_all (\<lambda>c. of_char c < (128 :: nat)) s \<Longrightarrow> utf8 s"
  by (induction s) (simp_all add: utf8_def)

lemma utf8_dec [simp]: "utf8 (dec n)"
  using dec_digits[of n] by (intro utf8_ascii) (auto simp: list_all_iff is_digit_def)

lemma utf8_literals [simp]:
  "utf8 ''type''" "utf8 ''value''" "utf8 ''Client''" "utf8 ''Server''" "utf8 ''Path''" "utf8 ''Contents''"
  "utf8 ''ca_file''" "utf8 ''cert_file''" "utf8 ''key_file''" "utf8 ''Request''" "utf8 ''Response''"
  "utf8 ''port''" "utf8 ''path''" "utf8 ''method''" "utf8 ''code''" "utf8 ''request_headers''"
  "utf8 ''response_headers''" "utf8 ''contents''" "utf8 ''JSON''" "utf8 ''body''" "utf8 ''queries''"
  "utf8 ''headers''" "utf8 ''TEXT''" "utf8 ''BASE64''" "utf8 ''abort''" "utf8 ''delay''" "utf8 ''replace''"
  "utf8 ''patch''" "utf8 ''target''" "utf8 ''selector''" "utf8 ''actions''" "utf8 ''proxy_ports''"
  "utf8 ''listen_port''" "utf8 ''safe_mode''" "utf8 ''rules''" "utf8 ''role''" "utf8 ''tls''"
  by (simp_all add: utf8_def)

lemma utf8_join: "sep = CHR ''.'' \<Longrightarrow> utf8 (join sep (map dec ns))"
proof (rule utf8_ascii)
  assume sep: "sep = CHR ''.''"
  have "c \<in> set (join sep ws) \<Longrightarrow> c = sep \<or> (\<exists>w \<in> set ws. c \<in> set w)" for c ws
    by (induction sep ws rule: join.induct) auto
  from this[of _ "map dec ns"] dec_digits sep
  show "list_all (\<lambda>c. of_char c < (128 :: nat)) (join sep (map dec ns))"
    by (fastforce simp: list_all_iff is_digit_def)
qed

lemma plain_opt: "(\<And>a. x = Some a \<Longrightarrow> plain_json n (ser a)) \<Longrightarrow> plain_json n (ser_opt ser x)"
  by (cases x) (simp_all add: ser_opt_def)

lemma plain_u16 [simp]: "plain_json n (ser_u16 p)"
  using unsigned_less[of p, where 'a = nat] by (simp add: ser_u16_def)

lemma plain_tagged [simp]: "plain_json (Suc n) (ser_tagged tag v) \<longleftrightarrow> utf8 tag \<and> plain_json n v"
  by (simp add: ser_tagged_def)

lemma plain_map: "serde_laws D \<Longrightarrow> rust_map m \<Longrightarrow> plain_json (Suc n) (ser_map D m)"
  by (fastforce simp: ser_map_def list_all_iff serde_laws_def rust_map_def)

lemma plain_pairs: "rust_pairs l \<Longrightarrow> plain_json (Suc (Suc n)) (ser_pairs l)"
  by (fastforce simp: ser_pairs_def rust_pairs_def list_all_iff)

lemma plain_role: "plain_json (Suc (Suc n)) (ser_role r)"
  by (cases r) (simp_all add: ser_role_def ser_ipv4_def ipv4_to_string_def utf8_join list_all_iff)

lemma plain_file: "ser_file f = Inr j \<Longrightarrow> plain_json (Suc (Suc n)) j"
proof (cases f)
  case (Contents c)
  have "unat (b :: u8) < 18446744073709551616" for b
    using unsigned_less[of b, where 'a = nat] by simp
  moreover assume "ser_file f = Inr j"
  ultimately show ?thesis using Contents by (auto simp: ser_file_def list_all_iff)
qed (auto simp: ser_file_def split: if_splits)

lemma plain_tls: "ser_tls t = Inr j \<Longrightarrow> plain_json (Suc (Suc (Suc n))) j"
  by (auto simp: ser_tls_def intro: plain_file split: sum.splits option.splits)

lemma plain_target: "plain_json n (ser_target t)"
  by (cases t) (simp_all add: ser_target_def)

lemma plain_selector:
  assumes "serde_laws D" and "rust_selector s"
  shows "plain_json (Suc (Suc n)) (ser_selector D s)"
  using assms by (auto simp: ser_selector_def rust_selector_def opt_all_iff intro!: plain_opt plain_map)

lemma plain_patch: "rust_patch p \<Longrightarrow> plain_json (Suc (Suc (Suc n))) (ser_patch p)"
  by (auto simp: ser_patch_def ser_patch_body_def rust_patch_def opt_all_iff
      split: raw_patch_body_contents.splits intro!: plain_opt plain_pairs)

lemma plain_replace:
  "serde_laws D \<Longrightarrow> rust_replace r \<Longrightarrow> plain_json (Suc (Suc (Suc n))) (ser_replace D r)"
  by (auto simp: ser_replace_def ser_replace_body_def rust_replace_def opt_all_iff
      split: raw_replace_body_contents.splits intro!: plain_opt plain_map)

lemma plain_rule:
  assumes "serde_laws D" and "rust_rule r"
  shows "plain_json (Suc (Suc (Suc (Suc (Suc n))))) (ser_rule D r)"
  using assms
  by (auto simp: ser_rule_def ser_actions_def ser_delay_def rust_rule_def opt_all_iff serde_laws_def
      intro!: plain_opt plain_selector plain_target plain_replace plain_patch)

lemma plain_config:
  assumes "serde_laws D" and "rust_config cfg" and "ser_config D cfg = Inr j"
  shows "plain_json 127 j"
proof -
  from assms(3) obtain tls where tls: "(case prc_tls cfg of None \<Rightarrow> Inr JNull | Some t \<Rightarrow> ser_tls t) = Inr tls" and
    j: "j = JObj [(''proxy_ports'', ser_opt JStr (prc_proxy_ports cfg)), (''listen_port'', ser_u16 (prc_listen_port cfg)),
          (''safe_mode'', JBool (prc_safe_mode cfg)), (''rules'', JArr (map (ser_rule D) (prc_rules cfg))),
          (''role'', ser_opt ser_role (prc_role cfg)), (''tls'', tls)]"
    by (rule ser_config_Inr)
  from tls have "plain_json (Suc (Suc (Suc n))) tls" for n
    by (auto split: option.splits intro: plain_tls)
  then have "plain_json (Suc (Suc (Suc (Suc (Suc (Suc (Suc n))))))) j" for n
    using assms(1,2)
    by (auto simp: j rust_config_def list_all_iff opt_all_iff intro!: plain_opt plain_rule plain_role)
  from this[of 120] show ?thesis by simp
qed

subsection \<open>The round trip\<close>

text \<open>The files of the TLS configuration that are named by a path, in the order they are written.\<close>

definition tls_paths :: "proxy_raw_config \<Rightarrow> string list" where
  "tls_paths cfg = (case prc_tls cfg of None \<Rightarrow> []
     | Some t \<Rightarrow> concat (map (\<lambda>f. case f of Path p \<Rightarrow> [p] | Contents _ \<Rightarrow> [])
         ((case ca_file t of None \<Rightarrow> [] | Some f \<Rightarrow> [f]) @ [cert_file t, key_file t])))"

lemma ser_file_Inl:
  "(\<exists>e. ser_file f = Inl e) \<longleftrightarrow> (\<exists>p. f = Path p \<and> \<not> utf8 p)"
  by (cases f) (simp_all add: ser_file_def)

lemma ser_config_fails:
  "(\<exists>e. ser_config D cfg = Inl e) \<longleftrightarrow> (\<exists>p \<in> set (tls_paths cfg). \<not> utf8 p)"
proof (cases "prc_tls cfg")
  case (Some t)
  have f: "(\<exists>e. ser_file f = Inl e) \<longleftrightarrow> (\<exists>p \<in> set (case f of Path p \<Rightarrow> [p] | Contents _ \<Rightarrow> []). \<not> utf8 p)" for f
    by (auto simp: ser_file_Inl split: raw_file.splits)
  have "(\<exists>e. ser_tls t = Inl e) \<longleftrightarrow> (\<exists>f. ca_file t = Some f \<and> (\<exists>e. ser_file f = Inl e)) \<or>
      (\<exists>e. ser_file (cert_file t) = Inl e) \<or> (\<exists>e. ser_file (key_file t) = Inl e)"
    by (auto simp: ser_tls_def split: sum.splits option.splits)
  then show ?thesis
    by (cases "ca_file t") (auto simp: ser_config_def tls_paths_def Some f split: sum.splits)
qed (simp add: ser_config_def tls_paths_def)

lemma raw_config_transfers:
  assumes "serde_laws D" and "rust_config cfg" and "raw_config_to_vec D cfg = Inr buf"
  shows "raw_config_from_slice D buf = Inr cfg"
proof -
  from assms(3) obtain j where j: "ser_config D cfg = Inr j" "buf = json_print D j"
    by (auto simp: raw_config_to_vec_def split: sum.splits)
  with assms(1) plain_config[OF assms(1,2) j(1)] have "json_parse D buf = Inr j" by (simp add: serde_laws_def)
  with de_config_ser[OF assms(1,2) j(1)] show ?thesis by (simp add: raw_config_from_slice_def)
qed

text \<open>C27: the configuration survives the transfer. Serialising a configuration fails exactly when one
  of its files is named by a path that is not UTF-8; otherwise the bytes written are read back as
  exactly the same configuration, with all rules, maps, delays, addresses and files. Assumed are
  what the documentation of \<open>serde_json\<close> and \<open>humantime\<close> says of the text of integers, UTF-8
  strings and durations, and that the strings and maps are values of the Rust types.\<close>

theorem config_survives_transfer:
  assumes "serde_laws D" and "rust_config cfg"
  shows "case raw_config_to_vec D cfg of
       Inl e \<Rightarrow> \<exists>p \<in> set (tls_paths cfg). \<not> utf8 p
     | Inr buf \<Rightarrow> (\<forall>p \<in> set (tls_paths cfg). utf8 p) \<and> raw_config_from_slice D buf = Inr cfg"
  using ser_config_fails[of D cfg] raw_config_transfers[OF assms]
  by (auto simp: raw_config_to_vec_def split: sum.splits)

subsection \<open>A concrete library\<close>

text \<open>A text format that satisfies the laws: the document in postfix order, for a machine with a
  stack of documents.\<close>

fun postfix :: "json \<Rightarrow> bytes" where
  "postfix JNull = [0]"
| "postfix (JBool b) = [if b then 1 else 2]"
| "postfix (JNum k) = 3 # replicate k 4"
| "postfix (JOther s) = 5 # concat (map (\<lambda>c. [6, of_nat (of_char c)]) s) @ [11]"
| "postfix (JStr s) = 5 # concat (map (\<lambda>c. [6, of_nat (of_char c)]) s)"
| "postfix (JArr vs) = 7 # concat (map (\<lambda>v. postfix v @ [8]) vs)"
| "postfix (JObj kvs) = 9 # concat (map (\<lambda>(k, v). (5 # concat (map (\<lambda>c. [6, of_nat (of_char c)]) k)) @ postfix v @ [10]) kvs)"

fun push_token :: "byte \<Rightarrow> json list \<Rightarrow> json list option" where
  "push_token b st =
     (if b = 0 then Some (JNull # st)
      else if b = 1 then Some (JBool True # st)
      else if b = 2 then Some (JBool False # st)
      else if b = 3 then Some (JNum 0 # st)
      else if b = 5 then Some (JStr [] # st)
      else if b = 7 then Some (JArr [] # st)
      else if b = 9 then Some (JObj [] # st)
      else if b = 4 then (case st of JNum k # st \<Rightarrow> Some (JNum (Suc k) # st) | _ \<Rightarrow> None)
      else if b = 11 then (case st of JStr s # st \<Rightarrow> Some (JOther s # st) | _ \<Rightarrow> None)
      else if b = 8 then (case st of v # JArr vs # st \<Rightarrow> Some (JArr (vs @ [v]) # st) | _ \<Rightarrow> None)
      else if b = 10 then (case st of v # JStr k # JObj kvs # st \<Rightarrow> Some (JObj (kvs @ [(k, v)]) # st) | _ \<Rightarrow> None)
      else None)"

fun unpostfix :: "bytes \<Rightarrow> json list \<Rightarrow> json list option" where
  "unpostfix [] st = Some st"
| "unpostfix (b # bs) st =
     (if b = 6 then (case bs of c # bs' \<Rightarrow> (case st of JStr s # st \<Rightarrow> unpostfix bs' (JStr (s @ [char_of (unat c)]) # st) | _ \<Rightarrow> None)
                     | [] \<Rightarrow> None)
      else case push_token b st of None \<Rightarrow> None | Some st' \<Rightarrow> unpostfix bs st')"

lemma char_of_byte [simp]: "char_of (unat (of_nat (of_char c) :: byte)) = c"
  by (simp add: unat_of_nat)

lemma unpostfix_number: "unpostfix (replicate k 4 @ rest) (JNum n # st) = unpostfix rest (JNum (n + k) # st)"
  by (induction k arbitrary: n) simp_all

lemma unpostfix_text:
  "unpostfix (concat (map (\<lambda>c. [6, of_nat (of_char c)]) s) @ rest) (JStr t # st) = unpostfix rest (JStr (t @ s) # st)"
  by (induction s arbitrary: t) simp_all

lemma unpostfix_items:
  assumes "\<And>v rest st. v \<in> set vs \<Longrightarrow> unpostfix (postfix v @ rest) st = unpostfix rest (v # st)"
  shows "unpostfix (concat (map (\<lambda>v. postfix v @ [8]) vs) @ rest) (JArr us # st) = unpostfix rest (JArr (us @ vs) # st)"
  using assms by (induction vs arbitrary: us) simp_all

lemma unpostfix_entries:
  assumes "\<And>k v rest st. (k, v) \<in> set kvs \<Longrightarrow> unpostfix (postfix v @ rest) st = unpostfix rest (v # st)"
  shows "unpostfix (concat (map (\<lambda>(k, v). (5 # concat (map (\<lambda>c. [6, of_nat (of_char c)]) k)) @ postfix v @ [10]) kvs) @ rest)
      (JObj us # st) = unpostfix rest (JObj (us @ kvs) # st)"
  using assms
proof (induction kvs arbitrary: us)
  case (Cons kv kvs)
  obtain k v where kv: "kv = (k, v)" by fastforce
  have v: "unpostfix (postfix v @ rest) st = unpostfix rest (v # st)" for rest st
    using Cons.prems[of k v] by (simp add: kv)
  have "unpostfix (postfix v' @ rest) st = unpostfix rest (v' # st)" if "(k', v') \<in> set kvs" for k' v' rest st
    using Cons.prems[of k' v'] that by simp
  from Cons.IH[OF this] show ?case by (simp add: kv unpostfix_text v)
qed simp

lemma unpostfix_postfix: "unpostfix (postfix v @ rest) st = unpostfix rest (v # st)"
proof (induction v arbitrary: rest st)
  case (JArr vs)
  with unpostfix_items[of vs rest "[]" st] show ?case by simp
next
  case (JObj kvs)
  have "unpostfix (postfix v @ rest) st = unpostfix rest (v # st)" if "(k, v) \<in> set kvs" for k v rest st
    using JObj[OF that] by simp
  from unpostfix_entries[of kvs, OF this] show ?case by simp
qed (simp_all add: unpostfix_number unpostfix_text)

definition demo_serde :: serde_lib where
  "demo_serde = \<lparr>json_print = postfix,
     json_parse = (\<lambda>bs. case unpostfix bs [] of Some [v] \<Rightarrow> Inr v | _ \<Rightarrow> Inl (External ''no document'')),
     data_error = (\<lambda>_. ''invalid type''), format_duration = dec,
     parse_duration = (\<lambda>s. if list_all is_digit s then Some (undec s) else None),
     map_order = (\<lambda>m. sorted_list_of_set (dom m))\<rparr>"

lemma demo_serde_laws: "serde_laws demo_serde"
  using unpostfix_postfix[of _ "[]" "[]"] dec_digits by (simp add: serde_laws_def demo_serde_def)

text \<open>A configuration that uses every part.\<close>

definition full_cfg :: proxy_raw_config where
  "full_cfg = \<lparr>prc_proxy_ports = Some ''80,443'', prc_listen_port = 1025, prc_safe_mode = True,
     prc_rules = [\<lparr>rr_target = RawResponse,
       rr_selector = \<lparr>rs_port = Some 80, rs_path = Some ''/a*'', rs_method = None, rs_code = Some 200,
         rs_request_headers = Some [''a'' \<mapsto> ''b'', ''c'' \<mapsto> ''d''], rs_response_headers = None\<rparr>,
       rr_actions = \<lparr>rac_abort = Some False, rac_delay = Some 5,
         rac_replace = Some \<lparr>rra_path = None, rra_method = None, rra_body = Some \<lparr>rrb_contents = BASE64 ''aGk=''\<rparr>,
           rra_code = Some 500, rra_queries = Some Map.empty, rra_headers = None\<rparr>,
         rac_patch = Some \<lparr>rpa_body = Some \<lparr>rpb_contents = RawJSON ''{}''\<rparr>, rpa_queries = Some [(''x'', ''1'')],
           rpa_headers = None\<rparr>\<rparr>\<rparr>],
     prc_role = Some (Server [0x0A000001, 0x0A000002]),
     prc_tls = Some \<lparr>ca_file = None, cert_file = Path ''/c.pem'', key_file = Contents [1, 2, 255]\<rparr>\<rparr>"

lemma full_cfg_rust: "rust_config full_cfg"
proof -
  have "rust_map [''a'' \<mapsto> ''b'', ''c'' \<mapsto> ''d'']" "rust_map Map.empty"
    by (auto simp: rust_map_def utf8_def split: if_splits)
  then show ?thesis
    by (simp add: rust_config_def full_cfg_def rust_rule_def rust_selector_def rust_replace_def rust_patch_def
        rust_pairs_def utf8_def)
qed

theorem config_survives_transfer_witness:
  "\<exists>buf. raw_config_to_vec demo_serde full_cfg = Inr buf \<and> raw_config_from_slice demo_serde buf = Inr full_cfg"
proof -
  have "\<not> (\<exists>p \<in> set (tls_paths full_cfg). \<not> utf8 p)" by (simp add: tls_paths_def full_cfg_def utf8_def)
  with config_survives_transfer [OF demo_serde_laws full_cfg_rust] show ?thesis
    by (auto split: sum.splits)
qed

end
