(* ===== verification/Http_Service.thy ===== *)
theory Http_Service
  imports Raw_Config
begin

text \<open>
  \<open>HttpService\<close> of \<open>proxy/http/server.rs\<close>: the handling of one request, from the selection of
  the request rules to the response. The shared contract of the two rule loops is the locale
  \<open>rule_pass\<close>, interpreted on both.
\<close>

record ('h, 'j, 'c) http_service =
  remote :: socket_addr
  svc_target :: socket_addr
  svc_config :: "('h, 'j) http_config"
  svc_tls_client_config :: "'c option"

text \<open>How the world answers a forwarded request: a function of the history, of whether TLS is
  used, of the address connected to, of the address bound, and of the request.\<close>

type_synonym ('u, 'h) forwarder =
  "('u, 'h) pevent list \<Rightarrow> bool \<Rightarrow> socket_addr \<Rightarrow> socket_addr \<Rightarrow> ('u, 'h) request
    \<Rightarrow> error + 'h response"

definition http_service_new ::
  "socket_addr \<Rightarrow> socket_addr \<Rightarrow> ('h, 'j) http_config \<Rightarrow> 'c option \<Rightarrow> ('h, 'j, 'c) http_service" where
  "http_service_new addr_remote addr_target cfg tls =
     \<lparr>remote = addr_remote, svc_target = addr_target, svc_config = cfg,
      svc_tls_client_config = tls\<rparr>"

definition role_ok :: "('h, 'j, 'c) http_service \<Rightarrow> bool" where
  "role_ok svc = (case hc_role (svc_config svc) of None \<Rightarrow> True
     | Some r \<Rightarrow> select_role (ip (remote svc)) (ip (svc_target svc)) r)"

definition request_selected ::
  "('u, 'q, 'h, 'j) lib \<Rightarrow> ('h, 'j, 'c) http_service \<Rightarrow> ('u, 'h) request \<Rightarrow> ('h, 'j) rule \<Rightarrow> bool" where
  "request_selected L svc request rule \<longleftrightarrow>
     role_ok svc \<and> rule_target rule = Request \<and>
     select_request L (port (svc_target svc)) request (rule_selector rule)"

definition response_selected ::
  "('u, 'q, 'h, 'j) lib \<Rightarrow> ('h, 'j, 'c) http_service \<Rightarrow> 'u \<Rightarrow> string \<Rightarrow> 'h \<Rightarrow> 'h response
    \<Rightarrow> ('h, 'j) rule \<Rightarrow> bool" where
  "response_selected L svc uri method headers response rule \<longleftrightarrow>
     role_ok svc \<and> rule_target rule = Response \<and>
     select_response L (port (svc_target svc)) uri method headers response (rule_selector rule)"

text \<open>The request URI is rebuilt with an authority (the \<open>Host\<close> header, or the address the
  client connected to), a path and the scheme of the connection.\<close>

definition rebuild_uri ::
  "('u, 'q, 'h, 'j) lib \<Rightarrow> ('h, 'j, 'c) http_service \<Rightarrow> ('u, 'h) request \<Rightarrow> 'u res" where
  "rebuild_uri L svc request =
     (let parts = uri_into_parts L (req_uri request) in
      res_bind
        (case find (\<lambda>(header_name, _). header_name = HOST) (hm_iter L (req_headers request)) of
           None \<Rightarrow> (case authority_parse L (socket_addr_to_string (svc_target svc)) of
               Inr o' \<Rightarrow> Inr (Some o')
             | Inl _ \<Rightarrow> Inr None)
         | Some (_, v) \<Rightarrow> res_bind (ext (authority_of_bytes L v)) (\<lambda>a. Inr (Some a)))
      (\<lambda>auth.
        let parts = parts\<lparr>authority := auth\<rparr> in
        res_bind
          (if path_and_query parts = None then
             (case paq_parse L ''/'' of
                Inl _ \<Rightarrow> panic ''static str is not valid path''
              | Inr slash \<Rightarrow> Inr (parts\<lparr>path_and_query := Some slash\<rparr>))
           else Inr parts)
        (\<lambda>parts.
          let parts = (if svc_tls_client_config svc \<noteq> None
                       then parts\<lparr>scheme := Some ''https''\<rparr>
                       else parts\<lparr>scheme := Some ''http''\<rparr>)
          in ext (uri_from_parts L parts))))"

definition bad_gateway :: "('u, 'q, 'h, 'j) lib \<Rightarrow> 'h response" where
  "bad_gateway L = \<lparr>rsp_status = 502, rsp_version = ''HTTP/1.1'', rsp_headers = hm_new L,
     rsp_body = body_default L\<rparr>"

definition forward_request ::
  "('u, 'q, 'h, 'j) lib \<Rightarrow> ('u, 'h) forwarder \<Rightarrow> ('h, 'j, 'c) http_service \<Rightarrow> ('u, 'h) request
    \<Rightarrow> (('u, 'h) pevent, 'h response) io" where
  "forward_request L fw svc request =
     (let tls = svc_tls_client_config svc \<noteq> None in
      io_bind (io_try (io_call (Forward tls (svc_target svc) (remote svc) request)
                 (\<lambda>h. fw h tls (svc_target svc) (remote svc) request)))
        (\<lambda>r. case r of Inr resp \<Rightarrow> io_ok resp | Inl err \<Rightarrow> io_ok (bad_gateway L)))"

definition request_step ::
  "('u, 'q, 'h, 'j) lib \<Rightarrow> ('u, 'h) request \<Rightarrow> ('h, 'j) rule \<Rightarrow> (('u, 'h) pevent, ('u, 'h) request) io"
  where
  "request_step L req rule = apply_request_action L req (rule_actions rule)"

definition response_step ::
  "('u, 'q, 'h, 'j) lib \<Rightarrow> 'h response \<Rightarrow> ('h, 'j) rule \<Rightarrow> (('u, 'h) pevent, 'h response) io" where
  "response_step L rsp rule = apply_response_action L rsp (rule_actions rule)"

definition handle ::
  "('u, 'q, 'h, 'j) lib \<Rightarrow> ('u, 'h) forwarder \<Rightarrow> ('h, 'j, 'c) http_service \<Rightarrow> ('u, 'h) request
    \<Rightarrow> (('u, 'h) pevent, 'h response) io" where
  "handle L fw svc request =
     (let request_rules = filter (request_selected L svc request) (hc_rules (svc_config svc)) in
      io_bind (io_foldl (request_step L) request request_rules) (\<lambda>request.
      let uri = req_uri request; method = req_method request; headers = req_headers request in
      io_bind (io_lift (rebuild_uri L svc request)) (\<lambda>uri'.
      io_bind (forward_request L fw svc (request\<lparr>req_uri := uri'\<rparr>)) (\<lambda>response.
      let response_rules = filter (response_selected L svc uri method headers response)
                                  (hc_rules (svc_config svc)) in
      io_foldl (response_step L) response response_rules))))"

subsection \<open>The contract of a pass over rules\<close>

text \<open>A pass applies rules in order to a message. A rule may abort, may be idle, and has the
  same effects in every outcome.\<close>

locale rule_pass =
  fixes act :: "'m \<Rightarrow> 'r \<Rightarrow> ('e, 'm) io"
    and aborts :: "'r \<Rightarrow> bool"
    and idle :: "'r \<Rightarrow> bool"
    and effects :: "'r \<Rightarrow> 'e list"
  assumes act_abort: "aborts r \<Longrightarrow> act m r h = (bail ''Abort applied'', h)"
    and act_idle: "idle r \<Longrightarrow> act m r h = (Inr m, h)"
    and act_effects: "snd (act m r h) = h @ effects r"
begin

lemma pass_idle:
  "(\<And>r. r \<in> set rs \<Longrightarrow> idle r) \<Longrightarrow> io_foldl act m rs h = (Inr m, h)"
proof (induction rs)
  case Nil
  then show ?case by simp
next
  case (Cons r rs)
  from Cons.prems have "act m r h = (Inr m, h)" by (intro act_idle) simp
  with Cons show ?case by simp
qed

lemma pass_effects:
  "\<exists>done_rules. prefix done_rules rs \<and>
     snd (io_foldl act m rs h) = h @ concat (map effects done_rules) \<and>
     (\<forall>m'. fst (io_foldl act m rs h) = Inr m' \<longrightarrow> done_rules = rs)"
proof (induction rs arbitrary: m h)
  case Nil
  then show ?case by simp
next
  case (Cons r rs)
  obtain x h1 where a: "act m r h = (x, h1)" by (cases "act m r h")
  with act_effects[of m r h] have h1: "h1 = h @ effects r" by simp
  show ?case
  proof (cases x)
    case (Inl e)
    with a h1 show ?thesis by (intro exI[of _ "[r]"]) simp
  next
    case (Inr m1)
    from Cons[of m1 h1] obtain ds where "prefix ds rs" and
      "snd (io_foldl act m1 rs h1) = h1 @ concat (map effects ds)" and
      "\<forall>m'. fst (io_foldl act m1 rs h1) = Inr m' \<longrightarrow> ds = rs" by blast
    with a h1 Inr show ?thesis by (intro exI[of _ "r # ds"]) simp
  qed
qed

lemma pass_aborted:
  assumes "r \<in> set rs" and "aborts r"
  shows "\<exists>e. fst (io_foldl act m rs h) = Inl e"
proof -
  from assms(1) obtain xs ys where rs: "rs = xs @ r # ys" by (auto simp: in_set_conv_decomp)
  obtain x h1 where x: "io_foldl act m xs h = (x, h1)" by (cases "io_foldl act m xs h")
  show ?thesis
    by (cases x) (simp_all add: rs io_foldl_append x act_abort[OF assms(2)] bail_def)
qed

end

text \<open>A pass over the rules of one target: rules of another target do nothing.\<close>

locale targeted_pass = rule_pass act aborts idle effects
  for act :: "'m \<Rightarrow> 'r \<Rightarrow> ('e, 'm) io" and aborts idle effects +
  fixes selected :: "'m \<Rightarrow> 'r \<Rightarrow> bool"
    and targeted :: "'r \<Rightarrow> bool"
  assumes selected_targeted: "selected m r \<Longrightarrow> targeted r"
begin

lemma other_rules_ignored:
  "filter (selected m) (filter targeted rs) = filter (selected m) rs"
  by (induction rs) (auto dest: selected_targeted)

lemma pass_untouched:
  assumes "\<And>r. r \<in> set rs \<Longrightarrow> targeted r \<Longrightarrow> idle r"
  shows "io_foldl act m (filter (selected m') rs) h = (Inr m, h)"
  using assms by (intro pass_idle) (auto dest: selected_targeted)

end

interpretation request_pass: targeted_pass "request_step L" "\<lambda>r. act_abort (rule_actions r)"
    "\<lambda>r. idle_actions (rule_actions r)" "\<lambda>r. action_effects (rule_actions r)"
    "request_selected L svc" "\<lambda>r. role_ok svc \<and> rule_target r = Request"
  for L :: "('u, 'q, 'h, 'j) lib" and svc :: "('h, 'j, 'c) http_service"
  by unfold_locales
    (auto simp: request_step_def apply_abort apply_idle apply_request_effects request_selected_def)

interpretation response_pass: targeted_pass "response_step L" "\<lambda>r. act_abort (rule_actions r)"
    "\<lambda>r. idle_actions (rule_actions r)" "\<lambda>r. action_effects (rule_actions r)"
    "response_selected L svc u m hd" "\<lambda>r. role_ok svc \<and> rule_target r = Response"
  for L :: "('u, 'q, 'h, 'j) lib" and svc :: "('h, 'j, 'c) http_service"
    and u m hd
  by unfold_locales
    (auto simp: response_step_def apply_abort apply_idle apply_response_effects response_selected_def)


subsection \<open>The exchange\<close>

lemma forward_request_run:
  "forward_request L fw svc request h =
     (let tls = svc_tls_client_config svc \<noteq> None in
      (Inr (case fw h tls (svc_target svc) (remote svc) request of
              Inl _ \<Rightarrow> bad_gateway L | Inr resp \<Rightarrow> resp),
       h @ [Forward tls (svc_target svc) (remote svc) request]))"
  by (auto simp: forward_request_def io_bind_run io_try_run Let_def split: sum.splits)

definition inert :: "('h, 'j, 'c) http_service \<Rightarrow> bool" where
  "inert svc \<longleftrightarrow> \<not> role_ok svc \<or> list_all (\<lambda>r. idle_actions (rule_actions r)) (hc_rules (svc_config svc))"

lemma handle_inert:
  assumes "inert svc"
  shows "handle L fw svc request h =
    (case rebuild_uri L svc request of Inl e \<Rightarrow> (Inl e, h)
     | Inr u \<Rightarrow>
        let tls = svc_tls_client_config svc \<noteq> None; fwd = request\<lparr>req_uri := u\<rparr> in
        (Inr (case fw h tls (svc_target svc) (remote svc) fwd of
                Inl _ \<Rightarrow> bad_gateway L | Inr resp \<Rightarrow> resp),
         h @ [Forward tls (svc_target svc) (remote svc) fwd]))"
proof -
  have req: "io_foldl (request_step L) m (filter (request_selected L svc m') (hc_rules (svc_config svc))) h
      = (Inr m, h)" for m m' h
    using assms by (intro request_pass.pass_untouched) (auto simp: inert_def list_all_iff)
  have rsp: "io_foldl (response_step L) m
      (filter (response_selected L svc u me hd m') (hc_rules (svc_config svc))) h = (Inr m, h)" for m u me hd m' h
    using assms by (intro response_pass.pass_untouched) (auto simp: inert_def list_all_iff)
  show ?thesis
    by (cases "rebuild_uri L svc request")
      (simp_all add: handle_def Let_def io_bind_run req rsp forward_request_run split: sum.splits)
qed

text \<open>C1: a proxy with nothing to inject is a plain forwarder. When the role does not apply to
  the connection, or when no rule has an action, the only effect of handling a request is to
  forward it from the client's address to the target, unchanged but for its rebuilt URI, and
  the client receives the target's response as it is, or a bare 502 when forwarding fails.\<close>

theorem handle_transparent:
  assumes "inert svc"
  shows "handle L fw svc request h =
    (case rebuild_uri L svc request of Inl e \<Rightarrow> (Inl e, h)
     | Inr u \<Rightarrow>
        let tls = svc_tls_client_config svc \<noteq> None; fwd = request\<lparr>req_uri := u\<rparr> in
        (Inr (case fw h tls (svc_target svc) (remote svc) fwd of
                Inl _ \<Rightarrow> bad_gateway L | Inr resp \<Rightarrow> resp),
         h @ [Forward tls (svc_target svc) (remote svc) fwd]))"
  using assms by (rule handle_inert)

definition demo_service :: "((hname \<times> hvalue) list, bytes, nat) http_service" where
  "demo_service = \<lparr>remote = \<lparr>ip = V4 0x0A000005, port = 4000\<rparr>,
     svc_target = \<lparr>ip = V4 0x0A000001, port = 80\<rparr>,
     svc_config = \<lparr>hc_listen_port = 1025, hc_rules = [], hc_role = None\<rparr>,
     svc_tls_client_config = None\<rparr>"

definition demo_rebuilt :: "demo_paq uri_parts" where
  "demo_rebuilt = \<lparr>scheme = Some ''http'', authority = Some ''h'',
     path_and_query = Some (demo_split ''/a?k=v'')\<rparr>"

definition demo_forwarder :: "(demo_paq uri_parts, (hname \<times> hvalue) list) forwarder" where
  "demo_forwarder h tls dst src req = Inr demo_response"

lemma demo_rebuild: "rebuild_uri demo_lib demo_service demo_request = Inr demo_rebuilt"
  by (simp add: rebuild_uri_def demo_service_def demo_rebuilt_def demo_defs Let_def char_of_eq_iff)

theorem handle_transparent_witness:
  "handle demo_lib demo_forwarder demo_service demo_request [] =
     (Inr demo_response, [Forward False (svc_target demo_service) (remote demo_service)
        (demo_request\<lparr>req_uri := demo_rebuilt\<rparr>)])"
proof -
  have "inert demo_service" by (simp add: inert_def demo_service_def)
  from handle_transparent [OF this, of demo_lib demo_forwarder demo_request "[]"] show ?thesis
    by (simp add: demo_rebuild demo_forwarder_def Let_def) (simp add: demo_service_def)
qed

text \<open>What a whole exchange does to the history: the sleeps of request rules, at most one
  forwarded request, and after it the sleeps of response rules.\<close>

definition sleeps :: "('u, 'h) pevent list \<Rightarrow> bool" where
  "sleeps es = list_all (\<lambda>e. case e of Sleep _ \<Rightarrow> True | Forward _ _ _ _ \<Rightarrow> False) es"

lemma sleeps_simps [simp]:
  "sleeps []" "sleeps (Sleep d # es) = sleeps es" "\<not> sleeps (Forward t a b r # es)"
  "sleeps (xs @ ys) \<longleftrightarrow> sleeps xs \<and> sleeps ys"
  by (simp_all add: sleeps_def)

lemma sleeps_effects: "sleeps (concat (map (\<lambda>r. action_effects (rule_actions r)) rs))"
  by (induction rs) (auto simp: action_effects_def split: option.splits)

lemma request_pass_sleeps:
  "\<exists>s. sleeps s \<and> snd (io_foldl (request_step L) m rs h) = h @ s"
  using request_pass.pass_effects[where L = L and m = m and rs = rs and h = h] sleeps_effects by metis

lemma response_pass_sleeps:
  "\<exists>s. sleeps s \<and> snd (io_foldl (response_step L) m rs h) = h @ s"
  using response_pass.pass_effects[where L = L and m = m and rs = rs and h = h] sleeps_effects by metis

lemma handle_cases:
  "(\<exists>e s. handle L fw svc request h = (Inl e, h @ s) \<and> sleeps s \<and>
      ((\<exists>h'. io_foldl (request_step L) request
           (filter (request_selected L svc request) (hc_rules (svc_config svc))) h = (Inl e, h')) \<or>
       (\<exists>request' h'. io_foldl (request_step L) request
           (filter (request_selected L svc request) (hc_rules (svc_config svc))) h = (Inr request', h') \<and>
         rebuild_uri L svc request' = Inl e)))
   \<or> (\<exists>s request' u s'.
       io_foldl (request_step L) request
         (filter (request_selected L svc request) (hc_rules (svc_config svc))) h = (Inr request', h @ s) \<and>
       rebuild_uri L svc request' = Inr u \<and> sleeps s \<and> sleeps s' \<and>
       (let tls = svc_tls_client_config svc \<noteq> None; fwd = request'\<lparr>req_uri := u\<rparr>;
            h' = h @ s @ [Forward tls (svc_target svc) (remote svc) fwd];
            rsp = (case fw (h @ s) tls (svc_target svc) (remote svc) fwd of
                     Inl _ \<Rightarrow> bad_gateway L | Inr resp \<Rightarrow> resp)
        in handle L fw svc request h = io_foldl (response_step L) rsp
             (filter (response_selected L svc (req_uri request') (req_method request')
                (req_headers request') rsp) (hc_rules (svc_config svc))) h' \<and>
           snd (handle L fw svc request h) = h' @ s'))"
proof -
  let ?rules = "filter (request_selected L svc request) (hc_rules (svc_config svc))"
  obtain x h1 where x: "io_foldl (request_step L) request ?rules h = (x, h1)"
    by (cases "io_foldl (request_step L) request ?rules h")
  from request_pass_sleeps[of L request ?rules h] x obtain s where s: "sleeps s" "h1 = h @ s" by auto
  show ?thesis
  proof (cases x)
    case (Inl e)
    then have "handle L fw svc request h = (Inl e, h @ s)" using x s by (simp add: handle_def Let_def)
    with x Inl s show ?thesis by blast
  next
    case (Inr request')
    show ?thesis
    proof (cases "rebuild_uri L svc request'")
      case (Inl e)
      with x Inr s have "handle L fw svc request h = (Inl e, h @ s)"
        by (simp add: handle_def Let_def io_bind_run)
      with x Inr Inl s show ?thesis by blast
    next
      case u: (Inr u)
      let ?tls = "svc_tls_client_config svc \<noteq> None" and ?fwd = "request'\<lparr>req_uri := u\<rparr>"
      let ?h' = "h @ s @ [Forward ?tls (svc_target svc) (remote svc) ?fwd]"
      let ?rsp = "case fw (h @ s) ?tls (svc_target svc) (remote svc) ?fwd of
          Inl _ \<Rightarrow> bad_gateway L | Inr resp \<Rightarrow> resp"
      let ?rr = "filter (response_selected L svc (req_uri request') (req_method request')
                (req_headers request') ?rsp) (hc_rules (svc_config svc))"
      have eq: "handle L fw svc request h = io_foldl (response_step L) ?rsp ?rr ?h'"
        using x Inr s u by (simp add: handle_def Let_def io_bind_run forward_request_run)
      from response_pass_sleeps[of L ?rsp ?rr ?h'] obtain s' where
        "sleeps s'" "snd (io_foldl (response_step L) ?rsp ?rr ?h') = ?h' @ s'" by blast
      with eq x Inr s u show ?thesis unfolding Let_def by metis
    qed
  qed
qed


lemma abort_blocks:
  assumes "r \<in> set (hc_rules (svc_config svc))" and "request_selected L svc request r"
    and "act_abort (rule_actions r)"
  shows "\<exists>e s. handle L fw svc request h = (Inl e, h @ s) \<and> sleeps s"
proof -
  have "\<exists>e. fst (io_foldl (request_step L) request
      (filter (request_selected L svc request) (hc_rules (svc_config svc))) h) = Inl e"
    using assms by (intro request_pass.pass_aborted[where L = L and r = r]) simp_all
  with handle_cases[of L fw svc request h] show ?thesis by fastforce
qed

text \<open>C2: an abort keeps the request from the target. When an aborting request rule is
  selected, whatever the other rules do, handling the request ends in an error and nothing is
  forwarded: the only effects are delays.\<close>

theorem handle_abort_blocks:
  assumes "r \<in> set (hc_rules (svc_config svc))" and "request_selected L svc request r"
    and "act_abort (rule_actions r)"
  shows "\<exists>e s. handle L fw svc request h = (Inl e, h @ s) \<and> sleeps s"
  using assms by (rule abort_blocks)

definition abort_rule :: "((hname \<times> hvalue) list, bytes) rule" where
  "abort_rule = \<lparr>rule_target = Request, rule_selector = path_get_selector,
     rule_actions = \<lparr>act_abort = True, act_delay = None, act_replace = None, act_patch = None\<rparr>\<rparr>"

definition abort_service :: "((hname \<times> hvalue) list, bytes, nat) http_service" where
  "abort_service = demo_service\<lparr>svc_config := \<lparr>hc_listen_port = 1025, hc_rules = [abort_rule],
     hc_role = Some (Client [0x0A000005])\<rparr>\<rparr>"

lemma abort_rule_selected: "request_selected demo_lib abort_service demo_request abort_rule"
  by (simp add: request_selected_def abort_service_def abort_rule_def demo_service_def role_ok_def
      select_role_def select_request_def path_get_selector_def path_selector_def any_selector_def
      demo_defs Let_def)

theorem handle_abort_blocks_witness:
  "\<exists>e s. handle demo_lib demo_forwarder abort_service demo_request [] = (Inl e, [] @ s) \<and> sleeps s"
  by (rule handle_abort_blocks [OF _ abort_rule_selected])
    (simp_all add: abort_service_def abort_rule_def)

text \<open>In every outcome the effects of handling a request are delays, then at most one forwarding
  over TLS exactly when the proxy terminates TLS, then delays; without the forwarding there is
  no response and no further delay.\<close>

lemma handle_effects:
  "\<exists>s fwd s'. snd (handle L fw svc request h) = h @ s @ fwd @ s' \<and> sleeps s \<and> sleeps s' \<and>
     ((fwd = [] \<and> s' = [] \<and> (\<exists>e. fst (handle L fw svc request h) = Inl e)) \<or>
      (\<exists>req'. fwd = [Forward (svc_tls_client_config svc \<noteq> None) (svc_target svc) (remote svc) req']))"
proof (rule disjE[OF handle_cases[of L fw svc request h]], goal_cases)
  case 1
  then show ?case by (metis append_Nil2 fst_conv snd_conv sleeps_simps(1))
next
  case 2
  then obtain s request' u s' where "sleeps s" and "sleeps s'"
    and "snd (handle L fw svc request h) = (h @ s @ [Forward (svc_tls_client_config svc \<noteq> None)
       (svc_target svc) (remote svc) (request'\<lparr>req_uri := u\<rparr>)]) @ s'"
    unfolding Let_def by metis
  then show ?case by (intro exI[of _ s] exI[of _ "[Forward (svc_tls_client_config svc \<noteq> None)
       (svc_target svc) (remote svc) (request'\<lparr>req_uri := u\<rparr>)]"] exI[of _ s']) simp
qed

subsection \<open>The delays of an exchange\<close>

text \<open>The delays of rules, in order.\<close>

definition rule_delays :: "('h, 'j) rule list \<Rightarrow> ('u, 'h) pevent list" where
  "rule_delays rs = concat (map (\<lambda>r. action_effects (rule_actions r)) rs)"

lemma request_pass_Inr:
  assumes "io_foldl (request_step L) m rs h = (Inr m', h')"
  shows "h' = h @ rule_delays rs \<and> (\<forall>r \<in> set rs. \<not> act_abort (rule_actions r))"
proof -
  have "\<not> act_abort (rule_actions r)" if "r \<in> set rs" for r
    using request_pass.pass_aborted[OF that, of L m h] assms by fastforce
  with request_pass.pass_effects[where L = L and m = m and rs = rs and h = h] assms show ?thesis
    by (auto simp: rule_delays_def)
qed

lemma response_pass_Inr:
  assumes "io_foldl (response_step L) m rs h = (Inr m', h')"
  shows "h' = h @ rule_delays rs \<and> (\<forall>r \<in> set rs. \<not> act_abort (rule_actions r))"
proof -
  have "\<not> act_abort (rule_actions r)" if "r \<in> set rs" for r
    using response_pass.pass_aborted[OF that, of L m h] assms by fastforce
  with response_pass.pass_effects[where L = L and m = m and rs = rs and h = h] assms show ?thesis
    by (auto simp: rule_delays_def)
qed

text \<open>C17: exactly the delays of the selected rules happen. When handling a request gives a response,
  the request rules selecting the request made of it a request \<open>req\<close>, whose URI was rebuilt for the
  forwarding; the response rules were selected by the answer of the forwarder to that (or the 502
  in its place) and by the URI, method and headers \<open>req\<close> had before the rebuilding, and they made of
  the answer the response. The effects are the delays of the former rules, in their order, the
  forwarding, and the delays of the latter, in their order; and none of these rules aborts.\<close>

theorem handle_delays:
  assumes "handle L fw svc request h = (Inr rsp, h')"
  shows "\<exists>req u. let rules = hc_rules (svc_config svc); tls = svc_tls_client_config svc \<noteq> None;
       before = filter (request_selected L svc request) rules;
       fwd = req\<lparr>req_uri := u\<rparr>;
       forwarded = h @ rule_delays before @ [Forward tls (svc_target svc) (remote svc) fwd];
       answer = (case fw (h @ rule_delays before) tls (svc_target svc) (remote svc) fwd of
                   Inl _ \<Rightarrow> bad_gateway L | Inr resp \<Rightarrow> resp);
       after = filter (response_selected L svc (req_uri req) (req_method req) (req_headers req) answer) rules
     in io_foldl (request_step L) request before h = (Inr req, h @ rule_delays before) \<and>
        rebuild_uri L svc req = Inr u \<and>
        io_foldl (response_step L) answer after forwarded = (Inr rsp, h') \<and>
        h' = forwarded @ rule_delays after \<and>
        (\<forall>r \<in> set (before @ after). \<not> act_abort (rule_actions r))"
proof (rule disjE[OF handle_cases[of L fw svc request h]], goal_cases)
  case 1
  with assms show ?case by auto
next
  case 2
  let ?rules = "hc_rules (svc_config svc)" and ?tls = "svc_tls_client_config svc \<noteq> None"
  let ?before = "filter (request_selected L svc request) ?rules"
  from 2 obtain s req u where pre: "io_foldl (request_step L) request ?before h = (Inr req, h @ s)"
    and u: "rebuild_uri L svc req = Inr u"
    and post: "let tls = ?tls; fwd = req\<lparr>req_uri := u\<rparr>;
            h' = h @ s @ [Forward tls (svc_target svc) (remote svc) fwd];
            rsp = (case fw (h @ s) tls (svc_target svc) (remote svc) fwd of
                     Inl _ \<Rightarrow> bad_gateway L | Inr resp \<Rightarrow> resp)
        in handle L fw svc request h = io_foldl (response_step L) rsp
             (filter (response_selected L svc (req_uri req) (req_method req)
                (req_headers req) rsp) ?rules) h'"
    unfolding Let_def by metis
  from request_pass_Inr[OF pre] have s: "s = rule_delays ?before" "\<forall>r \<in> set ?before. \<not> act_abort (rule_actions r)"
    by simp_all
  from post[unfolded Let_def assms s(1), symmetric] pre u s(2) response_pass_Inr[OF post[unfolded Let_def assms s(1), symmetric]]
  show ?case unfolding Let_def s(1) by (intro exI[of _ req] exI[of _ u]) (simp add: ball_Un)
qed

definition delay_rule :: "((hname \<times> hvalue) list, bytes) rule" where
  "delay_rule = abort_rule\<lparr>rule_actions := \<lparr>act_abort = False, act_delay = Some 5, act_replace = None, act_patch = None\<rparr>\<rparr>"

definition delay_service :: "((hname \<times> hvalue) list, bytes, nat) http_service" where
  "delay_service = demo_service\<lparr>svc_config := \<lparr>hc_listen_port = 1025, hc_rules = [delay_rule], hc_role = None\<rparr>\<rparr>"

theorem handle_delays_witness:
  "\<exists>h'. handle demo_lib demo_forwarder delay_service demo_request [] = (Inr demo_response, h') \<and>
     hd h' = Sleep 5"
proof -
  have sel: "request_selected demo_lib delay_service demo_request delay_rule"
    using abort_rule_selected by (simp add: request_selected_def delay_service_def abort_service_def
        delay_rule_def role_ok_def demo_service_def)
  have rsp: "\<not> response_selected demo_lib delay_service u m hd r delay_rule" for u m hd r
    by (simp add: response_selected_def delay_rule_def abort_rule_def)
  have uri: "rebuild_uri demo_lib delay_service demo_request = Inr demo_rebuilt"
    by (simp add: rebuild_uri_def delay_service_def demo_service_def demo_rebuilt_def demo_defs Let_def
        char_of_eq_iff)
  have step: "request_step demo_lib demo_request delay_rule [] = (Inr demo_request, [Sleep 5])"
    by (simp add: request_step_def delay_rule_def apply_request_action_def io_bind_run)
  have rules: "hc_rules (svc_config delay_service) = [delay_rule]" by (simp add: delay_service_def)
  obtain h' where run: "handle demo_lib demo_forwarder delay_service demo_request [] = (Inr demo_response, h')"
    using sel rsp uri step rules by (simp add: handle_def io_bind_run forward_request_run Let_def demo_forwarder_def)
  have delays: "rule_delays [delay_rule] = [Sleep 5]"
    by (simp add: rule_delays_def action_effects_def delay_rule_def)
  from handle_delays [OF run] run show ?thesis
    by (auto simp: Let_def rules sel delays)
qed

subsection \<open>The rebuilt URI\<close>

text \<open>Where the authority of the forwarded request comes from.\<close>

definition authority_source ::
  "('u, 'q, 'h, 'j) lib \<Rightarrow> ('h, 'j, 'c) http_service \<Rightarrow> ('u, 'h) request \<Rightarrow> error + string" where
  "authority_source L svc request =
     (case find (\<lambda>(n, _). n = HOST) (hm_iter L (req_headers request)) of
        Some (_, v) \<Rightarrow> authority_of_bytes L v
      | None \<Rightarrow> authority_parse L (socket_addr_to_string (svc_target svc)))"

text \<open>The forwarded request has an absolute URI. It has the scheme of the connection, the
  authority of the first \<open>Host\<close> header (without one, the address the client connected to), and
  the request's path and query, or the root path.\<close>

theorem rebuild_uri_parts:
  assumes "uri_laws L" and "authority_source L svc request = Inr a"
    and "rebuild_uri L svc request = Inr u"
  shows "\<exists>q. uri_into_parts L u = \<lparr>scheme = Some (if svc_tls_client_config svc \<noteq> None then ''https'' else ''http''),
       authority = Some a, path_and_query = Some q\<rparr> \<and>
     (case path_and_query (uri_into_parts L (req_uri request)) of
        Some q0 \<Rightarrow> q = q0 | None \<Rightarrow> paq_parse L ''/'' = Inr q)"
proof -
  let ?s = "Some (if svc_tls_client_config svc \<noteq> None then ''https'' else ''http'')"
  obtain s0 a0 q0 where parts: "uri_into_parts L (req_uri request)
      = \<lparr>scheme = s0, authority = a0, path_and_query = q0\<rparr>"
    by (cases "uri_into_parts L (req_uri request)")
  from assms(2,3) obtain q where
    q: "case q0 of Some q0 \<Rightarrow> q = q0 | None \<Rightarrow> paq_parse L ''/'' = Inr q" and
    u: "uri_from_parts L \<lparr>scheme = ?s, authority = Some a, path_and_query = Some q\<rparr> = Inr u"
    by (cases q0) (auto simp: rebuild_uri_def authority_source_def parts Let_def res_bind_Inr_iff
        split: option.splits sum.splits if_splits)
  from uri_laws_rebuild[OF assms(1), of "the ?s"] u q parts show ?thesis by auto
qed

theorem rebuild_uri_parts_witness:
  "\<exists>q. uri_into_parts demo_lib demo_rebuilt =
     \<lparr>scheme = Some ''http'', authority = Some ''h'', path_and_query = Some q\<rparr>"
proof -
  have "authority_source demo_lib demo_service demo_request = Inr ''h''"
    by (simp add: authority_source_def demo_defs char_of_eq_iff)
  from rebuild_uri_parts [OF demo_uri_laws this demo_rebuild] show ?thesis
    by (auto simp: demo_service_def)
qed

subsection \<open>No panics\<close>

lemma uri_edits_panic_free [panic_free_intros]:
  "panic_free (append_queries L u x)" "panic_free (replace_path L u y)"
  "panic_free (replace_queries L u z)"
  unfolding append_queries_def replace_path_def replace_queries_def Let_def
  by (intro panic_free_intros)+

lemma read_value_panic_free [panic_free_intros]: "panic_free (fst (read_value L b))"
  unfolding read_value_def Let_def fst_conv by (intro panic_free_intros)

lemma panic_free_case_json [panic_free_intros]:
  "(\<And>v. panic_free (f v)) \<Longrightarrow> panic_free (case c of JSON v \<Rightarrow> f v)"
  by (cases c) simp

lemma message_edits_panic_free [panic_free_intros]:
  "panic_free (replace_request L req ra)" "panic_free (patch_request L req pa)"
  "panic_free (patch_response L rsp pa)"
  unfolding replace_request_def patch_request_def patch_response_def Let_def case_prod_beta
  by (intro panic_free_intros)+

lemma steps_no_panic [no_panic_intros]:
  "no_panic (request_step L req rule)" "no_panic (response_step L rsp rule)"
  unfolding request_step_def response_step_def apply_defs
  by (intro no_panic_intros panic_free_intros)+

lemma rebuild_uri_panic_free:
  "paq_parse L ''/'' = Inr q \<Longrightarrow> panic_free (rebuild_uri L svc request)"
  unfolding rebuild_uri_def Let_def
  by (intro panic_free_intros) (auto intro!: panic_free_intros split: sum.splits prod.splits)

text \<open>C34: handling a request never panics. As long as the root path parses, the outcome of
  every exchange is a response or an error, for every rule set, every message and every
  behaviour of the target.\<close>

theorem handle_never_panics:
  assumes "paq_parse L ''/'' = Inr q"
  shows "fst (handle L fw svc request h) \<noteq> Inl (Panic m)"
proof -
  have "no_panic (handle L fw svc request)"
    unfolding handle_def forward_request_def Let_def
    by (intro no_panic_intros rebuild_uri_panic_free[OF assms])
  then show ?thesis by (metis no_panicD prod.collapse)
qed

theorem handle_never_panics_witness:
  "fst (handle demo_lib demo_forwarder abort_service demo_request []) \<noteq> Inl (Panic ''any'')"
  by (rule handle_never_panics [where q = "demo_split ''/''"]) (simp add: demo_lib_def)

end
