(* ===== verification/Tcp_Server.thy ===== *)
theory Tcp_Server
  imports Http_Service Retry
begin

text \<open>
  The connections of the sub proxy: transparent sockets, connector and listener
  (\<open>proxy/tcp/transparent_socket.rs\<close>, \<open>proxy/http/connector.rs\<close>, \<open>proxy/tcp/listener.rs\<close>),
  and the server of \<open>proxy/http/server.rs\<close>: its accept loop, the serving of HTTPS and HTTP
  connections, and the fall-back to a TCP tunnel. What the sockets and hyper answer are fields
  of the record \<open>tcp_world\<close>.
\<close>

subsection \<open>The network\<close>

text \<open>\<open>io::ErrorKind\<close>, as far as the code distinguishes kinds.\<close>

datatype io_kind = ConnectionRefused | ConnectionAborted | ConnectionReset | OtherKind

text \<open>The error of \<open>hyper\<close>: whether it is a parse error, and its text.\<close>

record hyper_error =
  he_is_parse :: bool
  he_text :: string

text \<open>\<open>hyper::server::conn::Parts\<close>: the stream given back, and what was read but not parsed.\<close>

record conn_parts =
  part_io :: nat
  part_read_buf :: bytes

datatype tevent =
  NewSocket
| SetTransparent
| SetReuseAddr
| BindSocket socket_addr
| ListenSocket nat
| ConnectSocket socket_addr
| AcceptStream
| SetNoDelay nat bool
| SpawnHttps nat socket_addr socket_addr
| SpawnHttp nat socket_addr socket_addr
| AcceptTls nat
| ServeConnection bool nat
| WriteAll bytes
| CopyBidirectional nat

record tcp_world =
  tw_new :: "tevent list \<Rightarrow> error + unit"
  tw_transparent :: "tevent list \<Rightarrow> error + unit"
  tw_reuse :: "tevent list \<Rightarrow> error + unit"
  tw_bind :: "tevent list \<Rightarrow> socket_addr \<Rightarrow> error + unit"
  tw_listen :: "tevent list \<Rightarrow> error + unit"
  tw_connect :: "tevent list \<Rightarrow> socket_addr \<Rightarrow> error + unit"
  tw_accept :: "tevent list \<Rightarrow> (io_kind \<times> error) + nat"
  tw_stop :: "tevent list \<Rightarrow> bool"
  tw_peer :: "tevent list \<Rightarrow> nat \<Rightarrow> error + socket_addr"
  tw_local :: "tevent list \<Rightarrow> nat \<Rightarrow> error + socket_addr"
  tw_tls :: "tevent list \<Rightarrow> nat \<Rightarrow> error + nat"
  tw_serve :: "tevent list \<Rightarrow> bool \<Rightarrow> nat \<Rightarrow> (hyper_error + unit) \<times> conn_parts option"
  tw_write :: "tevent list \<Rightarrow> bytes \<Rightarrow> error + unit"
  tw_copy :: "tevent list \<Rightarrow> nat \<Rightarrow> error + unit"

subsection \<open>Transparent sockets\<close>

definition set_socket :: "tcp_world \<Rightarrow> (tevent, unit) io" where
  "set_socket W =
     io_bind (io_call NewSocket (tw_new W)) (\<lambda>_.
     io_bind (io_call SetTransparent (tw_transparent W)) (\<lambda>_.
       io_call SetReuseAddr (tw_reuse W)))"

definition socket_bind :: "tcp_world \<Rightarrow> socket_addr \<Rightarrow> (tevent, unit) io" where
  "socket_bind W addr =
     io_bind (set_socket W) (\<lambda>_. io_call (BindSocket addr) (\<lambda>h. tw_bind W h addr))"

text \<open>A \<open>TransparentSocket\<close> is the address its sockets are bound to.\<close>

record transparent_socket =
  ts_addr :: socket_addr

definition transparent_socket_new :: "socket_addr \<Rightarrow> transparent_socket" where
  "transparent_socket_new addr = \<lparr>ts_addr = addr\<rparr>"

definition socket_conn :: "tcp_world \<Rightarrow> transparent_socket \<Rightarrow> socket_addr \<Rightarrow> (tevent, unit) io" where
  "socket_conn W socket dist =
     io_bind (set_socket W) (\<lambda>_.
     io_bind (io_call (BindSocket (ts_addr socket)) (\<lambda>h. tw_bind W h (ts_addr socket))) (\<lambda>_.
       io_call (ConnectSocket dist) (\<lambda>h. tw_connect W h dist)))"

text \<open>\<open>HttpConnector\<close>: whatever the URI, it connects the client's address to the target.\<close>

record http_connector =
  cn_target :: socket_addr
  cn_socket :: transparent_socket

definition http_connector_new :: "socket_addr \<Rightarrow> socket_addr \<Rightarrow> http_connector" where
  "http_connector_new dst src = \<lparr>cn_target = dst, cn_socket = transparent_socket_new src\<rparr>"

definition connector_connect :: "tcp_world \<Rightarrow> http_connector \<Rightarrow> 'u \<Rightarrow> (tevent, unit) io" where
  "connector_connect W c uri = socket_conn W (cn_socket c) (cn_target c)"

subsection \<open>Listening\<close>

text \<open>\<open>TcpListener\<close>: the listening socket belongs to the network, so what is left is the option
  its accepted connections get.\<close>

record tcp_listener =
  ln_nodelay :: bool

definition listener_bind :: "tcp_world \<Rightarrow> socket_addr \<Rightarrow> (tevent, tcp_listener) io" where
  "listener_bind W addr =
     io_bind (socket_bind W addr) (\<lambda>_.
     io_bind (io_call (ListenSocket 1024) (tw_listen W)) (\<lambda>_.
       io_ok \<lparr>ln_nodelay = True\<rparr>))"

definition listener_set_nodelay :: "tcp_listener \<Rightarrow> bool \<Rightarrow> tcp_listener" where
  "listener_set_nodelay listener enabled = listener\<lparr>ln_nodelay := enabled\<rparr>"

definition is_connection_error :: "io_kind \<Rightarrow> bool" where
  "is_connection_error e \<longleftrightarrow> e \<in> {ConnectionRefused, ConnectionAborted, ConnectionReset}"

text \<open>\<open>select!\<close> of \<open>listener.accept()\<close> and the stop channel. The accept loop skips connection
  errors, and each of its rounds may be interrupted by the channel (then \<open>None\<close> is the value).
  Not returning is the outer \<open>None\<close>.\<close>

partial_function (option) accept_until ::
  "tcp_world \<Rightarrow> tcp_listener \<Rightarrow> tevent list \<Rightarrow> ((error + nat option) \<times> tevent list) option" where
  "accept_until W ln h =
     (if tw_stop W h then Some (Inr None, h)
      else case tw_accept W h of
        Inr stream \<Rightarrow> Some (Inr (Some stream), h @ [AcceptStream, SetNoDelay stream (ln_nodelay ln)])
      | Inl ke \<Rightarrow>
          if is_connection_error (fst ke) then accept_until W ln (h @ [AcceptStream])
          else Some (Inl (snd ke), h @ [AcceptStream]))"

subsection \<open>The server\<close>

text \<open>Each accepted connection is given to a task of its own, with a service made from the
  addresses of the connection and the configuration; the event records the addresses.\<close>

definition connection_service ::
  "('h, 'j, 'c, 's) config \<Rightarrow> socket_addr \<Rightarrow> socket_addr \<Rightarrow> ('h, 'j, 'c) http_service" where
  "connection_service config addr_remote addr_local =
     (case tls_config_of config of
        Some tls \<Rightarrow> http_service_new addr_remote addr_local (http_config config)
                     (Some (tls_client_config tls))
      | None \<Rightarrow> http_service_new addr_remote addr_local (http_config config) None)"

lemma connection_service_fields [simp]:
  "remote (connection_service config addr_remote addr_local) = addr_remote"
  "svc_target (connection_service config addr_remote addr_local) = addr_local"
  "svc_config (connection_service config addr_remote addr_local) = http_config config"
  "svc_tls_client_config (connection_service config addr_remote addr_local)
    = map_option tls_client_config (tls_config_of config)"
  by (simp_all add: connection_service_def http_service_new_def split: option.splits)

partial_function (option) serve_loop ::
  "tcp_world \<Rightarrow> tcp_listener \<Rightarrow> bool \<Rightarrow> tevent list \<Rightarrow> (unit res \<times> tevent list) option" where
  "serve_loop W ln tls h =
     (case accept_until W ln h of
        None \<Rightarrow> None
      | Some r \<Rightarrow> (case fst r of
            Inl e \<Rightarrow> Some (Inl (Error e), snd r)
          | Inr found \<Rightarrow> (case found of
              None \<Rightarrow> Some (Inr (), snd r)
            | Some stream \<Rightarrow> (case tw_peer W (snd r) stream of
                Inl e \<Rightarrow> Some (Inl (Error e), snd r)
              | Inr addr_remote \<Rightarrow> (case tw_local W (snd r) stream of
                    Inl e \<Rightarrow> Some (Inl (Error e), snd r)
                  | Inr addr_local \<Rightarrow> serve_loop W ln tls
                      (snd r @ [if tls then SpawnHttps stream addr_remote addr_local
                                else SpawnHttp stream addr_remote addr_local]))))))"

text \<open>A loop as effectful code: when it never returns, the outcome is \<open>Diverge\<close>.\<close>

definition run_loop :: "('e list \<Rightarrow> ('a res \<times> 'e list) option) \<Rightarrow> ('e, 'a) io" where
  "run_loop m = (\<lambda>h. case m h of None \<Rightarrow> (Inl Diverge, h) | Some r \<Rightarrow> r)"

text \<open>\<open>HttpServer\<close>.\<close>

record ('h, 'j, 'c, 's) http_server =
  srv_config :: "('h, 'j, 'c, 's) config"

definition http_server_new :: "('h, 'j, 'c, 's) config \<Rightarrow> ('h, 'j, 'c, 's) http_server" where
  "http_server_new config = \<lparr>srv_config = config\<rparr>"

definition server_serve :: "tcp_world \<Rightarrow> ('h, 'j, 'c, 's) http_server \<Rightarrow> (tevent, unit) io" where
  "server_serve W server =
     (let config = srv_config server;
          addr = \<lparr>ip = V4 0, port = hc_listen_port (http_config config)\<rparr> in
      io_bind (listener_bind W addr)
        (\<lambda>listener. run_loop (serve_loop W listener (tls_config_of config \<noteq> None))))"

subsection \<open>HTTPS connections\<close>

text \<open>The text of a stream's two ends, for the log: both lookups can fail.\<close>

definition log_key :: "tcp_world \<Rightarrow> nat \<Rightarrow> tevent list \<Rightarrow> string res" where
  "log_key W stream h =
     res_bind (ext (tw_peer W h stream)) (\<lambda>peer.
     res_bind (ext (tw_local W h stream)) (\<lambda>loc.
       Inr (''{ peer='' @ socket_addr_to_string peer @ '',local='' @ socket_addr_to_string loc @ '' }'')))"

partial_function (option) https_loop ::
  "tcp_world \<Rightarrow> string \<Rightarrow> nat \<Rightarrow> tevent list \<Rightarrow> (unit res \<times> tevent list) option" where
  "https_loop W key tls_stream h =
     (let r = tw_serve W h False tls_stream; h' = h @ [ServeConnection False tls_stream] in
      case fst r of
        Inl e \<Rightarrow> Some (bail (key @ '': stream block with error: '' @ he_text e), h')
      | Inr _ \<Rightarrow> (case snd r of
            None \<Rightarrow> Some (Inr (), h')
          | Some part \<Rightarrow> https_loop W key (part_io part) h'))"

definition serve_https :: "tcp_world \<Rightarrow> nat \<Rightarrow> (tevent, unit) io" where
  "serve_https W stream =
     io_bind (\<lambda>h. (log_key W stream h, h)) (\<lambda>key.
     io_bind (io_call (AcceptTls stream) (\<lambda>h. tw_tls W h stream)) (\<lambda>tls_stream.
       run_loop (https_loop W key tls_stream)))"

subsection \<open>HTTP connections\<close>

text \<open>When the bytes do not parse as HTTP, the connection becomes a TCP tunnel: what was read is
  replayed to the address the client connected to, from the client's address.\<close>

definition tunnel :: "tcp_world \<Rightarrow> conn_parts \<Rightarrow> (tevent, unit) io" where
  "tunnel W part =
     io_bind (\<lambda>h. (ext (tw_local W h (part_io part)), h)) (\<lambda>addr_target.
     io_bind (\<lambda>h. (ext (tw_peer W h (part_io part)), h)) (\<lambda>addr_local.
     io_bind (socket_bind W addr_local) (\<lambda>_.
     io_bind (io_call (ConnectSocket addr_target) (\<lambda>h. tw_connect W h addr_target)) (\<lambda>_.
     io_bind (io_unwrap ''unwrap write_all'' (io_call (WriteAll (part_read_buf part))
         (\<lambda>h. tw_write W h (part_read_buf part)))) (\<lambda>_.
       io_call (CopyBidirectional (part_io part)) (\<lambda>h. tw_copy W h (part_io part)))))))"

partial_function (option) http_loop ::
  "tcp_world \<Rightarrow> nat \<Rightarrow> tevent list \<Rightarrow> (unit res \<times> tevent list) option" where
  "http_loop W stream h =
     (let r = tw_serve W h True stream; h' = h @ [ServeConnection True stream] in
      case fst r of
        Inr _ \<Rightarrow> (case snd r of
            None \<Rightarrow> Some (Inr (), h')
          | Some part \<Rightarrow> http_loop W (part_io part) h')
      | Inl e \<Rightarrow>
          if he_is_parse e then (case snd r of
              Some part \<Rightarrow> Some (tunnel W part h')
            | None \<Rightarrow> Some (Inr (), h'))
          else Some (Inr (), h'))"

definition serve_http_with_error_return :: "tcp_world \<Rightarrow> nat \<Rightarrow> (tevent, unit) io" where
  "serve_http_with_error_return W stream =
     io_bind (\<lambda>h. (log_key W stream h, h)) (\<lambda>key. run_loop (http_loop W stream))"

subsection \<open>The sockets are a runner\<close>

fun socket_answer :: "tcp_world \<Rightarrow> tevent \<Rightarrow> tevent list \<Rightarrow> error + unit" where
  "socket_answer W NewSocket h = tw_new W h"
| "socket_answer W SetTransparent h = tw_transparent W h"
| "socket_answer W SetReuseAddr h = tw_reuse W h"
| "socket_answer W (BindSocket a) h = tw_bind W h a"
| "socket_answer W (ConnectSocket a) h = tw_connect W h a"
| "socket_answer W (ListenSocket n) h = tw_listen W h"
| "socket_answer W (WriteAll b) h = tw_write W h b"
| "socket_answer W (CopyBidirectional s) h = tw_copy W h s"
| "socket_answer W _ h = Inr ()"

definition socket_call :: "tcp_world \<Rightarrow> tevent \<Rightarrow> (tevent, unit) io" where
  "socket_call W e = io_call e (socket_answer W e)"

interpretation sockets: command_runner "socket_call W" "\<lambda>e. [e]" for W
  by unfold_locales (auto simp: socket_call_def ext_def intro!: no_panic_intros split: sum.splits)

text \<open>To run the code of the sockets on concrete answers.\<close>

lemmas socket_code = listener_bind_def socket_bind_def set_socket_def io_bind_run

lemma io_bind_assoc: "io_bind (io_bind m f) g = io_bind m (\<lambda>a. io_bind (f a) g)"
  by (auto simp: io_bind_def fun_eq_iff split: prod.splits sum.splits)

lemma io_bind_ok_right: "io_bind m io_ok = m"
  by (auto simp: io_bind_def fun_eq_iff io_ok_def split: prod.splits sum.splits)

lemma socket_answers:
  "socket_answer W NewSocket = tw_new W" "socket_answer W SetTransparent = tw_transparent W"
  "socket_answer W SetReuseAddr = tw_reuse W" "socket_answer W (BindSocket a) = (\<lambda>h. tw_bind W h a)"
  "socket_answer W (ConnectSocket a) = (\<lambda>h. tw_connect W h a)"
  "socket_answer W (ListenSocket n) = tw_listen W"
  by (simp_all add: fun_eq_iff)

lemma socket_conn_script:
  "socket_conn W (transparent_socket_new src) dst = io_foldl (\<lambda>_. socket_call W) ()
     [NewSocket, SetTransparent, SetReuseAddr, BindSocket src, ConnectSocket dst]"
  by (simp add: socket_conn_def transparent_socket_new_def set_socket_def socket_call_def io_bind_assoc io_bind_ok_right
      socket_answers
      del: io_call_run)

lemma socket_bind_script:
  "socket_bind W addr = io_foldl (\<lambda>_. socket_call W) ()
     [NewSocket, SetTransparent, SetReuseAddr, BindSocket addr]"
  by (simp add: socket_bind_def set_socket_def socket_call_def io_bind_assoc io_bind_ok_right
      socket_answers
      del: io_call_run)

text \<open>The steps of listening at a port of every address.\<close>

definition listen_steps :: "u16 \<Rightarrow> tevent list" where
  "listen_steps p = [NewSocket, SetTransparent, SetReuseAddr, BindSocket \<lparr>ip = V4 0, port = p\<rparr>, ListenSocket 1024]"

lemma listener_bind_script:
  "listener_bind W \<lparr>ip = V4 0, port = p\<rparr> = io_bind (io_foldl (\<lambda>_. socket_call W) () (listen_steps p))
     (\<lambda>_. io_ok \<lparr>ln_nodelay = True\<rparr>)"
  by (simp add: listen_steps_def listener_bind_def socket_bind_def set_socket_def socket_call_def io_bind_assoc
      io_bind_ok_right socket_answers
      del: io_call_run)

lemma single_events: "concat (map (\<lambda>e. [e]) xs) = xs"
  by (induction xs) simp_all

text \<open>Outgoing connections are transparent. The connector makes a socket, marks it transparent
  and reusable, binds it to the client's address and connects it to the target, in this order;
  it stops at the first step that fails, with the error of that step.\<close>

theorem connector_connect_steps:
  "\<exists>steps. prefix steps [NewSocket, SetTransparent, SetReuseAddr, BindSocket src, ConnectSocket dst] \<and>
     snd (connector_connect W (http_connector_new dst src) u h) = h @ steps \<and>
     (case fst (connector_connect W (http_connector_new dst src) u h) of
        Inr _ \<Rightarrow> steps = [NewSocket, SetTransparent, SetReuseAddr, BindSocket src, ConnectSocket dst]
      | Inl e \<Rightarrow> \<exists>xs c. steps = xs @ [c] \<and> fst (socket_call W c (h @ xs)) = Inl e)"
proof -
  from sockets.all_stops_at_failure[where W = W and h = h
      and cs = "[NewSocket, SetTransparent, SetReuseAddr, BindSocket src, ConnectSocket dst]"]
  show ?thesis
    unfolding connector_connect_def http_connector_new_def http_connector.simps socket_conn_script single_events .
qed

subsection \<open>Accepting\<close>

text \<open>A round of the accept loop that is repeated: not stopped, and a connection error.\<close>

definition skipped :: "tcp_world \<Rightarrow> tevent list \<Rightarrow> bool" where
  "skipped W h \<longleftrightarrow> \<not> tw_stop W h \<and>
     (case tw_accept W h of Inl ke \<Rightarrow> is_connection_error (fst ke) | Inr _ \<Rightarrow> False)"

definition accept_outcome :: "tcp_world \<Rightarrow> tcp_listener \<Rightarrow> tevent list \<Rightarrow> (error + nat option) \<times> tevent list" where
  "accept_outcome W ln h = (if tw_stop W h then (Inr None, h)
     else case tw_accept W h of
        Inr stream \<Rightarrow> (Inr (Some stream), h @ [AcceptStream, SetNoDelay stream (ln_nodelay ln)])
      | Inl ke \<Rightarrow> (Inl (snd ke), h @ [AcceptStream]))"

lemma accept_until_step:
  "accept_until W ln h = (if skipped W h then accept_until W ln (h @ [AcceptStream])
     else Some (accept_outcome W ln h))"
  by (subst accept_until.simps) (auto simp: skipped_def accept_outcome_def split: sum.splits)

lemma accept_until_ends:
  assumes "accept_until W ln h = Some r"
  shows "\<exists>k. \<not> skipped W (h @ replicate k AcceptStream)"
proof (rule accept_until.raw_induct [where P = "\<lambda>W ln h r. \<exists>k. \<not> skipped W (h @ replicate k AcceptStream)",
      OF _ assms])
  fix f W ln h r
  assume IH: "\<And>W ln h r. f W ln h = Some r \<Longrightarrow> \<exists>k. \<not> skipped W (h @ replicate k AcceptStream)"
    and eq: "(if tw_stop W h then Some (Inr None, h)
      else case tw_accept W h of
        Inr stream \<Rightarrow> Some (Inr (Some stream), h @ [AcceptStream, SetNoDelay stream (ln_nodelay ln)])
      | Inl ke \<Rightarrow>
          if is_connection_error (fst ke) then f W ln (h @ [AcceptStream])
          else Some (Inl (snd ke), h @ [AcceptStream])) = Some r"
  show "\<exists>k. \<not> skipped W (h @ replicate k AcceptStream)"
  proof (cases "skipped W h")
    case True
    with eq have "f W ln (h @ [AcceptStream]) = Some r" by (auto simp: skipped_def split: sum.splits)
    from IH[OF this] obtain k where "\<not> skipped W (h @ replicate (Suc k) AcceptStream)" by auto
    then show ?thesis ..
  next
    case False
    then show ?thesis by (intro exI[of _ 0]) simp
  qed
qed

interpretation accepting: retry_loop "accept_until W ln" "skipped W" AcceptStream "accept_outcome W ln" for W ln
  by unfold_locales (rule accept_until_step, rule accept_until_ends)

text \<open>Accepting skips exactly the connection errors. The result is the first round that is
  stopped, gives a stream or fails in another way; all rounds before it were connection errors.
  Accepting never returns exactly when every round is one.\<close>

theorem accept_until_spec:
  "(\<exists>k. {..<k} \<subseteq> {j. skipped W (h @ replicate j AcceptStream)} \<and>
      \<not> skipped W (h @ replicate k AcceptStream) \<and>
      accept_until W ln h = Some (accept_outcome W ln (h @ replicate k AcceptStream))) \<or>
   ((\<forall>k. skipped W (h @ replicate k AcceptStream)) \<and> accept_until W ln h = None)"
  using accepting.loop_cases[where W = W and ln = ln and h = h] by (auto simp: subset_iff)

text \<open>Each stream accepted gets the option its listener was last told to set; a bound listener
  asks for it.\<close>

lemma accepted_nodelay:
  assumes "accept_until W (listener_set_nodelay listener enabled) h = Some (Inr (Some s), h')"
  shows "\<exists>g. h' = g @ [SetNoDelay s enabled]"
proof -
  from accepting.loop_cases[where W = W and ln = "listener_set_nodelay listener enabled" and h = h] assms
  obtain k where "(Inr (Some s), h') = accept_outcome W (listener_set_nodelay listener enabled)
      (h @ replicate k AcceptStream)" by auto
  then show ?thesis by (auto simp: accept_outcome_def listener_set_nodelay_def split: if_splits sum.splits)
qed

lemma bound_listener_nodelay:
  "listener_bind W addr h = (Inr listener, h') \<Longrightarrow> listener_set_nodelay listener True = listener"
  by (auto simp: listener_bind_def listener_set_nodelay_def elim!: io_bind_Inr)

subsection \<open>Serving\<close>

text \<open>The connections served so far: each was accepted, had its two addresses looked up, and was
  given to a task.\<close>

inductive served :: "tcp_world \<Rightarrow> tcp_listener \<Rightarrow> bool \<Rightarrow> tevent list \<Rightarrow> tevent list \<Rightarrow> bool" for W ln tls h where
  none_served: "served W ln tls h h"
| one_served: "served W ln tls h h1 \<Longrightarrow> accept_until W ln h1 = Some (Inr (Some s), h2) \<Longrightarrow>
    tw_peer W h2 s = Inr a \<Longrightarrow> tw_local W h2 s = Inr b \<Longrightarrow>
    served W ln tls h (h2 @ [if tls then SpawnHttps s a b else SpawnHttp s a b])"

lemma served_trans: "served W ln tls h1 h2 \<Longrightarrow> served W ln tls h0 h1 \<Longrightarrow> served W ln tls h0 h2"
proof (induction rule: served.induct)
  case (one_served h1' s h2 a b)
  then show ?case by (intro served.one_served)
qed

definition serve_ended :: "tcp_world \<Rightarrow> tcp_listener \<Rightarrow> tevent list \<Rightarrow> unit res \<Rightarrow> tevent list \<Rightarrow> bool" where
  "serve_ended W ln h1 r h' \<longleftrightarrow>
     (r = Inr () \<and> accept_until W ln h1 = Some (Inr None, h')) \<or>
     (\<exists>e. r = Inl (Error e) \<and> (accept_until W ln h1 = Some (Inl e, h') \<or>
        (\<exists>s. accept_until W ln h1 = Some (Inr (Some s), h') \<and>
           (tw_peer W h' s = Inl e \<or> tw_local W h' s = Inl e))))"

lemma serve_loop_served:
  assumes "serve_loop W ln tls h = Some r"
  shows "\<exists>h1. served W ln tls h h1 \<and> serve_ended W ln h1 (fst r) (snd r)"
proof (rule serve_loop.raw_induct [where P = "\<lambda>W ln tls h r. \<exists>h1. served W ln tls h h1 \<and>
      serve_ended W ln h1 (fst r) (snd r)", OF _ assms])
  fix f W ln tls h r
  assume IH: "\<And>W ln tls h r. f W ln tls h = Some r \<Longrightarrow> \<exists>h1. served W ln tls h h1 \<and> serve_ended W ln h1 (fst r) (snd r)"
    and eq: "(case accept_until W ln h of
        None \<Rightarrow> None
      | Some r \<Rightarrow> (case fst r of
            Inl e \<Rightarrow> Some (Inl (Error e), snd r)
          | Inr found \<Rightarrow> (case found of
              None \<Rightarrow> Some (Inr (), snd r)
            | Some stream \<Rightarrow> (case tw_peer W (snd r) stream of
                Inl e \<Rightarrow> Some (Inl (Error e), snd r)
              | Inr addr_remote \<Rightarrow> (case tw_local W (snd r) stream of
                    Inl e \<Rightarrow> Some (Inl (Error e), snd r)
                  | Inr addr_local \<Rightarrow> f W ln tls
                      (snd r @ [if tls then SpawnHttps stream addr_remote addr_local
                                else SpawnHttp stream addr_remote addr_local])))))) = Some r"
  obtain a h2 where acc: "accept_until W ln h = Some (a, h2)"
    using eq by (cases "accept_until W ln h") auto
  show "\<exists>h1. served W ln tls h h1 \<and> serve_ended W ln h1 (fst r) (snd r)"
  proof (cases "\<exists>s p l. a = Inr (Some s) \<and> tw_peer W h2 s = Inr p \<and> tw_local W h2 s = Inr l")
    case True
    then obtain s p l where s: "a = Inr (Some s)" "tw_peer W h2 s = Inr p" "tw_local W h2 s = Inr l"
      by blast
    let ?h3 = "h2 @ [if tls then SpawnHttps s p l else SpawnHttp s p l]"
    from eq acc s have "f W ln tls ?h3 = Some r" by simp
    from IH[OF this] obtain h1 where "served W ln tls ?h3 h1" "serve_ended W ln h1 (fst r) (snd r)" by blast
    moreover have "served W ln tls h ?h3"
      using served.none_served acc[unfolded s(1)] s(2,3) by (rule served.one_served)
    ultimately show ?thesis using served_trans by blast
  next
    case False
    with eq acc have "serve_ended W ln h (fst r) (snd r)"
      by (auto simp: serve_ended_def split: sum.splits option.splits)
    with served.none_served show ?thesis by blast
  qed
qed

text \<open>The streams accepted and the streams given to tasks, in order.\<close>

definition accepted_streams :: "tevent list \<Rightarrow> nat list" where
  "accepted_streams h = List.map_filter (\<lambda>e. case e of SetNoDelay s b \<Rightarrow> Some s | _ \<Rightarrow> None) h"

definition spawned_streams :: "bool \<Rightarrow> tevent list \<Rightarrow> nat list" where
  "spawned_streams tls h = List.map_filter (\<lambda>e. case e of
      SpawnHttps s a b \<Rightarrow> (if tls then Some s else None)
    | SpawnHttp s a b \<Rightarrow> (if tls then None else Some s) | _ \<Rightarrow> None) h"

lemma map_filter_append: "List.map_filter f (xs @ ys) = List.map_filter f xs @ List.map_filter f ys"
  by (simp add: map_filter_def)

lemma accept_streams:
  assumes "accept_until W ln h = Some (Inr (Some s), h2)"
  shows "accepted_streams h2 = accepted_streams h @ [s] \<and> spawned_streams tls h2 = spawned_streams tls h \<and>
     prefix h h2"
proof -
  from accepting.loop_cases[where W = W and ln = ln and h = h] assms obtain k where
    "(Inr (Some s), h2) = accept_outcome W ln (h @ replicate k AcceptStream)" by auto
  then have h2: "h2 = h @ replicate k AcceptStream @ [AcceptStream, SetNoDelay s (ln_nodelay ln)]"
    by (auto simp: accept_outcome_def split: if_splits sum.splits)
  have "List.map_filter f (replicate k AcceptStream) = []" if "f AcceptStream = None" for f :: "tevent \<Rightarrow> nat option"
    using that by (induction k) (simp_all add: map_filter_simps)
  then show ?thesis
    by (simp add: h2 accepted_streams_def spawned_streams_def map_filter_append map_filter_simps)
qed


lemma serve_loop_outcome:
  assumes "serve_loop W ln tls h = Some (r, h')"
  shows "\<exists>h1 new. serve_ended W ln h1 r h' \<and> prefix h h1 \<and>
     accepted_streams h1 = accepted_streams h @ new \<and>
     spawned_streams tls h1 = spawned_streams tls h @ new"
proof -
  from serve_loop_served[OF assms] obtain h1 where s: "served W ln tls h h1" "serve_ended W ln h1 r h'" by auto
  from s(1) have "\<exists>new. prefix h h1 \<and> accepted_streams h1 = accepted_streams h @ new \<and>
     spawned_streams tls h1 = spawned_streams tls h @ new"
  proof (induction rule: served.induct)
    case (one_served h1 s h2 a b)
    from accept_streams[OF one_served.hyps(2), of tls] one_served.IH show ?case
      by (auto simp: accepted_streams_def spawned_streams_def map_filter_append map_filter_simps prefix_def)
  qed simp
  with s(2) show ?thesis by blast
qed

text \<open>C32: what the server has done when it returns. Either its listener could not be set up, or it
  listened with a transparent socket at the configured port of every address, and returned because
  it was told to stop, or because of an error of the listener or of an address lookup. Every
  connection it accepted before was given to exactly one task, in order and of the kind the TLS
  configuration asks for, except the one whose addresses could not be looked up.\<close>

theorem server_outcome:
  assumes "server_serve W (http_server_new config) [] = (r, h')" and "r \<noteq> Inl Diverge"
  shows "(\<exists>e. r = Inl (Error e) \<and> prefix h' (listen_steps (hc_listen_port (http_config config)))) \<or>
     (\<exists>h1. prefix (listen_steps (hc_listen_port (http_config config))) h1 \<and> serve_ended W \<lparr>ln_nodelay = True\<rparr> h1 r h' \<and>
        accepted_streams h1 = spawned_streams (tls_config_of config \<noteq> None) h1)"
proof -
  let ?steps = "listen_steps (hc_listen_port (http_config config))"
  let ?tls = "tls_config_of config \<noteq> None"
  obtain x h0 where x: "io_foldl (\<lambda>_. socket_call W) () ?steps [] = (x, h0)" by fastforce
  from assms(1) x have run: "(case x of Inl f \<Rightarrow> (Inl f, h0) | Inr _ \<Rightarrow> run_loop (serve_loop W \<lparr>ln_nodelay = True\<rparr> ?tls) h0) = (r, h')"
    by (cases x) (auto simp: server_serve_def http_server_new_def Let_def listener_bind_script
        io_bind_def del: io_foldl.simps)
  from sockets.all_stops_at_failure[where W = W and h = "[]" and cs = ?steps, unfolded single_events append_Nil] obtain ds where
    ds: "prefix ds ?steps" "h0 = ds" and c: "case x of Inr _ \<Rightarrow> ds = ?steps
      | Inl e \<Rightarrow> \<exists>xs c. ds = xs @ [c] \<and> fst (socket_call W c xs) = Inl e"
    by (auto simp: x)
  show ?thesis
  proof (cases x)
    case (Inl f)
    with c obtain y c' where "fst (socket_call W c' y) = Inl f" by auto
    with sockets.run_value[of W c' y] have "\<exists>e. f = Error e" by auto
    with run Inl ds show ?thesis by auto
  next
    case (Inr u)
    with c ds have h0: "h0 = ?steps" by simp
    from run Inr assms(2) have loop: "serve_loop W \<lparr>ln_nodelay = True\<rparr> ?tls ?steps = Some (r, h')"
      by (auto simp: run_loop_def h0 split: option.splits)
    have "accepted_streams ?steps = []" "spawned_streams ?tls ?steps = []"
      by (simp_all add: listen_steps_def accepted_streams_def spawned_streams_def map_filter_simps)
    with serve_loop_outcome[OF loop] show ?thesis by auto
  qed
qed

text \<open>Whatever the server does, it begins with listening at the configured port.\<close>

lemma accept_until_prefix: "accept_until W ln h = Some (a, h') \<Longrightarrow> prefix h h'"
  using accepting.loop_cases[where W = W and ln = ln and h = h]
  by (auto simp: accept_outcome_def split: if_splits sum.splits)

lemma serve_ended_prefix: "serve_ended W ln h r h' \<Longrightarrow> prefix h h'"
  unfolding serve_ended_def using accept_until_prefix by blast

lemma server_listens:
  assumes "server_serve W (http_server_new config) [] = (r, g)"
  shows "prefix g (listen_steps (hc_listen_port (http_config config))) \<or>
     prefix (listen_steps (hc_listen_port (http_config config))) g"
proof -
  let ?steps = "listen_steps (hc_listen_port (http_config config))"
  let ?tls = "tls_config_of config \<noteq> None"
  obtain x h0 where x: "io_foldl (\<lambda>_. socket_call W) () ?steps [] = (x, h0)" by fastforce
  from assms x have run: "(case x of Inl f \<Rightarrow> (Inl f, h0) | Inr _ \<Rightarrow> run_loop (serve_loop W \<lparr>ln_nodelay = True\<rparr> ?tls) h0) = (r, g)"
    by (cases x) (auto simp: server_serve_def http_server_new_def Let_def listener_bind_script
        io_bind_def simp del: io_foldl.simps)
  from sockets.all_stops_at_failure[where W = W and h = "[]" and cs = ?steps, unfolded single_events append_Nil]
  have ds: "prefix h0 ?steps" "case x of Inr _ \<Rightarrow> h0 = ?steps | Inl e \<Rightarrow> True"
    by (auto simp: x split: sum.splits)
  show ?thesis
  proof (cases "serve_loop W \<lparr>ln_nodelay = True\<rparr> ?tls h0")
    case None
    with run ds(1) show ?thesis by (auto simp: run_loop_def split: sum.splits)
  next
    case (Some rg)
    from serve_loop_outcome[of W "\<lparr>ln_nodelay = True\<rparr>" ?tls h0 "fst rg" "snd rg"] Some
    have "prefix h0 (snd rg)" using serve_ended_prefix prefix_order.trans by fastforce
    with run ds Some show ?thesis by (auto simp: run_loop_def split: sum.splits)
  qed
qed

text \<open>A connection whose peer is gone stops the whole server. When looking up the peer of an
  accepted stream fails, serving ends with that error.\<close>

theorem disconnected_peer_ends_server:
  assumes "accept_until W ln h = Some (Inr (Some s), h1)" and "tw_peer W h1 s = Inl e"
  shows "serve_loop W ln tls h = Some (Inl (Error e), h1)"
  using assms by (subst serve_loop.simps) simp

subsection \<open>The tunnel\<close>

lemma socket_bind_Inr:
  "socket_bind W addr h = (Inr u, h') \<Longrightarrow>
    h' = h @ [NewSocket, SetTransparent, SetReuseAddr, BindSocket addr]"
  using sockets.all_stops_at_failure[where W = W and h = h
      and cs = "[NewSocket, SetTransparent, SetReuseAddr, BindSocket addr]"]
  unfolding socket_bind_script[symmetric] single_events by auto

text \<open>C31: bytes that are not HTTP pass through. When the bytes of a plain connection do not parse
  as HTTP and the tunnel works, they are written unchanged to the address the client connected
  to, over a transparent socket bound to the client's address, before anything else is copied.\<close>

theorem tunnel_replays:
  assumes "tw_serve W h True stream = (Inl e, Some part)" and "he_is_parse e"
    and "http_loop W stream h = Some (Inr (), h')"
  shows "\<exists>client original. tw_peer W (h @ [ServeConnection True stream]) (part_io part) = Inr client \<and>
     tw_local W (h @ [ServeConnection True stream]) (part_io part) = Inr original \<and>
     h' = h @ [ServeConnection True stream, NewSocket, SetTransparent, SetReuseAddr,
       BindSocket client, ConnectSocket original, WriteAll (part_read_buf part),
       CopyBidirectional (part_io part)]"
proof -
  let ?h = "h @ [ServeConnection True stream]"
  have "tunnel W part ?h = (Inr (), h')"
    using assms by (subst (asm) http_loop.simps) (simp add: Let_def)
  then obtain original g1 client g2 u h1 u2 h2 u3 h3 where
    loc: "(ext (tw_local W ?h (part_io part)), ?h) = (Inr original, g1)" and
    peer: "(ext (tw_peer W g1 (part_io part)), g1) = (Inr client, g2)" and
    bind: "socket_bind W client g2 = (Inr u, h1)" and
    conn: "io_call (ConnectSocket original) (\<lambda>h. tw_connect W h original) h1 = (Inr u2, h2)" and
    wr: "io_unwrap ''unwrap write_all'' (io_call (WriteAll (part_read_buf part))
         (\<lambda>h. tw_write W h (part_read_buf part))) h2 = (Inr u3, h3)" and
    cp: "io_call (CopyBidirectional (part_io part)) (\<lambda>h. tw_copy W h (part_io part)) h3 = (Inr (), h')"
    unfolding tunnel_def by (elim io_bind_Inr)
  have "h3 = h2 @ [WriteAll (part_read_buf part)]"
    using wr by (auto simp: io_unwrap_run split: sum.splits failure.splits)
  then show ?thesis
    using loc peer conn cp socket_bind_Inr[OF bind] by (intro exI[of _ client] exI[of _ original]) auto
qed


subsection \<open>A concrete network\<close>

definition demo_client :: socket_addr where
  "demo_client = \<lparr>ip = V4 0x0A000005, port = 4000\<rparr>"

definition demo_origin :: socket_addr where
  "demo_origin = \<lparr>ip = V4 0x0A000001, port = 80\<rparr>"

definition demo_listener :: tcp_listener where
  "demo_listener = \<lparr>ln_nodelay = True\<rparr>"

text \<open>One stream is accepted, then the stop signal arrives; its bytes are not HTTP.\<close>

definition demo_world :: tcp_world where
  "demo_world = \<lparr>tw_new = (\<lambda>h. Inr ()), tw_transparent = (\<lambda>h. Inr ()), tw_reuse = (\<lambda>h. Inr ()),
     tw_bind = (\<lambda>h a. Inr ()), tw_listen = (\<lambda>h. Inr ()), tw_connect = (\<lambda>h a. Inr ()),
     tw_accept = (\<lambda>h. if h = [] then Inl (ConnectionReset, External ''reset'') else Inr 7),
     tw_stop = (\<lambda>h. 3 \<le> length h),
     tw_peer = (\<lambda>h s. if s = 7 then Inr demo_client else Inl (External ''not connected'')),
     tw_local = (\<lambda>h s. Inr demo_origin), tw_tls = (\<lambda>h s. Inr s),
     tw_serve = (\<lambda>h b s. (Inl \<lparr>he_is_parse = True, he_text = ''invalid HTTP''\<rparr>,
        Some \<lparr>part_io = s, part_read_buf = [1, 2, 3]\<rparr>)),
     tw_write = (\<lambda>h b. Inr ()), tw_copy = (\<lambda>h s. Inr ())\<rparr>"

lemma demo_accept:
  "accept_until demo_world demo_listener [] = Some (Inr (Some 7), [AcceptStream, AcceptStream, SetNoDelay 7 True])"
  using accept_until_step[of demo_world demo_listener "[]"]
    accept_until_step[of demo_world demo_listener "[AcceptStream]"]
  by (simp add: demo_listener_def skipped_def accept_outcome_def is_connection_error_def demo_world_def)

lemma demo_serve:
  "serve_loop demo_world demo_listener True [] = Some (Inr (),
     [AcceptStream, AcceptStream, SetNoDelay 7 True, SpawnHttps 7 demo_client demo_origin])"
proof -
  let ?h = "[AcceptStream, AcceptStream, SetNoDelay 7 True, SpawnHttps 7 demo_client demo_origin]"
  have "accept_until demo_world demo_listener ?h = Some (Inr None, ?h)"
    using accept_until_step[of demo_world demo_listener ?h]
    by (simp add: skipped_def accept_outcome_def demo_world_def)
  then have "serve_loop demo_world demo_listener True ?h = Some (Inr (), ?h)" by (subst serve_loop.simps) simp
  with demo_accept show ?thesis
    by (subst serve_loop.simps) (simp add: demo_world_def)
qed

theorem server_outcome_witness:
  "\<exists>h' h1. server_serve (demo_world\<lparr>tw_stop := (\<lambda>h. 8 \<le> length h)\<rparr>) (http_server_new
       \<lparr>http_config = \<lparr>hc_listen_port = 1025, hc_rules = [], hc_role = None\<rparr>, tls_config_of = None\<rparr>) [] = (Inr (), h') \<and>
     SpawnHttp 7 demo_client demo_origin \<in> set h' \<and>
     prefix (listen_steps 1025) h1 \<and> accepted_streams h1 = spawned_streams False h1"
proof -
  let ?W = "demo_world\<lparr>tw_stop := (\<lambda>h. 8 \<le> length h)\<rparr>"
  let ?config = "\<lparr>http_config = \<lparr>hc_listen_port = 1025, hc_rules = [], hc_role = None\<rparr>, tls_config_of = None\<rparr>"
  let ?final = "listen_steps 1025 @ [AcceptStream, SetNoDelay 7 True, SpawnHttp 7 demo_client demo_origin]"
  have "accept_until ?W demo_listener (listen_steps 1025) = Some (Inr (Some 7), listen_steps 1025 @ [AcceptStream, SetNoDelay 7 True])"
    by (subst accept_until.simps) (simp add: demo_world_def demo_listener_def listen_steps_def)
  moreover have "accept_until ?W demo_listener ?final = Some (Inr None, ?final)"
    by (subst accept_until.simps) (simp add: listen_steps_def)
  then have "serve_loop ?W demo_listener False ?final = Some (Inr (), ?final)" by (subst serve_loop.simps) simp
  ultimately have "serve_loop ?W demo_listener False (listen_steps 1025) = Some (Inr (), ?final)"
    by (subst serve_loop.simps) (simp add: demo_world_def)
  moreover have "io_foldl (\<lambda>_. socket_call ?W) () (listen_steps 1025) [] = (Inr (), listen_steps 1025)"
    by (simp add: listen_steps_def socket_call_def demo_world_def)
  ultimately have run: "server_serve ?W (http_server_new ?config) [] = (Inr (), ?final)"
    by (simp add: server_serve_def http_server_new_def Let_def listener_bind_script
        io_bind_def run_loop_def demo_listener_def[symmetric] del: io_foldl.simps)
  from server_outcome [OF run] run show ?thesis by auto
qed

theorem disconnected_peer_ends_server_witness:
  "serve_loop (demo_world\<lparr>tw_accept := (\<lambda>h. Inr 9)\<rparr>) demo_listener False []
     = Some (Inl (Error (External ''not connected'')), [AcceptStream, SetNoDelay 9 True])"
  by (rule disconnected_peer_ends_server [where s = 9])
    (simp_all add: accept_until_step[of _ _ "[]"] demo_listener_def skipped_def accept_outcome_def demo_world_def)

theorem tunnel_replays_witness:
  "\<exists>h'. http_loop demo_world 7 [] = Some (Inr (), h') \<and> WriteAll [1, 2, 3] \<in> set h'"
proof -
  have "\<exists>h'. http_loop demo_world 7 [] = Some (Inr (), h')"
    by (subst http_loop.simps) (simp add: Let_def tunnel_def socket_bind_def set_socket_def io_bind_run
      io_unwrap_run demo_world_def)
  then obtain h' where run: "http_loop demo_world 7 [] = Some (Inr (), h')" by blast
  have "tw_serve demo_world [] True 7 = (Inl \<lparr>he_is_parse = True, he_text = ''invalid HTTP''\<rparr>,
        Some \<lparr>part_io = 7, part_read_buf = [1, 2, 3]\<rparr>)" by (simp add: demo_world_def)
  from tunnel_replays [OF this _ run] run show ?thesis by auto
qed

end
