(* ===== verification/Sub_Proxy.thy ===== *)
theory Sub_Proxy
  imports Config_Transfer Serde Tcp_Server
begin

text \<open>
  The program of the sub proxy: \<open>proxy_main\<close> of \<open>lib.rs\<close>. It reads its configuration from the
  controller's socket, starts the server in a task, waits for a signal, and stops the server.
\<close>

subsection \<open>The program\<close>

datatype 'cfg sevent = SpawnServer 'cfg | SubSignal signal_kind | WaitSignal | StopServer | JoinServer

text \<open>The server task unwraps the result of \<open>serve\<close>: unless it is \<open>Ok\<close>, the task has panicked and
  joining it is an error; a server that never returns is never joined.\<close>

definition join_server :: "unit res \<Rightarrow> unit res" where
  "join_server outcome = (case outcome of
       Inr _ \<Rightarrow> Inr ()
     | Inl Diverge \<Rightarrow> Inl Diverge
     | Inl _ \<Rightarrow> Inl (Error (External ''task panicked'')))"

definition proxy_main ::
  "('u, 'q, 'h, 'j) lib \<Rightarrow> ('a, 'c, 's) tls_lib \<Rightarrow> uds_world
    \<Rightarrow> (('h, 'j, 'c, 's) config sevent list \<Rightarrow> signal_kind \<Rightarrow> error + unit)
    \<Rightarrow> (('h, 'j, 'c, 's) config \<Rightarrow> unit res) \<Rightarrow> string
    \<Rightarrow> (('h, 'j, 'c, 's) config sevent, unit) io" where
  "proxy_main L T U answer server path =
     (let client = uds_client_new path in
     io_bind (io_lift (uds_read_into U client)) (\<lambda>raw_config.
     io_bind (io_lift (config_try_from L T raw_config)) (\<lambda>config.
     io_bind (io_emit (SpawnServer config)) (\<lambda>_.
     io_bind (signals_from_kinds SubSignal answer [Interrupt, Terminate]) (\<lambda>signals.
     io_bind (signals_wait WaitSignal signals) (\<lambda>_.
     io_bind (io_emit StopServer) (\<lambda>_.
     io_bind (io_emit JoinServer) (\<lambda>_. io_lift (join_server (server config))))))))))"

subsection \<open>From the controller to the server\<close>

text \<open>C26: the sub proxy serves the configuration the controller hands out. The server of the
  controller serialises the configuration for every connection, by the serde code of its type; when
  the socket delivers to the sub proxy the bytes that were written to one of the connections, the
  sub proxy reads exactly that configuration back and converts it: it fails with the conversion,
  and otherwise the first thing it does is to start the server with the result. Assumed are that
  delivery and the documented laws of \<open>serde_json\<close> and \<open>humantime\<close>; that the configuration itself
  survives is proved.\<close>

theorem config_reaches_sub_proxy:
  assumes "serde_laws D" and "rust_config cfg" and "uw_from_slice U = raw_config_from_slice D"
    and "(s, buf) \<in> set (fst (uds_listen (raw_config_to_vec D) (uds_server_new cfg path) outcomes))"
    and "uw_connect U path = Inr ()" and "uw_read_to_end U path = Inr buf"
  shows "case config_try_from L T cfg of
       Inl e \<Rightarrow> proxy_main L T U answer server path [] = (Inl e, [])
     | Inr config \<Rightarrow> \<exists>r t. proxy_main L T U answer server path [] = (r, SpawnServer config # t)"
proof -
  from uds_listen_serialised[OF assms(4)] have "raw_config_to_vec D cfg = Inr buf"
    by (simp add: uds_server_new_def)
  from raw_config_transfers[OF assms(1,2) this] assms have read: "uds_read_into U (uds_client_new path) = Inr cfg"
    by (simp add: uds_read_Inr_iff uds_client_new_def)
  show ?thesis
  proof (cases "config_try_from L T cfg")
    case (Inl e)
    with read show ?thesis by (simp add: proxy_main_def io_bind_run)
  next
    case (Inr config)
    have "\<exists>rest. proxy_main L T U answer server path = io_bind (io_emit (SpawnServer config)) (\<lambda>_. rest) \<and>
        within (\<lambda>_. True) UNIV rest"
    proof (rule exI, rule conjI)
      show "proxy_main L T U answer server path = io_bind (io_emit (SpawnServer config)) (\<lambda>_.
     io_bind (signals_from_kinds SubSignal answer [Interrupt, Terminate]) (\<lambda>signals.
     io_bind (signals_wait WaitSignal signals) (\<lambda>_.
     io_bind (io_emit StopServer) (\<lambda>_.
     io_bind (io_emit JoinServer) (\<lambda>_. io_lift (join_server (server config)))))))"
        using read Inr by (simp add: proxy_main_def io_bind_def fun_eq_iff)
      show "within (\<lambda>_. True) UNIV (io_bind (signals_from_kinds SubSignal answer [Interrupt, Terminate]) (\<lambda>signals.
     io_bind (signals_wait WaitSignal signals) (\<lambda>_.
     io_bind (io_emit StopServer) (\<lambda>_.
     io_bind (io_emit JoinServer) (\<lambda>_. io_lift (join_server (server config)))))))"
        unfolding signals_wait_def by (intro within_intros) simp_all
    qed
    then obtain rest where "proxy_main L T U answer server path [] = rest [SpawnServer config]"
      "within (\<lambda>_. True) UNIV rest" by auto
    then show ?thesis
      using Inr by (cases "rest [SpawnServer config]") (auto elim: withinE)
  qed
qed

text \<open>The life of the sub proxy. It ends well only after the server was started with the
  converted configuration, both signals were registered, one of them arrived, and the server was
  stopped and joined without an error; an error of the server is an error of the program.\<close>

theorem proxy_main_success:
  assumes "proxy_main L T U answer server path [] = (Inr u, h')"
  shows "\<exists>cfg config v. uds_read_into U (uds_client_new path) = Inr cfg \<and>
     config_try_from L T cfg = Inr config \<and> server config = Inr v \<and>
     h' = [SpawnServer config, SubSignal Interrupt, SubSignal Terminate, WaitSignal,
           StopServer, JoinServer]"
  using assms unfolding proxy_main_def Let_def
  by (auto elim!: io_bind_Inr simp: join_server_def signals_wait_def split: sum.splits failure.splits)

subsection \<open>A concrete transfer\<close>

definition demo_uds :: uds_world where
  "demo_uds = \<lparr>uw_connect = (\<lambda>p. Inr ()), uw_read_to_end = (\<lambda>p. Inr [1]),
     uw_from_slice = (\<lambda>b. Inr demo_cfg)\<rparr>"

lemma demo_sub_config:
  "config_try_from demo_lib demo_tls_lib demo_cfg
     = Inr \<lparr>http_config = \<lparr>hc_listen_port = 1025, hc_rules = [], hc_role = None\<rparr>, tls_config_of = None\<rparr>"
  by (simp add: config_try_from_def demo_cfg_def)

definition served_cfg :: proxy_raw_config where
  "served_cfg = full_cfg\<lparr>prc_rules := [], prc_tls := None\<rparr>"

lemma served_cfg_sent:
  "rust_config served_cfg"
  "\<exists>buf. raw_config_to_vec demo_serde served_cfg = Inr buf"
  using full_cfg_rust
  by (simp_all add: rust_config_def served_cfg_def raw_config_to_vec_def ser_config_def split: sum.splits)

theorem config_reaches_sub_proxy_witness:
  "\<exists>U r t. proxy_main demo_lib demo_tls_lib U (\<lambda>h k. Inr ()) (\<lambda>c. Inr ()) ''/tmp/s.sock'' []
     = (r, SpawnServer \<lparr>http_config = \<lparr>hc_listen_port = 1025, hc_rules = [],
          hc_role = Some (Server [0x0A000001, 0x0A000002])\<rparr>, tls_config_of = None\<rparr> # t)"
proof -
  obtain buf where buf: "raw_config_to_vec demo_serde served_cfg = Inr buf" using served_cfg_sent(2) by blast
  define U where "U = \<lparr>uw_connect = (\<lambda>p. Inr ()), uw_read_to_end = (\<lambda>p. Inr buf),
      uw_from_slice = raw_config_from_slice demo_serde\<rparr>"
  have "(7, buf) \<in> set (fst (uds_listen (raw_config_to_vec demo_serde)
      (uds_server_new served_cfg ''/tmp/s.sock'') [Inr 7]))"
    by (simp add: uds_server_new_def buf)
  moreover have "config_try_from demo_lib demo_tls_lib served_cfg = Inr \<lparr>http_config = \<lparr>hc_listen_port = 1025,
      hc_rules = [], hc_role = Some (Server [0x0A000001, 0x0A000002])\<rparr>, tls_config_of = None\<rparr>"
    by (simp add: config_try_from_def served_cfg_def full_cfg_def)
  ultimately show ?thesis
    using config_reaches_sub_proxy [OF demo_serde_laws served_cfg_sent(1), of U 7 buf "''/tmp/s.sock''" "[Inr 7]"
        demo_lib demo_tls_lib "\<lambda>h k. Inr ()" "\<lambda>c. Inr ()"]
    by (auto simp: U_def)
qed

theorem proxy_main_success_witness:
  "\<exists>config. proxy_main demo_lib demo_tls_lib demo_uds (\<lambda>h k. Inr ()) (\<lambda>c. Inr ()) ''/tmp/s.sock'' [] =
     (Inr (), [SpawnServer config, SubSignal Interrupt, SubSignal Terminate, WaitSignal,
           StopServer, JoinServer])"
proof -
  have run: "\<exists>h'. proxy_main demo_lib demo_tls_lib demo_uds (\<lambda>h k. Inr ()) (\<lambda>c. Inr ()) ''/tmp/s.sock'' [] = (Inr (), h')"
    by (simp add: proxy_main_def io_bind_run uds_read_into_def uds_client_new_def signals_wait_def
        join_server_def demo_uds_def demo_sub_config)
  then obtain h' where h': "proxy_main demo_lib demo_tls_lib demo_uds (\<lambda>h k. Inr ()) (\<lambda>c. Inr ()) ''/tmp/s.sock'' [] = (Inr (), h')"
    by blast
  from proxy_main_success [OF h'] h' show ?thesis by auto
qed

end
