(* ===== verification/Server_Tasks.thy ===== *)
theory Server_Tasks
  imports Tcp_Server
begin

text \<open>
  The tasks of \<open>proxy/http/server.rs\<close> in steps: the task of the server, and the task it spawns for
  each connection it accepts. A step is the code from one \<open>await\<close> to the next; the contract of a
  task says that its steps are those of the sequential code of \<open>Tcp_Server\<close>.
\<close>

subsection \<open>Code that runs in steps\<close>

text \<open>The contract of a task: its steps are those of sequential code. A state of the task has a rest
  of the code to run, a step runs a part of the rest, a finished state has only its outcome left,
  and code that returns is finished after some number of steps.\<close>

locale stepped_code =
  fixes step :: "'s \<times> 'e list \<Rightarrow> 's \<times> 'e list"
    and rest :: "'s \<Rightarrow> ('e, 'a) io"
    and result :: "'s \<Rightarrow> 'a res option"
  assumes step_runs_rest: "step (s, h) = (s', h') \<Longrightarrow> r \<noteq> Inl Diverge \<Longrightarrow>
      rest s' h' = (r, g) \<longleftrightarrow> rest s h = (r, g)"
    and result_is_rest: "result s = Some r \<Longrightarrow> rest s h = (r, h)"
    and result_stays: "result s = Some r \<Longrightarrow> step (s, h) = (s, h)"
    and rest_finishes: "rest s h = (r, h') \<Longrightarrow> r \<noteq> Inl Diverge \<Longrightarrow>
      \<exists>n s'. (step ^^ n) (s, h) = (s', h') \<and> result s' = Some r"
begin

lemma steps_run_rest:
  "(step ^^ n) (s, h) = (s', h') \<Longrightarrow> r \<noteq> Inl Diverge \<Longrightarrow> rest s' h' = (r, g) \<longleftrightarrow> rest s h = (r, g)"
proof (induction n arbitrary: s' h')
  case (Suc n)
  obtain s1 h1 where steps: "(step ^^ n) (s, h) = (s1, h1)" by fastforce
  with Suc.prems have "step (s1, h1) = (s', h')" by simp
  from step_runs_rest[OF this Suc.prems(2)] Suc.IH[OF steps Suc.prems(2)] show ?case by simp
qed simp

lemma steps_result:
  "(step ^^ n) (s, h) = (s', h') \<Longrightarrow> result s' = Some r \<Longrightarrow> r \<noteq> Inl Diverge \<Longrightarrow> rest s h = (r, h')"
  using steps_run_rest[of n s h s' h' r h'] result_is_rest[of s' r h'] by simp

lemma rest_iff_steps:
  "r \<noteq> Inl Diverge \<Longrightarrow>
    rest s h = (r, h') \<longleftrightarrow> (\<exists>n s'. (step ^^ n) (s, h) = (s', h') \<and> result s' = Some r)"
  using rest_finishes steps_result by blast

text \<open>A finished task stays as it is, so the number of steps does not matter.\<close>

lemma steps_stay: "result s = Some r \<Longrightarrow> (step ^^ n) (s, h) = (s, h)"
  by (induction n) (simp_all add: result_stays)

end

subsection \<open>The task of a connection\<close>

text \<open>Where a task is suspended: before its first step, in the TLS handshake, in the serving of the
  connection by \<open>hyper\<close>, and in the three waits of the tunnel; finally it has ended with an
  outcome, which is only logged, or was dropped by the runtime.\<close>

datatype conn_state =
  Spawned bool nat
| Handshaking string nat
| Serving_tls string nat
| Serving_plain nat
| Connecting conn_parts socket_addr
| Replaying conn_parts
| Copying conn_parts
| Closed "unit res"
| Cut

text \<open>The part of the tunnel before its first \<open>await\<close>: the addresses, and the socket bound to the
  client's.\<close>

definition tunnel_socket :: "tcp_world \<Rightarrow> conn_parts \<Rightarrow> (tevent, socket_addr) io" where
  "tunnel_socket W part =
     io_bind (\<lambda>h. (ext (tw_local W h (part_io part)), h)) (\<lambda>addr_target.
     io_bind (\<lambda>h. (ext (tw_peer W h (part_io part)), h)) (\<lambda>addr_local.
     io_bind (socket_bind W addr_local) (\<lambda>_. io_ok addr_target)))"

text \<open>One step is the code from a state to the next \<open>await\<close>; \<open>conn_next\<close> says where a task goes with the
  outcome of such a piece of code.\<close>

definition conn_next :: "('a \<Rightarrow> conn_state) \<Rightarrow> 'a res \<times> tevent list \<Rightarrow> conn_state \<times> tevent list" where
  "conn_next f r = (case fst r of Inl e \<Rightarrow> (Closed (Inl e), snd r) | Inr a \<Rightarrow> (f a, snd r))"

fun conn_step :: "tcp_world \<Rightarrow> conn_state \<times> tevent list \<Rightarrow> conn_state \<times> tevent list" where
  "conn_step W (Spawned tls stream, h) =
     conn_next (\<lambda>key. if tls then Handshaking key stream else Serving_plain stream)
       (log_key W stream h, h)"
| "conn_step W (Handshaking key stream, h) =
     conn_next (Serving_tls key) (io_call (AcceptTls stream) (\<lambda>h. tw_tls W h stream) h)"
| "conn_step W (Serving_tls key tls_stream, h) =
     (let r = tw_serve W h False tls_stream; h' = h @ [ServeConnection False tls_stream] in
      case fst r of
        Inl e \<Rightarrow> (Closed (bail (key @ '': stream block with error: '' @ he_text e)), h')
      | Inr _ \<Rightarrow> (case snd r of
            None \<Rightarrow> (Closed (Inr ()), h')
          | Some part \<Rightarrow> (Serving_tls key (part_io part), h')))"
| "conn_step W (Serving_plain stream, h) =
     (let r = tw_serve W h True stream; h' = h @ [ServeConnection True stream] in
      case fst r of
        Inr _ \<Rightarrow> (case snd r of
            None \<Rightarrow> (Closed (Inr ()), h')
          | Some part \<Rightarrow> (Serving_plain (part_io part), h'))
      | Inl e \<Rightarrow>
          if he_is_parse e then (case snd r of
              Some part \<Rightarrow> conn_next (Connecting part) (tunnel_socket W part h')
            | None \<Rightarrow> (Closed (Inr ()), h'))
          else (Closed (Inr ()), h'))"
| "conn_step W (Connecting part addr_target, h) =
     conn_next (\<lambda>_. Replaying part)
       (io_call (ConnectSocket addr_target) (\<lambda>h. tw_connect W h addr_target) h)"
| "conn_step W (Replaying part, h) =
     conn_next (\<lambda>_. Copying part)
       (io_unwrap ''unwrap write_all'' (io_call (WriteAll (part_read_buf part))
         (\<lambda>h. tw_write W h (part_read_buf part))) h)"
| "conn_step W (Copying part, h) =
     conn_next (\<lambda>_. Closed (Inr ()))
       (io_call (CopyBidirectional (part_io part)) (\<lambda>h. tw_copy W h (part_io part)) h)"
| "conn_step W (Closed r, h) = (Closed r, h)"
| "conn_step W (Cut, h) = (Cut, h)"

text \<open>The code of a connection, and what is left of it in each state.\<close>

definition serve_connection :: "tcp_world \<Rightarrow> bool \<Rightarrow> nat \<Rightarrow> (tevent, unit) io" where
  "serve_connection W tls stream =
     (if tls then serve_https W stream else serve_http_with_error_return W stream)"

fun conn_rest :: "tcp_world \<Rightarrow> conn_state \<Rightarrow> (tevent, unit) io" where
  "conn_rest W (Spawned tls stream) = serve_connection W tls stream"
| "conn_rest W (Handshaking key stream) =
     io_bind (io_call (AcceptTls stream) (\<lambda>h. tw_tls W h stream)) (\<lambda>t. run_loop (https_loop W key t))"
| "conn_rest W (Serving_tls key t) = run_loop (https_loop W key t)"
| "conn_rest W (Serving_plain stream) = run_loop (http_loop W stream)"
| "conn_rest W (Connecting part a) =
     io_bind (io_call (ConnectSocket a) (\<lambda>h. tw_connect W h a)) (\<lambda>_.
     io_bind (io_unwrap ''unwrap write_all'' (io_call (WriteAll (part_read_buf part))
         (\<lambda>h. tw_write W h (part_read_buf part)))) (\<lambda>_.
       io_call (CopyBidirectional (part_io part)) (\<lambda>h. tw_copy W h (part_io part))))"
| "conn_rest W (Replaying part) =
     io_bind (io_unwrap ''unwrap write_all'' (io_call (WriteAll (part_read_buf part))
         (\<lambda>h. tw_write W h (part_read_buf part)))) (\<lambda>_.
       io_call (CopyBidirectional (part_io part)) (\<lambda>h. tw_copy W h (part_io part)))"
| "conn_rest W (Copying part) = io_call (CopyBidirectional (part_io part)) (\<lambda>h. tw_copy W h (part_io part))"
| "conn_rest W (Closed r) = io_lift r"
| "conn_rest W Cut = io_lift (Inl Diverge)"

fun conn_result :: "conn_state \<Rightarrow> unit res option" where
  "conn_result (Closed r) = Some r"
| "conn_result _ = None"

lemma conn_result_Some: "conn_result s = Some r \<longleftrightarrow> s = Closed r"
  by (cases s) auto

lemma tunnel_tunnel_socket:
  "tunnel W part h = io_bind (tunnel_socket W part) (\<lambda>a. conn_rest W (Connecting part a)) h"
  by (simp add: tunnel_def tunnel_socket_def io_bind_assoc)

lemma run_loop_https: "r \<noteq> Inl Diverge \<Longrightarrow> run_loop (https_loop W key t) h = (r, g) \<longleftrightarrow>
     (let x = tw_serve W h False t; h' = h @ [ServeConnection False t] in
      case fst x of
        Inl e \<Rightarrow> (bail (key @ '': stream block with error: '' @ he_text e), h')
      | Inr _ \<Rightarrow> (case snd x of
            None \<Rightarrow> (Inr (), h')
          | Some part \<Rightarrow> run_loop (https_loop W key (part_io part)) h')) = (r, g)"
  unfolding run_loop_def
  by (subst https_loop.simps) (auto simp: Let_def split: sum.splits option.splits)

lemma run_loop_http: "r \<noteq> Inl Diverge \<Longrightarrow> run_loop (http_loop W stream) h = (r, g) \<longleftrightarrow>
     (let x = tw_serve W h True stream; h' = h @ [ServeConnection True stream] in
      case fst x of
        Inr _ \<Rightarrow> (case snd x of
            None \<Rightarrow> (Inr (), h')
          | Some part \<Rightarrow> run_loop (http_loop W (part_io part)) h')
      | Inl e \<Rightarrow>
          if he_is_parse e then (case snd x of
              Some part \<Rightarrow> tunnel W part h'
            | None \<Rightarrow> (Inr (), h'))
          else (Inr (), h')) = (r, g)"
  unfolding run_loop_def
  by (subst http_loop.simps) (auto simp: Let_def split: sum.splits option.splits)

lemma conn_next_rest:
  assumes "conn_next f (m h) = (s', h')"
  shows "conn_rest W s' h' = io_bind m (\<lambda>a. conn_rest W (f a)) h"
  using assms by (cases "m h") (auto simp: conn_next_def io_bind_run split: sum.splits)

lemma spawned_rest:
  "conn_rest W (Spawned tls stream) = io_bind (\<lambda>h. (log_key W stream h, h))
     (\<lambda>key. conn_rest W (if tls then Handshaking key stream else Serving_plain stream))"
  by (simp add: serve_connection_def serve_https_def serve_http_with_error_return_def)

lemma conn_step_rest:
  assumes "conn_step W (s, h) = (s', h')" and "r \<noteq> Inl Diverge"
  shows "conn_rest W s' h' = (r, g) \<longleftrightarrow> conn_rest W s h = (r, g)"
proof (cases s)
  case (Spawned tls stream)
  from conn_next_rest[where m = "\<lambda>h. (log_key W stream h, h)" and h = h and W = W, OF assms(1)[unfolded Spawned conn_step.simps]]
  show ?thesis unfolding Spawned spawned_rest by (simp only:)
next
  case (Handshaking key stream)
  from conn_next_rest[where m = "io_call (AcceptTls stream) (\<lambda>h. tw_tls W h stream)" and h = h and W = W, OF assms(1)[unfolded Handshaking conn_step.simps]]
  show ?thesis unfolding Handshaking conn_rest.simps by (simp only:)
next
  case (Serving_tls key t)
  with assms(1) show ?thesis
    by (cases "tw_serve W h False t")
      (auto simp: run_loop_https[OF assms(2), of W key t h g] Let_def split: sum.splits option.splits)
next
  case (Serving_plain stream)
  show ?thesis
  proof (cases "\<exists>e part. tw_serve W h True stream = (Inl e, Some part) \<and> he_is_parse e")
    case True
    then obtain e part where r: "tw_serve W h True stream = (Inl e, Some part)" "he_is_parse e" by blast
    with assms(1) Serving_plain have
      "conn_next (Connecting part) (tunnel_socket W part (h @ [ServeConnection True stream])) = (s', h')"
      by (simp add: Let_def)
    from conn_next_rest[where m = "tunnel_socket W part" and W = W, OF this] r Serving_plain show ?thesis
      by (simp add: run_loop_http[OF assms(2), of W stream h g] Let_def tunnel_tunnel_socket del: conn_rest.simps(5))
  next
    case False
    with assms(1) Serving_plain show ?thesis
      by (cases "tw_serve W h True stream")
        (auto simp: run_loop_http[OF assms(2), of W stream h g] Let_def split: sum.splits option.splits if_splits)
  qed
next
  case (Connecting part a)
  from conn_next_rest[where m = "io_call (ConnectSocket a) (\<lambda>h. tw_connect W h a)" and h = h and W = W, OF assms(1)[unfolded Connecting conn_step.simps]]
  show ?thesis unfolding Connecting conn_rest.simps by (simp only:)
next
  case (Replaying part)
  from conn_next_rest[where m = "io_unwrap ''unwrap write_all'' (io_call (WriteAll (part_read_buf part))
      (\<lambda>h. tw_write W h (part_read_buf part)))" and h = h and W = W, OF assms(1)[unfolded Replaying conn_step.simps]]
  show ?thesis unfolding Replaying conn_rest.simps by (simp only:)
next
  case (Copying part)
  with assms(1) show ?thesis
    by (auto simp: conn_next_def split: sum.splits)
qed (use assms(1) in auto)

text \<open>A target that is gone before the replayed bytes are written makes the task panic, where every
  other failure of the tunnel is an error of its connection.\<close>

lemma replaying_panics:
  "tw_write W h (part_read_buf part) = Inl e \<Longrightarrow>
    conn_step W (Replaying part, h) = (Closed (panic ''unwrap write_all''), h @ [WriteAll (part_read_buf part)])"
  by (simp add: conn_next_def io_unwrap_run panic_def)

text \<open>Reaching an end, one step at a time.\<close>

definition conn_ends :: "tcp_world \<Rightarrow> conn_state \<times> tevent list \<Rightarrow> unit res \<Rightarrow> tevent list \<Rightarrow> bool" where
  "conn_ends W c r h' \<longleftrightarrow> (\<exists>n. (conn_step W ^^ n) c = (Closed r, h'))"

lemma conn_ends_now: "conn_ends W (Closed r, h) r h"
  unfolding conn_ends_def by (rule exI[of _ 0]) simp

lemma conn_ends_step: "conn_ends W (conn_step W c) r h' \<Longrightarrow> conn_ends W c r h'"
  unfolding conn_ends_def by (metis funpow_Suc_right o_apply)

lemma conn_ends_next:
  assumes "conn_step W (s, h) = conn_next f (m h)" and "io_bind m (\<lambda>a. conn_rest W (f a)) h = (r, h')"
    and "\<And>a h1. conn_rest W (f a) h1 = (r, h') \<Longrightarrow> conn_ends W (f a, h1) r h'"
  shows "conn_ends W (s, h) r h'"
proof (rule conn_ends_step)
  show "conn_ends W (conn_step W (s, h)) r h'"
    using assms by (cases "m h") (auto simp: conn_next_def io_bind_run conn_ends_now split: sum.splits)
qed

lemma copying_ends: "conn_rest W (Copying part) h = (r, h') \<Longrightarrow> conn_ends W (Copying part, h) r h'"
  by (rule conn_ends_next[OF conn_step.simps(7)])
    (auto simp: io_bind_run conn_ends_now ext_def split: sum.splits)

lemma replaying_ends: "conn_rest W (Replaying part) h = (r, h') \<Longrightarrow> conn_ends W (Replaying part, h) r h'"
  by (rule conn_ends_next[OF conn_step.simps(6)]) (simp_all only: conn_rest.simps(6,7) copying_ends)

lemma connecting_ends: "conn_rest W (Connecting part a) h = (r, h') \<Longrightarrow> conn_ends W (Connecting part a, h) r h'"
  by (rule conn_ends_next[OF conn_step.simps(5)]) (simp_all only: conn_rest.simps(5,6) replaying_ends)

lemma serving_tls_ends:
  assumes "https_loop W key t h = Some x"
  shows "conn_ends W (Serving_tls key t, h) (fst x) (snd x)"
proof (rule https_loop.raw_induct [where P = "\<lambda>W key t h x. conn_ends W (Serving_tls key t, h) (fst x) (snd x)",
      OF _ assms])
  fix f W key t h x
  assume IH: "\<And>W key t h x. f W key t h = Some x \<Longrightarrow> conn_ends W (Serving_tls key t, h) (fst x) (snd x)"
    and eq: "(let r = tw_serve W h False t; h' = h @ [ServeConnection False t] in
      case fst r of
        Inl e \<Rightarrow> Some (bail (key @ '': stream block with error: '' @ he_text e), h')
      | Inr _ \<Rightarrow> (case snd r of
            None \<Rightarrow> Some (Inr (), h')
          | Some part \<Rightarrow> f W key (part_io part) h')) = Some x"
  show "conn_ends W (Serving_tls key t, h) (fst x) (snd x)"
    using eq by - (rule conn_ends_step,
      auto simp: Let_def conn_ends_now intro: IH split: sum.splits option.splits)
qed

lemma serving_plain_ends:
  assumes "http_loop W stream h = Some x" and "fst x \<noteq> Inl Diverge"
  shows "conn_ends W (Serving_plain stream, h) (fst x) (snd x)"
proof -
  have "fst x \<noteq> Inl Diverge \<longrightarrow> conn_ends W (Serving_plain stream, h) (fst x) (snd x)"
  proof (rule http_loop.raw_induct [where P = "\<lambda>W stream h x. fst x \<noteq> Inl Diverge \<longrightarrow>
        conn_ends W (Serving_plain stream, h) (fst x) (snd x)", OF _ assms(1)], rule impI)
    fix f W stream h x
    assume IH: "\<And>W stream h x. f W stream h = Some x \<Longrightarrow> fst x \<noteq> Inl Diverge \<longrightarrow>
        conn_ends W (Serving_plain stream, h) (fst x) (snd x)"
      and div: "fst x \<noteq> Inl Diverge"
      and eq: "(let r = tw_serve W h True stream; h' = h @ [ServeConnection True stream] in
      case fst r of
        Inr _ \<Rightarrow> (case snd r of
            None \<Rightarrow> Some (Inr (), h')
          | Some part \<Rightarrow> f W (part_io part) h')
      | Inl e \<Rightarrow>
          if he_is_parse e then (case snd r of
              Some part \<Rightarrow> Some (tunnel W part h')
            | None \<Rightarrow> Some (Inr (), h'))
          else Some (Inr (), h')) = Some x"
    show "conn_ends W (Serving_plain stream, h) (fst x) (snd x)"
    proof (cases "\<exists>e part. tw_serve W h True stream = (Inl e, Some part) \<and> he_is_parse e")
      case True
      then obtain e part where r: "tw_serve W h True stream = (Inl e, Some part)" "he_is_parse e" by blast
      let ?h = "h @ [ServeConnection True stream]"
      from eq r have x: "io_bind (tunnel_socket W part) (\<lambda>a. conn_rest W (Connecting part a)) ?h = x"
        by (simp add: Let_def tunnel_tunnel_socket del: conn_rest.simps)
      show ?thesis
      proof (rule conn_ends_step, cases "tunnel_socket W part ?h")
        case (Pair res h1)
        with r x show "conn_ends W (conn_step W (Serving_plain stream, h)) (fst x) (snd x)"
          by (cases res) (auto simp: Let_def conn_next_def conn_ends_now connecting_ends simp del: conn_rest.simps)
      qed
    next
      case False
      with eq show ?thesis
        by - (rule conn_ends_step, cases "tw_serve W h True stream",
          auto simp: Let_def conn_ends_now div intro: IH[THEN mp] split: sum.splits option.splits if_splits)
    qed
  qed
  with assms(2) show ?thesis by blast
qed

lemma run_loop_returns: "run_loop m h = (r, h') \<Longrightarrow> r \<noteq> Inl Diverge \<Longrightarrow> m h = Some (r, h')"
  by (auto simp: run_loop_def split: option.splits)

lemma conn_rest_ends:
  assumes "conn_rest W s h = (r, h')" and "r \<noteq> Inl Diverge"
  shows "conn_ends W (s, h) r h'"
proof -
  have tls: "conn_ends W (Serving_tls key t, h) r h'" if "conn_rest W (Serving_tls key t) h = (r, h')" for key t h
    using serving_tls_ends[OF run_loop_returns[OF _ assms(2)]] that by simp
  have handshake: "conn_ends W (Handshaking key t, h) r h'" if "conn_rest W (Handshaking key t) h = (r, h')" for key t h
    by (rule conn_ends_next[where m = "io_call (AcceptTls t) (\<lambda>h. tw_tls W h t)", OF conn_step.simps(2)])
      (use that tls in \<open>simp_all only: conn_rest.simps\<close>)
  have plain: "conn_ends W (Serving_plain t, h) r h'" if "conn_rest W (Serving_plain t) h = (r, h')" for t h
    using serving_plain_ends[OF run_loop_returns[OF _ assms(2)]] that assms(2) by simp
  show ?thesis
  proof (cases s)
    case (Spawned tls stream)
    show ?thesis unfolding Spawned
      by (rule conn_ends_next[where m = "\<lambda>h. (log_key W stream h, h)"], rule conn_step.simps(1))
        (use assms(1)[unfolded Spawned spawned_rest] handshake plain in \<open>auto simp del: conn_rest.simps split: if_splits\<close>)
  next
    case (Closed x)
    with assms(1) show ?thesis by (simp add: conn_ends_now)
  next
    case Cut
    with assms show ?thesis by simp
  qed (use assms(1) in \<open>simp_all only: tls handshake plain connecting_ends replaying_ends copying_ends\<close>)
qed

lemma ext_not_diverge [simp]: "ext r \<noteq> Inl Diverge"
  by (auto simp: ext_def split: sum.splits)

lemma run_not_diverge:
  "log_key W stream h \<noteq> Inl Diverge"
  "io_call e ask h \<noteq> (Inl Diverge, h')"
  "io_unwrap msg (io_call e ask) h \<noteq> (Inl Diverge, h')"
  "socket_bind W addr h \<noteq> (Inl Diverge, h')"
  "tunnel_socket W part h \<noteq> (Inl Diverge, h')"
  by (auto simp: log_key_def ext_def io_unwrap_run socket_bind_def set_socket_def tunnel_socket_def
      io_bind_run split: sum.splits)

lemma conn_next_diverge:
  "conn_next f m = (Closed (Inl Diverge), h') \<Longrightarrow> m = (Inl Diverge, h') \<or> (\<exists>a. f a = Closed (Inl Diverge))"
  by (cases m) (auto simp: conn_next_def split: sum.splits)

lemma conn_step_not_diverge:
  assumes "conn_step W (s, h) = (Closed (Inl Diverge), h')"
  shows "s = Closed (Inl Diverge)"
proof (cases s)
  case (Spawned tls stream)
  from conn_next_diverge[OF assms[unfolded Spawned conn_step.simps]] show ?thesis
    by (auto simp: run_not_diverge split: if_splits)
next
  case (Handshaking key stream)
  from conn_next_diverge[OF assms[unfolded Handshaking conn_step.simps]] show ?thesis by simp
next
  case (Serving_tls key t)
  with assms show ?thesis by (auto simp: Let_def bail_def split: sum.splits option.splits)
next
  case (Serving_plain stream)
  with assms show ?thesis
    by (auto simp: Let_def run_not_diverge dest!: conn_next_diverge split: sum.splits option.splits if_splits)
next
  case (Connecting part a)
  from conn_next_diverge[OF assms[unfolded Connecting conn_step.simps]] show ?thesis by simp
next
  case (Replaying part)
  from conn_next_diverge[OF assms[unfolded Replaying conn_step.simps]] show ?thesis
    by (simp add: run_not_diverge del: io_call_run)
next
  case (Copying part)
  from conn_next_diverge[OF assms[unfolded Copying conn_step.simps]] show ?thesis by simp
qed (use assms in auto)

lemma conn_steps_not_diverge:
  "(conn_step W ^^ n) c = (Closed (Inl Diverge), h') \<Longrightarrow> fst c = Closed (Inl Diverge)"
proof (induction n arbitrary: h')
  case (Suc n)
  then have "conn_step W ((conn_step W ^^ n) c) = (Closed (Inl Diverge), h')" by simp
  moreover obtain s h where steps: "(conn_step W ^^ n) c = (s, h)" by fastforce
  ultimately have "s = Closed (Inl Diverge)" using conn_step_not_diverge by simp
  with Suc.IH steps show ?case by simp
qed simp

interpretation conn: stepped_code "conn_step W" "conn_rest W" conn_result for W
proof unfold_locales
  fix s h r h'
  assume "conn_rest W s h = (r, h')" and "r \<noteq> Inl Diverge"
  from conn_rest_ends[OF this] show "\<exists>n s'. (conn_step W ^^ n) (s, h) = (s', h') \<and> conn_result s' = Some r"
    by (auto simp: conn_ends_def conn_result_Some)
qed (simp_all add: conn_step_rest conn_result_Some)

lemma conn_steps_serve:
  assumes "(conn_step W ^^ n) (Spawned tls stream, []) = (Closed r, h)"
  shows "r \<noteq> Inl Diverge \<and> serve_connection W tls stream [] = (r, h)"
proof -
  have "r \<noteq> Inl Diverge" using conn_steps_not_diverge[of n W "(Spawned tls stream, [])" h] assms by auto
  with conn.steps_result[OF assms, of r] show ?thesis by simp
qed

text \<open>The steps of a connection's task are the code of the connection. The task ends with an
  outcome after some number of steps exactly when the code, run without interruption, returns
  that outcome, with the same effects.\<close>

lemma connection_steps:
  "(\<exists>n. (conn_step W ^^ n) (Spawned tls stream, []) = (Closed r, h)) \<longleftrightarrow>
     r \<noteq> Inl Diverge \<and> serve_connection W tls stream [] = (r, h)"
  using conn_steps_serve[of _ W tls stream r h] conn.rest_finishes[of W "Spawned tls stream" "[]" r h]
  by (auto simp: conn_result_Some)

subsection \<open>The task of the server\<close>

datatype server_state = Starting | Accepting tcp_listener | Returned "unit res"

text \<open>A step of the server is setting up its listener, or one round of its accept loop up to the
  next wait; a connection accepted in the round is given to a task.\<close>

fun server_step ::
  "tcp_world \<Rightarrow> ('h, 'j, 'c, 's) config \<Rightarrow> server_state \<times> tevent list \<Rightarrow> server_state \<times> tevent list" where
  "server_step W config (Starting, h) =
     (case listener_bind W \<lparr>ip = V4 0, port = hc_listen_port (http_config config)\<rparr> h of
        (Inl e, h') \<Rightarrow> (Returned (Inl e), h')
      | (Inr listener, h') \<Rightarrow> (Accepting listener, h'))"
| "server_step W config (Accepting listener, h) =
     (if tw_stop W h then (Returned (Inr ()), h)
      else case tw_accept W h of
        Inl ke \<Rightarrow>
          if is_connection_error (fst ke) then (Accepting listener, h @ [AcceptStream])
          else (Returned (Inl (Error (snd ke))), h @ [AcceptStream])
      | Inr stream \<Rightarrow>
          let h' = h @ [AcceptStream, SetNoDelay stream (ln_nodelay listener)] in
          case tw_peer W h' stream of
            Inl e \<Rightarrow> (Returned (Inl (Error e)), h')
          | Inr addr_remote \<Rightarrow> (case tw_local W h' stream of
                Inl e \<Rightarrow> (Returned (Inl (Error e)), h')
              | Inr addr_local \<Rightarrow> (Accepting listener,
                  h' @ [if tls_config_of config \<noteq> None then SpawnHttps stream addr_remote addr_local
                        else SpawnHttp stream addr_remote addr_local])))"
| "server_step W config (Returned r, h) = (Returned r, h)"

fun server_rest :: "tcp_world \<Rightarrow> ('h, 'j, 'c, 's) config \<Rightarrow> server_state \<Rightarrow> (tevent, unit) io" where
  "server_rest W config Starting = server_serve W (http_server_new config)"
| "server_rest W config (Accepting listener) =
     run_loop (serve_loop W listener (tls_config_of config \<noteq> None))"
| "server_rest W config (Returned r) = io_lift r"

fun server_result :: "server_state \<Rightarrow> unit res option" where
  "server_result (Returned r) = Some r"
| "server_result _ = None"

lemma server_result_Some: "server_result s = Some r \<longleftrightarrow> s = Returned r"
  by (cases s) auto

lemma accept_until_skip:
  "skipped W h \<Longrightarrow> accept_until W ln h = accept_until W ln (h @ [AcceptStream])"
  by (subst accept_until_step) simp

lemma serve_loop_skip:
  "skipped W h \<Longrightarrow> serve_loop W ln tls h = serve_loop W ln tls (h @ [AcceptStream])"
  by (subst (1 2) serve_loop.simps) (simp add: accept_until_skip[of W h])

lemma accept_until_now: "\<not> skipped W h \<Longrightarrow> accept_until W ln h = Some (accept_outcome W ln h)"
  by (subst accept_until_step) simp

lemma server_step_rest:
  assumes "server_step W config (s, h) = (s', h')" and "r \<noteq> Inl Diverge"
  shows "server_rest W config s' h' = (r, g) \<longleftrightarrow> server_rest W config s h = (r, g)"
proof (cases s)
  case Starting
  with assms(1) show ?thesis
    by (auto simp: server_serve_def http_server_new_def Let_def io_bind_run split: prod.splits sum.splits)
next
  case (Accepting ln)
  let ?tls = "tls_config_of config \<noteq> None"
  show ?thesis
  proof (cases "skipped W h")
    case True
    with assms(1) Accepting have "s' = Accepting ln" "h' = h @ [AcceptStream]"
      by (auto simp: skipped_def split: sum.splits)
    with serve_loop_skip[OF True, of ln ?tls] Accepting assms(2) show ?thesis
      by (auto simp: run_loop_def split: option.splits)
  next
    case False
    note now = accept_until_now[OF False, of ln]
    from assms Accepting False show ?thesis
      unfolding Accepting server_rest.simps(2) run_loop_def
      by (subst serve_loop.simps) (auto simp: now accept_outcome_def skipped_def Let_def run_loop_def
          split: if_splits sum.splits option.splits)
  qed
qed (use assms(1) in simp)

definition server_ends ::
  "tcp_world \<Rightarrow> ('h, 'j, 'c, 's) config \<Rightarrow> server_state \<times> tevent list \<Rightarrow> unit res \<Rightarrow> tevent list \<Rightarrow> bool" where
  "server_ends W config c r h' \<longleftrightarrow> (\<exists>n. (server_step W config ^^ n) c = (Returned r, h'))"

lemma server_ends_now: "server_ends W config (Returned r, h) r h"
  unfolding server_ends_def by (rule exI[of _ 0]) simp

lemma server_ends_step: "server_ends W config (server_step W config c) r h' \<Longrightarrow> server_ends W config c r h'"
  unfolding server_ends_def by (metis funpow_Suc_right o_apply)

text \<open>The rounds that are skipped are steps, and so is the round that decides.\<close>

lemma server_ends_accept:
  assumes "accept_until W ln h = Some x"
    and "\<And>h1. \<not> skipped W h1 \<Longrightarrow> x = accept_outcome W ln h1 \<Longrightarrow> server_ends W config (Accepting ln, h1) r h'"
  shows "server_ends W config (Accepting ln, h) r h'"
proof -
  have skips: "server_ends W config (Accepting ln, h) r h'"
    if "\<forall>j < k. skipped W (h @ replicate j AcceptStream)"
      and "server_ends W config (Accepting ln, h @ replicate k AcceptStream) r h'" for k h
    using that
  proof (induction k arbitrary: h)
    case (Suc k)
    have "skipped W h" using Suc.prems(1) by force
    moreover have "server_ends W config (Accepting ln, h @ [AcceptStream]) r h'"
    proof (rule Suc.IH)
      show "\<forall>j < k. skipped W ((h @ [AcceptStream]) @ replicate j AcceptStream)"
        using Suc.prems(1) by (metis append_Cons append_Nil append_assoc replicate_Suc Suc_mono)
    qed (use Suc.prems(2) in simp)
    ultimately show ?case
      by - (rule server_ends_step, auto simp: skipped_def split: sum.splits)
  qed simp
  from accepting.loop_cases[where W = W and ln = ln and h = h] assms(1) obtain k where
    "\<forall>j < k. skipped W (h @ replicate j AcceptStream)" "\<not> skipped W (h @ replicate k AcceptStream)"
    "x = accept_outcome W ln (h @ replicate k AcceptStream)" by auto
  with assms(2) skips show ?thesis by blast
qed

lemma accepting_ends:
  assumes "serve_loop W ln (tls_config_of config \<noteq> None) h = Some x"
  shows "server_ends W config (Accepting ln, h) (fst x) (snd x)"
proof -
  have "tls = (tls_config_of config \<noteq> None) \<longrightarrow> server_ends W config (Accepting ln, h) (fst x) (snd x)"
    if "serve_loop W ln tls h = Some x" for tls
  proof (rule serve_loop.raw_induct [where P = "\<lambda>W ln tls h x. tls = (tls_config_of config \<noteq> None) \<longrightarrow>
        server_ends W config (Accepting ln, h) (fst x) (snd x)", OF _ that], rule impI)
    fix f W ln tls h x
    assume IH: "\<And>W ln tls h x. f W ln tls h = Some x \<Longrightarrow> tls = (tls_config_of config \<noteq> None) \<longrightarrow>
        server_ends W config (Accepting ln, h) (fst x) (snd x)"
      and tls: "tls = (tls_config_of config \<noteq> None)"
      and eq: "(case accept_until W ln h of
        None \<Rightarrow> None
      | Some r \<Rightarrow> (case fst r of
            Inl e \<Rightarrow> Some (Inl (Error e), snd r)
          | Inr found \<Rightarrow> (case found of
              None \<Rightarrow> Some (Inr (), snd r)
            | Some stream \<Rightarrow> (case tw_peer W (snd r) stream of
                Inl e \<Rightarrow> Some (Inl (Error e), snd r)
              | Inr addr_remote \<Rightarrow> (case tw_local W (snd r) stream of
                    Inl e \<Rightarrow> Some (Inl (Error e), snd r)
                  | Inr addr_local \<Rightarrow> f W ln tls
                      (snd r @ [if tls then SpawnHttps stream addr_remote addr_local
                                else SpawnHttp stream addr_remote addr_local])))))) = Some x"
    from eq obtain y where y: "accept_until W ln h = Some y" by (cases "accept_until W ln h") auto
    show "server_ends W config (Accepting ln, h) (fst x) (snd x)"
    proof (rule server_ends_accept[OF y])
      fix h1
      assume now: "\<not> skipped W h1" "y = accept_outcome W ln h1"
      with eq y show "server_ends W config (Accepting ln, h1) (fst x) (snd x)"
        by - (rule server_ends_step, auto simp: accept_outcome_def skipped_def Let_def server_ends_now tls
            intro: IH[THEN mp] split: sum.splits if_splits)
    qed
  qed
  with assms show ?thesis by blast
qed

interpretation srv: stepped_code "server_step W config" "server_rest W config" server_result for W config
proof unfold_locales
  fix s h r h'
  assume rest: "server_rest W config s h = (r, h')" and div: "r \<noteq> Inl Diverge"
  have accepting: "server_ends W config (Accepting ln, h) r h'"
    if "server_rest W config (Accepting ln) h = (r, h')" for ln h
    using accepting_ends[OF run_loop_returns[OF _ div]] that by simp
  have "server_ends W config (s, h) r h'"
  proof (cases s)
    case Starting
    show ?thesis
      by (rule server_ends_step) (use rest Starting accepting in \<open>auto simp: server_serve_def
          http_server_new_def Let_def io_bind_run server_ends_now split: prod.splits sum.splits\<close>)
  qed (use rest accepting server_ends_now in auto)
  then show "\<exists>n s'. (server_step W config ^^ n) (s, h) = (s', h') \<and> server_result s' = Some r"
    by (auto simp: server_ends_def server_result_Some)
qed (simp_all add: server_step_rest server_result_Some)

end
