(* ===== verification/Services.thy ===== *)
theory Services
  imports Tcp_Server
begin

text \<open>
  The \<open>Service\<close> instances of the sub proxy, \<open>HttpService\<close> (\<open>proxy/http/server.rs\<close>) and
  \<open>HttpConnector\<close> (\<open>proxy/http/connector.rs\<close>): what \<open>hyper\<close> gets when it polls and calls them in
  any order, and so what all requests of one connection do together.
\<close>

subsection \<open>The instances\<close>

text \<open>Polling may change the service, and a call gives the code of its future and the service left;
  both instances are always ready and call a method on a clone.\<close>

definition http_poll_ready ::
  "('h, 'j, 'c) http_service \<Rightarrow> (error + unit) poll \<times> ('h, 'j, 'c) http_service" where
  "http_poll_ready svc = (Ready (Inr ()), svc)"

definition http_call ::
  "('u, 'q, 'h, 'j) lib \<Rightarrow> ('u, 'h) forwarder \<Rightarrow> ('h, 'j, 'c) http_service \<Rightarrow> ('u, 'h) request
    \<Rightarrow> (('u, 'h) pevent, 'h response) io \<times> ('h, 'j, 'c) http_service" where
  "http_call L fw svc request = (handle L fw svc request, svc)"

definition connector_poll_ready :: "http_connector \<Rightarrow> (error + unit) poll \<times> http_connector" where
  "connector_poll_ready c = (Ready (Inr ()), c)"

definition connector_call ::
  "tcp_world \<Rightarrow> http_connector \<Rightarrow> 'u \<Rightarrow> (tevent, unit) io \<times> http_connector" where
  "connector_call W c dst = (connector_connect W c dst, c)"

subsection \<open>Using a service\<close>

datatype 'r service_op = Poll_Ready | Call 'r

definition calls :: "'r service_op list \<Rightarrow> 'r list" where
  "calls ops = List.map_filter (\<lambda>op. case op of Poll_Ready \<Rightarrow> None | Call r \<Rightarrow> Some r) ops"

lemma calls_simps [simp]:
  "calls [] = []" "calls (Poll_Ready # ops) = calls ops" "calls (Call r # ops) = r # calls ops"
  by (simp_all add: calls_def map_filter_simps)

text \<open>A use of a service, each future being awaited before the next operation: whether every poll
  was ready, the outcomes of the calls, the service left, and the history.\<close>

fun run_service ::
  "('s \<Rightarrow> (error + unit) poll \<times> 's) \<Rightarrow> ('s \<Rightarrow> 'r \<Rightarrow> ('e, 'a) io \<times> 's) \<Rightarrow> 's \<Rightarrow> 'r service_op list
    \<Rightarrow> 'e list \<Rightarrow> bool \<times> 'a res list \<times> 's \<times> 'e list" where
  "run_service poll call s [] h = (True, [], s, h)"
| "run_service poll call s (Poll_Ready # ops) h = (case poll s of (p, s1) \<Rightarrow>
     (case run_service poll call s1 ops h of (b, as, s2, h2) \<Rightarrow> (p = Ready (Inr ()) \<and> b, as, s2, h2)))"
| "run_service poll call s (Call r # ops) h = (case call s r of (m, s1) \<Rightarrow> (case m h of (a, h1) \<Rightarrow>
     (case run_service poll call s1 ops h1 of (b, as, s2, h2) \<Rightarrow> (b, a # as, s2, h2))))"

text \<open>The contract: always ready, and every call runs a method on the service as it is.\<close>

locale cloned_service =
  fixes poll :: "'s \<Rightarrow> (error + unit) poll \<times> 's"
    and call :: "'s \<Rightarrow> 'r \<Rightarrow> ('e, 'a) io \<times> 's"
    and run :: "'s \<Rightarrow> 'r \<Rightarrow> ('e, 'a) io"
  assumes always_ready: "poll s = (Ready (Inr ()), s)"
    and calls_method: "call s r = (run s r, s)"
begin

lemma run_poll: "run_service poll call s (Poll_Ready # ops) h = run_service poll call s ops h"
  unfolding run_service.simps(2) always_ready[of s] by (simp split: prod.split)

lemma run_call:
  "run_service poll call s (Call r # ops) h = (case run s r h of (a, h1) \<Rightarrow>
     (case run_service poll call s ops h1 of (b, as, s', h') \<Rightarrow> (b, a # as, s', h')))"
  unfolding run_service.simps(3) calls_method[of s r] by (simp split: prod.split)

lemma run_ready:
  "run_service poll call s ops h = (b, as, s', h') \<Longrightarrow> b \<and> s' = s \<and> length as = length (calls ops)"
proof (induction ops arbitrary: h as)
  case (Cons op ops)
  then show ?case
    by (cases op) (auto simp: run_poll run_call simp del: run_service.simps split: prod.splits)
qed simp

text \<open>What every call keeps, counted: each call adds at most one to a measure of the history.\<close>

lemma run_keeps:
  assumes "run_service poll call s ops h = (b, as, s', h')" and "Q k h"
    and "\<And>r n h a h1. Q n h \<Longrightarrow> run s r h = (a, h1) \<Longrightarrow> Q n h1 \<or> Q (Suc n) h1"
  shows "\<exists>n \<le> k + length as. Q n h'"
  using assms(1,2)
proof (induction ops arbitrary: h as k)
  case (Cons op ops)
  show ?case
  proof (cases op)
    case Poll_Ready
    with Cons show ?thesis by (simp add: run_poll del: run_service.simps)
  next
    case (Call r)
    with Cons.prems(1) obtain a h1 as1 where run: "run s r h = (a, h1)"
      "run_service poll call s ops h1 = (b, as1, s', h')" "as = a # as1"
      by (auto simp: run_call simp del: run_service.simps split: prod.splits)
    from assms(3)[OF Cons.prems(2) run(1)] show ?thesis
    proof
      assume "Q k h1"
      from Cons.IH[OF run(2) this] show ?thesis by (auto simp: run(3) intro: le_SucI)
    next
      assume "Q (Suc k) h1"
      from Cons.IH[OF run(2) this] show ?thesis by (simp add: run(3))
    qed
  qed
qed auto

end

interpretation serving: cloned_service http_poll_ready "http_call L fw" "handle L fw"
  for L :: "('u, 'q, 'h, 'j) lib" and fw
  by unfold_locales (simp_all add: http_poll_ready_def http_call_def)

interpretation connecting: cloned_service connector_poll_ready "connector_call W" "connector_connect W"
  for W
  by unfold_locales (simp_all add: connector_poll_ready_def connector_call_def)

subsection \<open>The requests of a connection\<close>

text \<open>The forwardings of a history: whether TLS is used, to where, from where.\<close>

definition forwards :: "('u, 'h) pevent list \<Rightarrow> (bool \<times> socket_addr \<times> socket_addr) list" where
  "forwards h = List.map_filter (\<lambda>e. case e of Forward tls dst src req \<Rightarrow> Some (tls, dst, src) | _ \<Rightarrow> None) h"

lemma forwards_simps:
  "forwards [] = []" "forwards (Sleep d # h) = forwards h"
  "forwards (Forward tls dst src req # h) = (tls, dst, src) # forwards h"
  "forwards (g @ h) = forwards g @ forwards h"
  by (simp_all add: forwards_def map_filter_simps map_filter_append)

lemma forwards_sleeps: "sleeps s \<Longrightarrow> forwards s = []"
  by (induction s) (auto simp: forwards_simps sleeps_def split: pevent.splits)

lemma handle_forwards:
  assumes "handle L fw svc request h = (a, h1)"
  shows "forwards h1 = forwards h \<or>
     forwards h1 = forwards h @ [(svc_tls_client_config svc \<noteq> None, svc_target svc, remote svc)]"
proof -
  obtain s fwd s' where eff: "snd (handle L fw svc request h) = h @ s @ fwd @ s'" and "sleeps s" "sleeps s'"
    and fwd: "fwd = [] \<or> (\<exists>req'. fwd = [Forward (svc_tls_client_config svc \<noteq> None) (svc_target svc) (remote svc) req'])"
    using handle_effects[of L fw svc request h] by blast
  then have h1: "h1 = h @ s @ fwd @ s'" "sleeps s" "sleeps s'" using assms by simp_all
  from fwd show ?thesis
    by (auto simp: h1(1) forwards_simps forwards_sleeps[OF h1(2)] forwards_sleeps[OF h1(3)])
qed

lemma service_forwards:
  assumes "run_service http_poll_ready (http_call L fw) svc ops [] = (ready, answers, svc', h)"
  shows "\<exists>n \<le> length answers. forwards h = replicate n (svc_tls_client_config svc \<noteq> None, svc_target svc, remote svc)"
proof -
  let ?to = "(svc_tls_client_config svc \<noteq> None, svc_target svc, remote svc)"
  have "\<exists>n \<le> 0 + length answers. forwards h = replicate n ?to"
  proof (rule serving.run_keeps[OF assms])
    show "forwards [] = replicate 0 ?to" by (simp add: forwards_simps)
    fix r n h a h1
    assume "forwards h = replicate n ?to" "handle L fw svc r h = (a, h1)"
    with handle_forwards[of L fw svc r h a h1]
    show "forwards h1 = replicate n ?to \<or> forwards h1 = replicate (Suc n) ?to"
      by (auto simp: replicate_append_same)
  qed
  then show ?thesis by simp
qed

text \<open>C14: a connection is forwarded in the name of its client. However \<open>hyper\<close> polls the service of a
  connection accepted from \<open>client\<close> with the original destination \<open>origin\<close> and calls it with
  requests, the service is always ready and stays as it is, every call has an outcome, and at most
  one request per call is forwarded, over TLS exactly when the proxy terminates TLS, to \<open>origin\<close> and
  from \<open>client\<close>; the connector of such a forwarding, called with any URI, makes a transparent
  socket, binds it to \<open>client\<close> and connects it to \<open>origin\<close>, and stops at the first step that fails.\<close>

theorem connection_forwards_as_client:
  assumes "run_service http_poll_ready (http_call L fw) (connection_service config client origin) ops []
       = (ready, answers, svc, h)"
  shows "ready \<and> svc = connection_service config client origin \<and> length answers = length (calls ops) \<and>
     (\<exists>n \<le> length answers. forwards h = replicate n (tls_config_of config \<noteq> None, origin, client)) \<and>
     (\<exists>steps. prefix steps [NewSocket, SetTransparent, SetReuseAddr, BindSocket client, ConnectSocket origin] \<and>
        snd (fst (connector_call W (http_connector_new origin client) uri) g) = g @ steps \<and>
        (steps = [NewSocket, SetTransparent, SetReuseAddr, BindSocket client, ConnectSocket origin] \<or>
         (\<exists>e. fst (fst (connector_call W (http_connector_new origin client) uri) g) = Inl e)))"
proof -
  let ?tls = "tls_config_of config \<noteq> None"
  have "\<exists>n \<le> length answers. forwards h = replicate n (?tls, origin, client)"
    using service_forwards[OF assms] by simp
  moreover obtain steps where "prefix steps [NewSocket, SetTransparent, SetReuseAddr, BindSocket client, ConnectSocket origin]"
    "snd (connector_connect W (http_connector_new origin client) uri g) = g @ steps"
    "case fst (connector_connect W (http_connector_new origin client) uri g) of
        Inr _ \<Rightarrow> steps = [NewSocket, SetTransparent, SetReuseAddr, BindSocket client, ConnectSocket origin]
      | Inl e \<Rightarrow> \<exists>xs c. steps = xs @ [c] \<and> fst (socket_call W c (g @ xs)) = Inl e"
    using connector_connect_steps[of client origin W uri g] by blast
  then have "\<exists>steps. prefix steps [NewSocket, SetTransparent, SetReuseAddr, BindSocket client, ConnectSocket origin] \<and>
        snd (fst (connector_call W (http_connector_new origin client) uri) g) = g @ steps \<and>
        (steps = [NewSocket, SetTransparent, SetReuseAddr, BindSocket client, ConnectSocket origin] \<or>
         (\<exists>e. fst (fst (connector_call W (http_connector_new origin client) uri) g) = Inl e))"
    by (intro exI[of _ steps]) (cases "fst (connector_connect W (http_connector_new origin client) uri g)";
      simp add: connector_call_def)
  ultimately show ?thesis
    using serving.run_ready[OF assms] by simp
qed

definition demo_plain_config :: "((hname \<times> hvalue) list, bytes, nat, nat) config" where
  "demo_plain_config = \<lparr>http_config = \<lparr>hc_listen_port = 1025, hc_rules = [], hc_role = None\<rparr>, tls_config_of = None\<rparr>"

theorem connection_forwards_as_client_witness:
  "\<exists>answers svc h. run_service http_poll_ready (http_call demo_lib demo_forwarder) (connection_service
       demo_plain_config demo_client demo_origin)
       [Poll_Ready, Call demo_request, Poll_Ready, Call demo_request] [] = (True, answers, svc, h) \<and>
     length answers = 2 \<and> (\<exists>n \<le> 2. forwards h = replicate n (False, demo_origin, demo_client))"
proof -
  define ops where "ops = [Poll_Ready, Call demo_request, Poll_Ready, Call demo_request]"
  obtain b answers svc h where run: "run_service http_poll_ready (http_call demo_lib demo_forwarder)
      (connection_service demo_plain_config demo_client demo_origin) ops [] = (b, answers, svc, h)"
    by (metis prod_cases4)
  have "length (calls ops) = 2" by (simp add: ops_def)
  moreover have "tls_config_of demo_plain_config = None" by (simp add: demo_plain_config_def)
  ultimately have b: "b = True" "length answers = 2"
    "\<exists>n \<le> 2. forwards h = replicate n (False, demo_origin, demo_client)"
    using connection_forwards_as_client [OF run, of demo_world "()" "[]"] by auto
  from run b show ?thesis unfolding ops_def[symmetric] by blast
qed

end
