(* ===== verification/Sub_Tasks.thy ===== *)
theory Sub_Tasks
  imports Sub_Proxy Server_Tasks Services
begin

text \<open>
  The tasks of the sub proxy, interleaved: the main flow of \<open>proxy_main\<close> (\<open>lib.rs\<close>), the task of the
  server it spawns, and the tasks of the connections (\<open>proxy/http/server.rs\<close>). Each moves from one
  of its \<open>await\<close>s to the next, in any order, until the main flow ends and the rest is dropped.
  Each connection has an environment of its own. A task asks a question at most once at each point of
  its own history, so in one run answers that depend on what the others have done are still a
  function of that history, and the properties hold for every such function.
\<close>

subsection \<open>The program\<close>

text \<open>The main flow after it has spawned the server: it registers the signals, awaits one, tells the
  server to stop and joins its task. When it ends, the runtime drops what is still running.\<close>

datatype sub_main = Sub_registering | Sub_waiting | Sub_joining | Sub_exited "unit res"

record connection =
  co_tls :: bool
  co_stream :: nat
  co_state :: conn_state
  co_history :: "tevent list"

record 'cfg sub_world =
  su_server :: server_state
  su_accepts :: "tevent list"
  su_connections :: "connection list"
  su_stop :: bool
  su_main :: sub_main
  su_history :: "'cfg sevent list"

datatype sub_action = Serve_Move | Stop_Move | Connection_Move nat | Register_Move | Signal_Move | Join_Move

text \<open>The tasks spawned in a history of the server: with TLS or not, and the stream.\<close>

definition spawned :: "tevent list \<Rightarrow> (bool \<times> nat) list" where
  "spawned h = List.map_filter (\<lambda>e. case e of
      SpawnHttps s a b \<Rightarrow> Some (True, s) | SpawnHttp s a b \<Rightarrow> Some (False, s) | _ \<Rightarrow> None) h"

definition start_connection :: "bool \<times> nat \<Rightarrow> connection" where
  "start_connection c = \<lparr>co_tls = fst c, co_stream = snd c, co_state = Spawned (fst c) (snd c), co_history = []\<rparr>"

definition cut_connection :: "connection \<Rightarrow> connection" where
  "cut_connection c = (if conn_result (co_state c) = None then c\<lparr>co_state := Cut\<rparr> else c)"

definition sub_exit :: "unit res \<Rightarrow> 'cfg sevent list \<Rightarrow> 'cfg sub_world \<Rightarrow> 'cfg sub_world" where
  "sub_exit r h w = w\<lparr>su_main := Sub_exited r, su_history := h,
     su_connections := map cut_connection (su_connections w)\<rparr>"

text \<open>A step of the server by itself leaves the stop channel aside: that branch of its \<open>select!\<close> is a
  move of its own, possible in any round once the main flow has sent on the channel.\<close>

definition serve_move :: "tcp_world \<Rightarrow> ('h, 'j, 'c, 's) config \<Rightarrow> bool
    \<Rightarrow> ('h, 'j, 'c, 's) config sub_world \<Rightarrow> ('h, 'j, 'c, 's) config sub_world" where
  "serve_move W config stop w =
     (let (s, h) = server_step (W\<lparr>tw_stop := \<lambda>_. stop\<rparr>) config (su_server w, su_accepts w) in
      w\<lparr>su_server := s, su_accepts := h, su_connections := su_connections w @
          map start_connection (spawned (drop (length (su_accepts w)) h))\<rparr>)"

fun sub_step ::
  "tcp_world \<Rightarrow> (nat \<Rightarrow> tcp_world) \<Rightarrow> (('h, 'j, 'c, 's) config sevent list \<Rightarrow> signal_kind \<Rightarrow> error + unit)
    \<Rightarrow> ('h, 'j, 'c, 's) config \<Rightarrow> ('h, 'j, 'c, 's) config sub_world \<Rightarrow> sub_action
    \<Rightarrow> ('h, 'j, 'c, 's) config sub_world option" where
  "sub_step W N answer config w Serve_Move =
     (if server_result (su_server w) = None then Some (serve_move W config False w) else None)"
| "sub_step W N answer config w Stop_Move =
     (case su_server w of
        Accepting listener \<Rightarrow> if su_stop w then Some (serve_move W config True w) else None
      | _ \<Rightarrow> None)"
| "sub_step W N answer config w (Connection_Move i) =
     (if i < length (su_connections w) then
        (let c = su_connections w ! i; (s, h) = conn_step (N i) (co_state c, co_history c) in
         if conn_result (co_state c) = None
         then Some (w\<lparr>su_connections := (su_connections w)[i := c\<lparr>co_state := s, co_history := h\<rparr>]\<rparr>)
         else None)
      else None)"
| "sub_step W N answer config w Register_Move =
     (if su_main w = Sub_registering then
        (case signals_from_kinds SubSignal answer [Interrupt, Terminate] (su_history w) of
           (Inl e, h) \<Rightarrow> Some (sub_exit (Inl e) h w)
         | (Inr _, h) \<Rightarrow> Some (w\<lparr>su_main := Sub_waiting, su_history := h\<rparr>))
      else None)"
| "sub_step W N answer config w Signal_Move =
     (if su_main w = Sub_waiting then
        Some (w\<lparr>su_main := Sub_joining, su_stop := True, su_history := su_history w @ [WaitSignal, StopServer]\<rparr>)
      else None)"
| "sub_step W N answer config w Join_Move =
     (case (su_main w, su_server w) of
        (Sub_joining, Returned r) \<Rightarrow> Some (sub_exit (join_server r) (su_history w @ [JoinServer]) w)
      | _ \<Rightarrow> None)"

definition sub_move :: "tcp_world \<Rightarrow> (nat \<Rightarrow> tcp_world)
    \<Rightarrow> (('h, 'j, 'c, 's) config sevent list \<Rightarrow> signal_kind \<Rightarrow> error + unit)
    \<Rightarrow> ('h, 'j, 'c, 's) config \<Rightarrow> ('h, 'j, 'c, 's) config sub_world \<Rightarrow> sub_action
    \<Rightarrow> ('h, 'j, 'c, 's) config sub_world option" where
  "sub_move W N answer config w m =
     (case su_main w of Sub_exited r \<Rightarrow> None | _ \<Rightarrow> sub_step W N answer config w m)"

definition sub_start :: "('h, 'j, 'c, 's) config \<Rightarrow> ('h, 'j, 'c, 's) config sub_world" where
  "sub_start config = \<lparr>su_server = Starting, su_accepts = [], su_connections = [], su_stop = False,
     su_main = Sub_registering, su_history = [SpawnServer config]\<rparr>"

inductive sub_reaches :: "tcp_world \<Rightarrow> (nat \<Rightarrow> tcp_world)
    \<Rightarrow> (('h, 'j, 'c, 's) config sevent list \<Rightarrow> signal_kind \<Rightarrow> error + unit) \<Rightarrow> ('h, 'j, 'c, 's) config
    \<Rightarrow> ('h, 'j, 'c, 's) config sub_world \<Rightarrow> ('h, 'j, 'c, 's) config sub_world \<Rightarrow> bool"
  for W N answer config w0 where
  sub_here: "sub_reaches W N answer config w0 w0"
| sub_moved: "sub_reaches W N answer config w0 w \<Longrightarrow> sub_move W N answer config w m = Some w' \<Longrightarrow>
    sub_reaches W N answer config w0 w'"

fun sub_run :: "tcp_world \<Rightarrow> (nat \<Rightarrow> tcp_world)
    \<Rightarrow> (('h, 'j, 'c, 's) config sevent list \<Rightarrow> signal_kind \<Rightarrow> error + unit)
    \<Rightarrow> ('h, 'j, 'c, 's) config \<Rightarrow> ('h, 'j, 'c, 's) config sub_world \<Rightarrow> sub_action list
    \<Rightarrow> ('h, 'j, 'c, 's) config sub_world option" where
  "sub_run W N answer config w [] = Some w"
| "sub_run W N answer config w (m # ms) =
     Option.bind (sub_move W N answer config w m) (\<lambda>w'. sub_run W N answer config w' ms)"

lemma sub_run_reaches:
  "sub_run W N answer config w ms = Some w' \<Longrightarrow> sub_reaches W N answer config w0 w \<Longrightarrow>
    sub_reaches W N answer config w0 w'"
  by (induction ms arbitrary: w) (auto simp: bind_eq_Some_conv intro: sub_moved)

text \<open>The moves, by what they do.\<close>

lemma sub_move_cases:
  assumes "sub_move W N answer config w m = Some w'"
  obtains (serve) stop where "server_result (su_server w) = None" "stop \<Longrightarrow> \<exists>ln. su_server w = Accepting ln \<and> su_stop w"
      "w' = serve_move W config stop w"
  | (connection) i c s h where "i < length (su_connections w)" "c = su_connections w ! i"
      "conn_result (co_state c) = None" "conn_step (N i) (co_state c, co_history c) = (s, h)"
      "w' = w\<lparr>su_connections := (su_connections w)[i := c\<lparr>co_state := s, co_history := h\<rparr>]\<rparr>"
  | (register) r h where "su_main w = Sub_registering"
      "signals_from_kinds SubSignal answer [Interrupt, Terminate] (su_history w) = (r, h)"
      "w' = (case r of Inl e \<Rightarrow> sub_exit (Inl e) h w | Inr _ \<Rightarrow> w\<lparr>su_main := Sub_waiting, su_history := h\<rparr>)"
  | (signal) "su_main w = Sub_waiting"
      "w' = w\<lparr>su_main := Sub_joining, su_stop := True, su_history := su_history w @ [WaitSignal, StopServer]\<rparr>"
  | (join) r where "su_main w = Sub_joining" "su_server w = Returned r"
      "w' = sub_exit (join_server r) (su_history w @ [JoinServer]) w"
proof -
  from assms have "sub_step W N answer config w m = Some w'"
    by (simp add: sub_move_def split: sub_main.splits)
  then show ?thesis
  proof (cases m)
    case Register_Move
    with \<open>sub_step W N answer config w m = Some w'\<close> register show ?thesis
      by (cases "signals_from_kinds SubSignal answer [Interrupt, Terminate] (su_history w)")
        (auto simp del: signals_from_kinds.simps split: if_splits sum.splits)
  next
    case (Connection_Move i)
    with \<open>sub_step W N answer config w m = Some w'\<close> connection show ?thesis
      by (auto simp: Let_def split: if_splits prod.splits)
  qed (auto intro: serve signal join split: if_splits server_state.splits sub_main.splits)
qed

lemma sub_move_up: "sub_move W N answer config w m = Some w' \<Longrightarrow> su_main w \<noteq> Sub_exited r"
  by (auto simp: sub_move_def)

subsection \<open>The invariant\<close>

lemma listener_bind_stop [simp]: "listener_bind (W\<lparr>tw_stop := S\<rparr>) addr = listener_bind W addr"
  by (simp add: listener_bind_def socket_bind_def set_socket_def)

lemma server_step_stop:
  "server_step (W\<lparr>tw_stop := S\<rparr>) config (s, h) = server_step (W\<lparr>tw_stop := \<lambda>_. S h\<rparr>) config (s, h)"
  by (cases s) (simp_all add: Let_def cong: sum.case_cong)

lemma listener_bind_prefix: "listener_bind W addr h = (r, h') \<Longrightarrow> prefix h h'"
  by (auto simp: socket_code ext_def split: sum.splits prod.splits)

lemma server_step_prefix: "server_step W config (s, h) = (s', h') \<Longrightarrow> prefix h h'"
  by (cases s) (auto simp: Let_def dest: listener_bind_prefix split: sum.splits prod.splits if_splits)

lemma server_step_longer:
  "server_step W config (Accepting ln, h) = (s', h') \<Longrightarrow> server_result s' = None \<Longrightarrow> length h < length h'"
  by (auto simp: Let_def split: sum.splits if_splits)

lemma spawned_append: "spawned (g @ h) = spawned g @ spawned h"
  by (simp add: spawned_def map_filter_append)

lemma spawned_prefix: "prefix g h \<Longrightarrow> spawned h = spawned g @ spawned (drop (length g) h)"
  by (auto simp: prefix_def spawned_append)

text \<open>The server is where its steps have led it, whatever rounds its stop channel wins later; when
  it has returned, some choice of the round makes it return so.\<close>

definition server_inv :: "tcp_world \<Rightarrow> ('h, 'j, 'c, 's) config \<Rightarrow> server_state \<Rightarrow> tevent list \<Rightarrow> bool" where
  "server_inv W config s h \<longleftrightarrow>
     (server_result s = None \<longrightarrow> (\<forall>S. (\<forall>g. S g \<longrightarrow> length h \<le> length g) \<longrightarrow>
        (\<exists>n. (server_step (W\<lparr>tw_stop := S\<rparr>) config ^^ n) (Starting, []) = (s, h)))) \<and>
     (server_result s \<noteq> None \<longrightarrow>
        (\<exists>S n. (server_step (W\<lparr>tw_stop := S\<rparr>) config ^^ n) (Starting, []) = (s, h)))"

lemma server_inv_step:
  assumes "server_inv W config s h" and "server_result s = None"
    and "stop \<Longrightarrow> \<exists>ln. s = Accepting ln"
    and "server_step (W\<lparr>tw_stop := \<lambda>_. stop\<rparr>) config (s, h) = (s', h')"
  shows "server_inv W config s' h'"
proof -
  have reach: "\<exists>n. (server_step (W\<lparr>tw_stop := S\<rparr>) config ^^ n) (Starting, []) = (s', h')"
    if S: "\<And>g. S g \<Longrightarrow> length h \<le> length g" and now: "(\<exists>ln. s = Accepting ln) \<Longrightarrow> S h = stop" for S
  proof -
    from assms(1,2) S obtain n where "(server_step (W\<lparr>tw_stop := S\<rparr>) config ^^ n) (Starting, []) = (s, h)"
      unfolding server_inv_def by blast
    moreover have "server_step (W\<lparr>tw_stop := S\<rparr>) config (s, h) = (s', h')"
      using assms(2,4) now server_step_stop[where W = W and S = S and config = config and s = s and h = h] by (cases s) auto
    ultimately have "(server_step (W\<lparr>tw_stop := S\<rparr>) config ^^ Suc n) (Starting, []) = (s', h')" by simp
    then show ?thesis by blast
  qed
  show ?thesis
  proof (cases "server_result s'")
    case None
    have "\<exists>n. (server_step (W\<lparr>tw_stop := S\<rparr>) config ^^ n) (Starting, []) = (s', h')"
      if S: "\<forall>g. S g \<longrightarrow> length h' \<le> length g" for S
    proof (rule reach)
      have "prefix h h'" using server_step_prefix[OF assms(4)] .
      then show "length h \<le> length g" if "S g" for g
        using S that prefix_length_le by (meson le_trans)
      assume "\<exists>ln. s = Accepting ln"
      then obtain ln where ln: "s = Accepting ln" by blast
      with server_step_longer assms(4) None have "length h < length h'" by blast
      with S have "\<not> S h" by auto
      moreover from assms(4) ln None have "\<not> stop" by auto
      ultimately show "S h = stop" by simp
    qed
    with None show ?thesis by (simp add: server_inv_def)
  next
    case (Some r)
    have "\<exists>n. (server_step (W\<lparr>tw_stop := \<lambda>g. stop \<and> g = h\<rparr>) config ^^ n) (Starting, []) = (s', h')"
      by (rule reach) auto
    with Some show ?thesis unfolding server_inv_def by auto
  qed
qed

definition conn_inv :: "tcp_world \<Rightarrow> connection \<Rightarrow> bool" where
  "conn_inv W c \<longleftrightarrow> (\<exists>n s. (conn_step W ^^ n) (Spawned (co_tls c) (co_stream c), []) = (s, co_history c) \<and>
     (co_state c = s \<or> co_state c = Cut))"

definition conns_inv :: "(nat \<Rightarrow> tcp_world) \<Rightarrow> tevent list \<Rightarrow> connection list \<Rightarrow> bool" where
  "conns_inv N h cs \<longleftrightarrow> map (\<lambda>c. (co_tls c, co_stream c)) cs = spawned h \<and>
     (\<forall>i < length cs. conn_inv (N i) (cs ! i))"

text \<open>The main flow, with what registering the signals gives.\<close>

definition main_inv ::
  "'cfg sevent list \<Rightarrow> signal_kind list res \<times> 'cfg sevent list \<Rightarrow> 'cfg sub_world \<Rightarrow> bool" where
  "main_inv h0 reg w \<longleftrightarrow> (case su_main w of
       Sub_registering \<Rightarrow> su_history w = h0
     | Sub_waiting \<Rightarrow> \<exists>ks. reg = (Inr ks, su_history w)
     | Sub_joining \<Rightarrow> su_stop w \<and> (\<exists>ks h. reg = (Inr ks, h) \<and> su_history w = h @ [WaitSignal, StopServer])
     | Sub_exited r \<Rightarrow> (\<exists>e. reg = (Inl e, su_history w) \<and> r = Inl e) \<or>
         (\<exists>ks h out. reg = (Inr ks, h) \<and> su_history w = h @ [WaitSignal, StopServer, JoinServer] \<and>
            su_server w = Returned out \<and> r = join_server out))"

definition sub_inv :: "tcp_world \<Rightarrow> (nat \<Rightarrow> tcp_world)
    \<Rightarrow> (('h, 'j, 'c, 's) config sevent list \<Rightarrow> signal_kind \<Rightarrow> error + unit)
    \<Rightarrow> ('h, 'j, 'c, 's) config \<Rightarrow> ('h, 'j, 'c, 's) config sub_world \<Rightarrow> bool" where
  "sub_inv W N answer config w \<longleftrightarrow> server_inv W config (su_server w) (su_accepts w) \<and>
     conns_inv N (su_accepts w) (su_connections w) \<and>
     main_inv [SpawnServer config]
       (signals_from_kinds SubSignal answer [Interrupt, Terminate] [SpawnServer config]) w"

lemma sub_inv_start: "sub_inv W N answer config (sub_start config)"
proof -
  have "\<exists>n. (server_step V config ^^ n) (Starting, []) = (Starting, [])" for V
    by (rule exI[of _ 0]) simp
  then show ?thesis
    by (simp add: sub_inv_def sub_start_def server_inv_def conns_inv_def main_inv_def spawned_def map_filter_simps
        del: signals_from_kinds.simps)
qed

lemma conn_inv_start: "conn_inv W (start_connection c)"
  unfolding conn_inv_def start_connection_def by (rule exI[of _ 0]) simp

lemma conn_inv_cut: "conn_inv W c \<Longrightarrow> conn_inv W (cut_connection c)"
  by (auto simp: conn_inv_def cut_connection_def)

lemma cut_connection_fields [simp]:
  "co_tls (cut_connection c) = co_tls c" "co_stream (cut_connection c) = co_stream c"
  by (simp_all add: cut_connection_def)

lemma conns_inv_cut: "conns_inv N h cs \<Longrightarrow> conns_inv N h (map cut_connection cs)"
  by (simp add: conns_inv_def conn_inv_cut o_def)

lemma conns_inv_spawn:
  assumes "conns_inv N h cs" and "prefix h h'"
  shows "conns_inv N h' (cs @ map start_connection (spawned (drop (length h) h')))"
  unfolding conns_inv_def
proof (intro conjI allI impI)
  have "(\<lambda>c. (co_tls (start_connection c), co_stream (start_connection c))) = (\<lambda>c. c)"
    by (simp add: start_connection_def fun_eq_iff)
  then show "map (\<lambda>c. (co_tls c, co_stream c)) (cs @ map start_connection (spawned (drop (length h) h')))
      = spawned h'"
    using assms(1) spawned_prefix[OF assms(2)] by (simp add: conns_inv_def o_def)
  fix i
  assume "i < length (cs @ map start_connection (spawned (drop (length h) h')))"
  with assms(1) show "conn_inv (N i) ((cs @ map start_connection (spawned (drop (length h) h'))) ! i)"
    by (auto simp: conns_inv_def nth_append conn_inv_start)
qed

lemma conn_inv_step:
  assumes "conn_inv W c" and "conn_result (co_state c) = None"
    and "conn_step W (co_state c, co_history c) = (s, h)"
  shows "conn_inv W (c\<lparr>co_state := s, co_history := h\<rparr>)"
proof (cases "co_state c = Cut")
  case True
  with assms(3) have "s = Cut" "h = co_history c" by simp_all
  with assms(1) show ?thesis by (auto simp: conn_inv_def)
next
  case False
  with assms(1) obtain n where
    "(conn_step W ^^ n) (Spawned (co_tls c) (co_stream c), []) = (co_state c, co_history c)"
    by (auto simp: conn_inv_def)
  with assms(3) have "(conn_step W ^^ Suc n) (Spawned (co_tls c) (co_stream c), []) = (s, h)" by simp
  then show ?thesis unfolding conn_inv_def by (intro exI[of _ "Suc n"] exI[of _ s]) simp
qed

lemma conns_inv_step:
  assumes "conns_inv N h cs" and "i < length cs" and "conn_result (co_state (cs ! i)) = None"
    and "conn_step (N i) (co_state (cs ! i), co_history (cs ! i)) = (s, g)"
  shows "conns_inv N h (cs[i := (cs ! i)\<lparr>co_state := s, co_history := g\<rparr>])"
proof -
  from assms(1,2) have "(co_tls (cs ! i), co_stream (cs ! i)) = map (\<lambda>c. (co_tls c, co_stream c)) cs ! i" by simp
  with assms(1,2) have "(map (\<lambda>c. (co_tls c, co_stream c)) cs)[i := (co_tls (cs ! i), co_stream (cs ! i))]
      = spawned h" by (metis conns_inv_def list_update_id)
  moreover have "conn_inv (N i) ((cs ! i)\<lparr>co_state := s, co_history := g\<rparr>)"
    using assms conn_inv_step by (simp add: conns_inv_def)
  ultimately show ?thesis
    using assms(1,2) by (simp add: conns_inv_def map_update nth_list_update)
qed

lemma sub_inv_step:
  assumes "sub_inv W N answer config w" and "sub_move W N answer config w m = Some w'"
  shows "sub_inv W N answer config w'"
proof -
  let ?reg = "signals_from_kinds SubSignal answer [Interrupt, Terminate] [SpawnServer config]"
  from assms(1) have inv: "server_inv W config (su_server w) (su_accepts w)"
    "conns_inv N (su_accepts w) (su_connections w)" "main_inv [SpawnServer config] ?reg w"
    by (simp_all add: sub_inv_def)
  have up: "su_main w \<noteq> Sub_exited r" for r using sub_move_up[OF assms(2)] .
  from assms(2) show ?thesis
  proof (cases rule: sub_move_cases)
    case (serve stop)
    obtain s h where step: "server_step (W\<lparr>tw_stop := \<lambda>_. stop\<rparr>) config (su_server w, su_accepts w) = (s, h)"
      by fastforce
    have w': "w' = w\<lparr>su_server := s, su_accepts := h, su_connections := su_connections w @
        map start_connection (spawned (drop (length (su_accepts w)) h))\<rparr>"
      by (simp add: serve(3) serve_move_def step)
    have "server_inv W config s h"
      using server_inv_step[OF inv(1) serve(1) _ step] serve(2) by blast
    moreover have "main_inv [SpawnServer config] ?reg w'"
      using inv(3) up by (auto simp: main_inv_def w' simp del: signals_from_kinds.simps split: sub_main.splits)
    ultimately show ?thesis
      using conns_inv_spawn[OF inv(2) server_step_prefix[OF step]] by (simp add: sub_inv_def w' del: signals_from_kinds.simps)
  next
    case (connection i c s h)
    with conns_inv_step[OF inv(2)] inv up show ?thesis
      by (auto simp: sub_inv_def main_inv_def simp del: signals_from_kinds.simps split: sub_main.splits)
  next
    case (register r h)
    with inv(3) have reg: "?reg = (r, h)" by (simp add: main_inv_def)
    show ?thesis
    proof (cases r)
      case (Inl e)
      with inv conns_inv_cut reg register(3) show ?thesis
        by (simp add: sub_inv_def main_inv_def sub_exit_def del: signals_from_kinds.simps)
    next
      case (Inr ks)
      with inv reg register(3) show ?thesis
        by (simp add: sub_inv_def main_inv_def del: signals_from_kinds.simps)
    qed
  next
    case signal
    with inv show ?thesis by (auto simp: sub_inv_def main_inv_def simp del: signals_from_kinds.simps)
  next
    case (join r)
    with inv conns_inv_cut show ?thesis
      by (auto simp: sub_inv_def main_inv_def sub_exit_def simp del: signals_from_kinds.simps)
  qed
qed

lemma sub_inv_reachable:
  "sub_reaches W N answer config (sub_start config) w \<Longrightarrow> sub_inv W N answer config w"
  by (induction rule: sub_reaches.induct) (auto intro: sub_inv_start sub_inv_step)

subsection \<open>The program and its parts\<close>

lemma proxy_main_after_spawn:
  assumes "uds_read_into U (uds_client_new path) = Inr cfg" and "config_try_from L T cfg = Inr config"
  shows "proxy_main L T U answer server path [] =
     (case signals_from_kinds SubSignal answer [Interrupt, Terminate] [SpawnServer config] of
        (Inl e, h) \<Rightarrow> (Inl e, h)
      | (Inr _, h) \<Rightarrow> (join_server (server config), h @ [WaitSignal, StopServer, JoinServer]))"
proof (cases "signals_from_kinds SubSignal answer [Interrupt, Terminate] [SpawnServer config]")
  case (Pair r h)
  show ?thesis
  proof (cases r)
    case (Inl e)
    with Pair assms show ?thesis
      by (simp add: proxy_main_def io_bind_run del: signals_from_kinds.simps)
  next
    case (Inr ks)
    with Pair have "ks = [Interrupt, Terminate]"
      using signals_from_kinds_Inr[of SubSignal answer "[Interrupt, Terminate]"] by blast
    with Inr Pair assms show ?thesis
      by (simp add: proxy_main_def io_bind_run signals_wait_run del: signals_from_kinds.simps)
  qed
qed

lemma server_step_not_diverge:
  assumes "server_step W config (s, h) = (Returned (Inl Diverge), h')"
  shows "s = Returned (Inl Diverge)"
proof (cases s)
  case Starting
  with assms show ?thesis
    by (auto simp: listener_bind_def io_bind_run run_not_diverge split: prod.splits sum.splits)
next
  case (Accepting listener)
  with assms show ?thesis by (auto simp: Let_def split: if_splits sum.splits)
qed (use assms in simp)

lemma server_steps_not_diverge:
  "(server_step W config ^^ n) (Starting, []) \<noteq> (Returned (Inl Diverge), h)"
proof (induction n arbitrary: h)
  case (Suc n)
  obtain s g where steps: "(server_step W config ^^ n) (Starting, []) = (s, g)" by fastforce
  with Suc.IH have "s \<noteq> Returned (Inl Diverge)" by auto
  with server_step_not_diverge[of W config s g h] steps show ?case by auto
qed simp

lemma returned_serves:
  assumes "server_inv W config (Returned r) h"
  shows "\<exists>S. server_serve (W\<lparr>tw_stop := S\<rparr>) (http_server_new config) [] = (r, h)"
proof -
  from assms obtain S n where steps: "(server_step (W\<lparr>tw_stop := S\<rparr>) config ^^ n) (Starting, []) = (Returned r, h)"
    by (auto simp: server_inv_def)
  with server_steps_not_diverge have "r \<noteq> Inl Diverge" by fastforce
  with srv.steps_result[OF steps, of r] show ?thesis by auto
qed

lemma closed_serves:
  assumes "conn_inv W c" and "co_state c = Closed r"
  shows "serve_connection W (co_tls c) (co_stream c) [] = (r, co_history c)"
proof -
  from assms obtain n where
    "(conn_step W ^^ n) (Spawned (co_tls c) (co_stream c), []) = (Closed r, co_history c)"
    by (auto simp: conn_inv_def)
  with conn_steps_serve show ?thesis by blast
qed

text \<open>C11: interleaving adds no behaviour. However the main flow, the server and the tasks of the
  connections alternate: the server has spawned one task for each of its spawn events, in order;
  a task that has ended did what the code of its connection does alone; a server that has
  returned did what \<open>serve\<close> does alone with the stop arriving in some round; and a program that
  has ended did what \<open>proxy_main\<close> does with that server.\<close>

theorem sub_proxy_refines:
  assumes "sub_reaches W N answer config (sub_start config) w"
    and "uds_read_into U (uds_client_new path) = Inr cfg" and "config_try_from L T cfg = Inr config"
  shows "map (\<lambda>c. (co_tls c, co_stream c)) (su_connections w) = spawned (su_accepts w) \<and>
     (\<forall>i r. i < length (su_connections w) \<longrightarrow> co_state (su_connections w ! i) = Closed r \<longrightarrow>
        serve_connection (N i) (co_tls (su_connections w ! i)) (co_stream (su_connections w ! i)) []
          = (r, co_history (su_connections w ! i))) \<and>
     (\<forall>r. su_server w = Returned r \<longrightarrow>
        (\<exists>S. server_serve (W\<lparr>tw_stop := S\<rparr>) (http_server_new config) [] = (r, su_accepts w))) \<and>
     (\<forall>r. su_main w = Sub_exited r \<longrightarrow>
        (\<exists>S. proxy_main L T U answer (\<lambda>c. fst (server_serve (W\<lparr>tw_stop := S\<rparr>) (http_server_new c) [])) path []
           = (r, su_history w)))"
proof (intro conjI allI impI)
  have inv: "server_inv W config (su_server w) (su_accepts w)" "conns_inv N (su_accepts w) (su_connections w)"
    "main_inv [SpawnServer config] (signals_from_kinds SubSignal answer [Interrupt, Terminate] [SpawnServer config]) w"
    using sub_inv_reachable[OF assms(1)] by (simp_all add: sub_inv_def del: signals_from_kinds.simps)
  show "map (\<lambda>c. (co_tls c, co_stream c)) (su_connections w) = spawned (su_accepts w)"
    using inv(2) by (simp add: conns_inv_def)
  show "serve_connection (N i) (co_tls (su_connections w ! i)) (co_stream (su_connections w ! i)) []
          = (r, co_history (su_connections w ! i))"
    if "i < length (su_connections w)" "co_state (su_connections w ! i) = Closed r" for i r
    using closed_serves inv(2) that by (simp add: conns_inv_def)
  show serve: "\<exists>S. server_serve (W\<lparr>tw_stop := S\<rparr>) (http_server_new config) [] = (r, su_accepts w)"
    if "su_server w = Returned r" for r
    using returned_serves inv(1) that by auto
  fix r
  assume "su_main w = Sub_exited r"
  with inv(3) consider (unregistered) e where
      "signals_from_kinds SubSignal answer [Interrupt, Terminate] [SpawnServer config] = (Inl e, su_history w)" "r = Inl e"
    | (joined) ks h out where "signals_from_kinds SubSignal answer [Interrupt, Terminate] [SpawnServer config] = (Inr ks, h)"
      "su_history w = h @ [WaitSignal, StopServer, JoinServer]" "su_server w = Returned out" "r = join_server out"
    by (auto simp: main_inv_def simp del: signals_from_kinds.simps)
  then show "\<exists>S. proxy_main L T U answer
      (\<lambda>c. fst (server_serve (W\<lparr>tw_stop := S\<rparr>) (http_server_new c) [])) path [] = (r, su_history w)"
  proof cases
    case unregistered
    then show ?thesis by (simp add: proxy_main_after_spawn[OF assms(2,3)] del: signals_from_kinds.simps)
  next
    case joined
    from serve[OF joined(3)] obtain S where
      "server_serve (W\<lparr>tw_stop := S\<rparr>) (http_server_new config) [] = (out, su_accepts w)" by blast
    with joined show ?thesis
      by (intro exI[of _ S]) (simp add: proxy_main_after_spawn[OF assms(2,3)] del: signals_from_kinds.simps)
  qed
qed

text \<open>C29: a failed server goes unnoticed. When the server has returned with an error (the client of an
  accepted connection was gone, say) while the main flow awaits a signal, nothing ends the program
  but the signal: until then no further connection is accepted, and afterwards the error is only
  reported as a panicked task.\<close>

theorem failed_server_unnoticed:
  assumes "su_server w = Returned (Inl (Error e))" and "su_main w = Sub_waiting"
    and "sub_reaches W N answer config w w'"
  shows "su_server w' = Returned (Inl (Error e)) \<and> su_accepts w' = su_accepts w \<and>
     length (su_connections w') = length (su_connections w) \<and>
     (su_main w' = Sub_waiting \<or> WaitSignal \<in> set (su_history w')) \<and>
     (\<forall>r. su_main w' = Sub_exited r \<longrightarrow> r = Inl (Error (External ''task panicked'')))"
proof -
  from assms(3) have "su_server w' = Returned (Inl (Error e)) \<and> su_accepts w' = su_accepts w \<and>
     length (su_connections w') = length (su_connections w) \<and> su_main w' \<noteq> Sub_registering \<and>
     (su_main w' = Sub_waiting \<or> WaitSignal \<in> set (su_history w')) \<and>
     (\<forall>r. su_main w' = Sub_exited r \<longrightarrow> r = Inl (Error (External ''task panicked'')))"
  proof (induction rule: sub_reaches.induct)
    case (sub_moved w1 m w2)
    from sub_moved.hyps(2) show ?case
      by (cases rule: sub_move_cases)
        (use sub_moved.IH sub_move_up[OF sub_moved.hyps(2)] in \<open>auto simp: sub_exit_def join_server_def\<close>)
  qed (simp add: assms(1,2))
  then show ?thesis by blast
qed

lemma spawned_listen: "listener_bind W addr h = (r, h') \<Longrightarrow> spawned (drop (length h) h') = []"
  by (auto simp: socket_code ext_def spawned_def map_filter_simps
      split: sum.splits prod.splits)

text \<open>Once the stop channel is sent on, a server that accepts returns in its next round, and a
  server that has not started yet first sets up its listener.\<close>

lemma server_can_stop:
  assumes "su_main w = Sub_joining" and "su_stop w" and "server_result (su_server w) = None"
  shows "\<exists>ms w' out. length ms \<le> 2 \<and> sub_run W N answer config w ms = Some w' \<and> su_server w' = Returned out \<and>
     su_main w' = Sub_joining \<and> su_connections w' = su_connections w \<and> su_history w' = su_history w \<and>
     (\<forall>ln. su_server w = Accepting ln \<longrightarrow> out = Inr ())"
proof -
  have stop: "sub_move W N answer config w1 Stop_Move
      = Some (w1\<lparr>su_server := Returned (Inr ()), su_accepts := su_accepts w1, su_connections := su_connections w1\<rparr>)"
    if "su_server w1 = Accepting ln" "su_stop w1" "su_main w1 = Sub_joining" for w1 ln
    using that by (simp add: sub_move_def serve_move_def spawned_def map_filter_simps)
  show ?thesis
  proof (cases "su_server w")
    case (Accepting ln)
    from stop[OF this assms(2,1)] assms Accepting show ?thesis
      by (intro exI[of _ "[Stop_Move]"]) simp
  next
    case Starting
    obtain r h where bind: "listener_bind W \<lparr>ip = V4 0, port = hc_listen_port (http_config config)\<rparr> (su_accepts w) = (r, h)"
      by fastforce
    have serve: "sub_move W N answer config w Serve_Move = Some (w\<lparr>su_server :=
        (case r of Inl e \<Rightarrow> Returned (Inl e) | Inr ln \<Rightarrow> Accepting ln), su_accepts := h, su_connections := su_connections w\<rparr>)"
      using assms Starting bind spawned_listen[OF bind]
      by (simp add: sub_move_def serve_move_def split: sum.splits)
    show ?thesis
    proof (cases r)
      case (Inl e)
      with serve assms Starting show ?thesis by (intro exI[of _ "[Serve_Move]"]) simp
    next
      case (Inr ln)
      with serve assms Starting stop[of "w\<lparr>su_server := Accepting ln, su_accepts := h\<rparr>" ln] show ?thesis
        by (intro exI[of _ "[Serve_Move, Stop_Move]"]) simp
    qed
  qed (use assms(3) in simp)
qed

lemma sub_run_append:
  "sub_run W N answer config w (ms @ ms') =
     Option.bind (sub_run W N answer config w ms) (\<lambda>w'. sub_run W N answer config w' ms')"
  by (induction ms arbitrary: w) (auto split: Option.bind_split)

text \<open>C30: a signal ends the sub proxy, whatever its connections do. When a signal has arrived, the
  program ends within three moves, well when the server was accepting; the connections still
  being served or tunnelled are cut where they are.\<close>

theorem signal_stops_sub_proxy:
  assumes "sub_reaches W N answer config (sub_start config) w" and "su_main w = Sub_joining"
  shows "\<exists>ms w' r. length ms \<le> 3 \<and> sub_run W N answer config w ms = Some w' \<and> su_main w' = Sub_exited r \<and>
     su_connections w' = map cut_connection (su_connections w) \<and>
     (\<forall>ln. su_server w = Accepting ln \<longrightarrow> r = Inr ())"
proof -
  have stop: "su_stop w"
    using sub_inv_reachable[OF assms(1)] assms(2) by (simp add: sub_inv_def main_inv_def)
  have join: "sub_run W N answer config w1 [Join_Move] =
      Some (sub_exit (join_server out) (su_history w1 @ [JoinServer]) w1)"
    if "su_main w1 = Sub_joining" "su_server w1 = Returned out" for w1 out
    using that by (simp add: sub_move_def)
  show ?thesis
  proof (cases "server_result (su_server w)")
    case None
    from server_can_stop[OF assms(2) stop None] obtain ms w1 out where
      "length ms \<le> 2" "sub_run W N answer config w ms = Some w1" "su_server w1 = Returned out"
      "su_main w1 = Sub_joining" "su_connections w1 = su_connections w"
      "\<forall>ln. su_server w = Accepting ln \<longrightarrow> out = Inr ()" by metis
    then show ?thesis
      by (intro exI[of _ "ms @ [Join_Move]"]) (simp add: sub_run_append join sub_exit_def join_server_def
          del: sub_run.simps)
  next
    case (Some out)
    then have "su_server w = Returned out" by (simp add: server_result_Some)
    with join[OF assms(2)] show ?thesis
      by (intro exI[of _ "[Join_Move]"]) (simp add: sub_exit_def del: sub_run.simps)
  qed
qed

subsection \<open>Whom the connections serve\<close>

text \<open>The addresses a task was spawned with are those of its stream at that moment.\<close>

definition spawned_for :: "tcp_world \<Rightarrow> bool \<Rightarrow> tevent list \<Rightarrow> nat \<Rightarrow> nat \<Rightarrow> socket_addr \<Rightarrow> socket_addr \<Rightarrow> bool" where
  "spawned_for W tls h i s a b \<longleftrightarrow> (\<exists>g. length (spawned g) = i \<and> tw_peer W g s = Inr a \<and> tw_local W g s = Inr b \<and>
     prefix (g @ [if tls then SpawnHttps s a b else SpawnHttp s a b]) h)"

definition spawns_ok :: "tcp_world \<Rightarrow> bool \<Rightarrow> tevent list \<Rightarrow> bool" where
  "spawns_ok W tls h \<longleftrightarrow> (\<forall>i < length (spawned h). \<exists>s a b. spawned h ! i = (tls, s) \<and> spawned_for W tls h i s a b)"

lemma spawned_for_mono: "spawned_for W tls h i s a b \<Longrightarrow> prefix h h' \<Longrightarrow> spawned_for W tls h' i s a b"
  unfolding spawned_for_def using prefix_order.trans by blast

lemma spawns_ok_quiet:
  assumes "spawns_ok W tls h" and "prefix h h'" and "spawned h' = spawned h"
  shows "spawns_ok W tls h'"
  using assms spawned_for_mono unfolding spawns_ok_def by metis

lemma spawns_ok_spawn:
  assumes "spawns_ok W tls h" and "tw_peer W h s = Inr a" and "tw_local W h s = Inr b"
  shows "spawns_ok W tls (h @ [if tls then SpawnHttps s a b else SpawnHttp s a b])"
proof -
  let ?h = "h @ [if tls then SpawnHttps s a b else SpawnHttp s a b]"
  have sp: "spawned ?h = spawned h @ [(tls, s)]" by (simp add: spawned_def map_filter_append map_filter_simps)
  have "spawned_for W tls ?h (length (spawned h)) s a b" using assms(2,3) unfolding spawned_for_def by blast
  moreover have "\<exists>s a b. spawned h ! i = (tls, s) \<and> spawned_for W tls ?h i s a b" if "i < length (spawned h)" for i
    using assms(1) that spawned_for_mono[of W tls h i _ _ _ ?h] unfolding spawns_ok_def by (metis prefixI)
  ultimately have "\<exists>s' a b. (spawned h @ [(tls, s)]) ! i = (tls, s') \<and> spawned_for W tls ?h i s' a b"
    if "i < length (spawned h @ [(tls, s)])" for i
    using that by (cases "i < length (spawned h)") (fastforce simp only: nth_append_left,
      metis length_append_singleton less_antisym nth_append_length)
  then show ?thesis unfolding spawns_ok_def sp by blast
qed

lemma spawns_ok_step:
  assumes "server_step (W\<lparr>tw_stop := S\<rparr>) config (s, h) = (s', h')" and "spawns_ok W (tls_config_of config \<noteq> None) h"
  shows "spawns_ok W (tls_config_of config \<noteq> None) h'"
proof (cases s)
  case Starting
  with assms(1) obtain r where bind: "listener_bind W \<lparr>ip = V4 0, port = hc_listen_port (http_config config)\<rparr> h = (r, h')"
    by (auto split: prod.splits sum.splits)
  from listener_bind_prefix[OF bind] spawned_listen[OF bind] spawned_prefix[of h h'] assms(2)
  show ?thesis by (intro spawns_ok_quiet[OF assms(2)]) simp_all
next
  case (Accepting ln)
  have quiet: "spawns_ok W (tls_config_of config \<noteq> None) (h @ [AcceptStream])"
    "spawns_ok W (tls_config_of config \<noteq> None) (h @ [AcceptStream, SetNoDelay x (ln_nodelay ln)])" for x
    by (rule spawns_ok_quiet[OF assms(2)]; simp add: spawned_append; simp add: spawned_def map_filter_simps)+
  have new: "spawns_ok W (tls_config_of config \<noteq> None) ((h @ [AcceptStream, SetNoDelay x (ln_nodelay ln)]) @
      [if tls_config_of config \<noteq> None then SpawnHttps x a b else SpawnHttp x a b])"
    if "tw_peer W (h @ [AcceptStream, SetNoDelay x (ln_nodelay ln)]) x = Inr a"
      "tw_local W (h @ [AcceptStream, SetNoDelay x (ln_nodelay ln)]) x = Inr b" for x a b
    by (rule spawns_ok_spawn[OF quiet(2) that])
  show ?thesis
    using assms Accepting quiet new by (auto simp: Let_def split: if_splits sum.splits)
qed (use assms in simp)

lemma reachable_spawns_ok:
  "sub_reaches W N answer config (sub_start config) w \<Longrightarrow> spawns_ok W (tls_config_of config \<noteq> None) (su_accepts w)"
proof (induction rule: sub_reaches.induct)
  case sub_here
  show ?case by (simp add: sub_start_def spawns_ok_def spawned_def map_filter_simps)
next
  case (sub_moved w m w')
  from sub_moved.hyps(2) show ?case
  proof (cases rule: sub_move_cases)
    case (serve stop)
    obtain s h where step: "server_step (W\<lparr>tw_stop := \<lambda>_. stop\<rparr>) config (su_server w, su_accepts w) = (s, h)"
      by fastforce
    with serve spawns_ok_step[OF step sub_moved.IH] show ?thesis by (simp add: serve_move_def)
  next
    case (register r h)
    with sub_moved.IH show ?thesis by (simp add: sub_exit_def split: sum.splits)
  qed (use sub_moved.IH in \<open>simp_all add: sub_exit_def\<close>)
qed

text \<open>C28: every connection is served in the name of its client. In every reachable state the task of
  a connection was spawned for one accepted stream, with the kind of serving the TLS configuration
  asks for and the two addresses the stream had when it was accepted; and however \<open>hyper\<close> polls and
  calls the service made from them, it stays ready and forwards at most one request for each
  call, to the original destination and from the address of the client.\<close>

theorem tasks_serve_their_clients:
  assumes "sub_reaches W N answer config (sub_start config) w" and "i < length (su_connections w)"
    and "co_stream (su_connections w ! i) = stream"
  shows "co_tls (su_connections w ! i) = (tls_config_of config \<noteq> None) \<and>
     (\<exists>client origin g. length (spawned g) = i \<and> tw_peer W g stream = Inr client \<and> tw_local W g stream = Inr origin \<and>
        prefix (g @ [if tls_config_of config \<noteq> None then SpawnHttps stream client origin
                     else SpawnHttp stream client origin]) (su_accepts w) \<and>
        (case run_service http_poll_ready (http_call L fw) (connection_service config client origin) ops [] of
           (ready, answers, svc, h) \<Rightarrow> ready \<and> length answers = length (calls ops) \<and>
             (\<exists>n \<le> length answers. forwards h = replicate n (tls_config_of config \<noteq> None, origin, client))))"
proof -
  let ?tls = "tls_config_of config \<noteq> None"
  have "map (\<lambda>c. (co_tls c, co_stream c)) (su_connections w) = spawned (su_accepts w)"
    using sub_inv_reachable[OF assms(1)] by (simp add: sub_inv_def conns_inv_def)
  then have sp: "spawned (su_accepts w) = map (\<lambda>c. (co_tls c, co_stream c)) (su_connections w)" by simp
  with assms(2) have "i < length (spawned (su_accepts w))" by simp
  with reachable_spawns_ok[OF assms(1)] obtain s client origin where
    s: "spawned (su_accepts w) ! i = (?tls, s)" "spawned_for W ?tls (su_accepts w) i s client origin"
    unfolding spawns_ok_def by blast
  from s(1) assms(2,3) have c: "co_tls (su_connections w ! i) = ?tls" "s = stream" by (simp_all add: sp)
  obtain ready answers svc h where
    run: "run_service http_poll_ready (http_call L fw) (connection_service config client origin) ops []
      = (ready, answers, svc, h)" by (metis prod_cases4)
  from s(2) c(2) obtain g where g: "length (spawned g) = i" "tw_peer W g stream = Inr client"
    "tw_local W g stream = Inr origin" "prefix (g @ [if ?tls then SpawnHttps stream client origin
       else SpawnHttp stream client origin]) (su_accepts w)" unfolding spawned_for_def by blast
  have "ready \<and> length answers = length (calls ops) \<and>
     (\<exists>n \<le> length answers. forwards h = replicate n (?tls, origin, client))"
    using service_forwards[OF run] serving.run_ready[OF run] by auto
  with g run c(1) show ?thesis by - (rule conjI, simp, rule exI[of _ client], rule exI[of _ origin], rule exI[of _ g], auto)
qed

subsection \<open>A concrete run\<close>

definition demo_server_config :: "((hname \<times> hvalue) list, bytes, nat, nat) config" where
  "demo_server_config = \<lparr>http_config = \<lparr>hc_listen_port = 1025, hc_rules = [], hc_role = None\<rparr>, tls_config_of = None\<rparr>"

definition demo_sub_state :: "sub_main \<Rightarrow> bool \<Rightarrow> connection list \<Rightarrow> ((hname \<times> hvalue) list, bytes, nat, nat) config sevent list
    \<Rightarrow> ((hname \<times> hvalue) list, bytes, nat, nat) config sub_world" where
  "demo_sub_state m stop cs h = \<lparr>su_server = Accepting demo_listener,
     su_accepts = listen_steps 1025 @ [AcceptStream, SetNoDelay 7 True, SpawnHttp 7 demo_client demo_origin],
     su_connections = cs, su_stop = stop, su_main = m, su_history = h\<rparr>"

lemma demo_listens: "listener_bind (demo_world\<lparr>tw_stop := S\<rparr>) \<lparr>ip = V4 0, port = 1025\<rparr> [] = (Inr demo_listener, listen_steps 1025)"
  by (simp add: socket_code demo_world_def demo_listener_def listen_steps_def)

lemma demo_sub_accepts:
  "sub_run demo_world N (\<lambda>h k. Inr ()) demo_server_config (sub_start demo_server_config)
     [Register_Move, Serve_Move, Serve_Move] = Some (demo_sub_state Sub_waiting False
       [start_connection (False, 7)] [SpawnServer demo_server_config, SubSignal Interrupt, SubSignal Terminate])"
  using demo_listens
  by (simp add: sub_move_def sub_start_def serve_move_def demo_server_config_def demo_sub_state_def io_bind_run
      spawned_def map_filter_simps listen_steps_def demo_listener_def)
    (simp add: demo_world_def map_filter_simps)

definition demo_tunnel :: connection where
  "demo_tunnel = \<lparr>co_tls = False, co_stream = 7, co_state = Closed (Inr ()),
     co_history = [ServeConnection True 7, NewSocket, SetTransparent, SetReuseAddr, BindSocket demo_client,
       ConnectSocket demo_origin, WriteAll [1, 2, 3], CopyBidirectional 7]\<rparr>"

lemma demo_tunnel_steps:
  "conn_step demo_world (Spawned False 7, []) = (Serving_plain 7, [])"
  "conn_step demo_world (Serving_plain 7, []) = (Connecting \<lparr>part_io = 7, part_read_buf = [1, 2, 3]\<rparr> demo_origin,
     [ServeConnection True 7, NewSocket, SetTransparent, SetReuseAddr, BindSocket demo_client])"
  "conn_step demo_world (Connecting \<lparr>part_io = 7, part_read_buf = [1, 2, 3]\<rparr> demo_origin, h)
     = (Replaying \<lparr>part_io = 7, part_read_buf = [1, 2, 3]\<rparr>, h @ [ConnectSocket demo_origin])"
  "conn_step demo_world (Replaying \<lparr>part_io = 7, part_read_buf = [1, 2, 3]\<rparr>, h)
     = (Copying \<lparr>part_io = 7, part_read_buf = [1, 2, 3]\<rparr>, h @ [WriteAll [1, 2, 3]])"
  "conn_step demo_world (Copying \<lparr>part_io = 7, part_read_buf = [1, 2, 3]\<rparr>, h)
     = (Closed (Inr ()), h @ [CopyBidirectional 7])"
  by (simp_all add: conn_next_def log_key_def tunnel_socket_def socket_bind_def set_socket_def io_bind_run
      io_unwrap_run demo_world_def Let_def)

lemma demo_sub_tunnels:
  "sub_run demo_world (\<lambda>i. demo_world) answer demo_server_config
     (demo_sub_state Sub_waiting stop [start_connection (False, 7)] h) [Connection_Move 0, Connection_Move 0, Connection_Move 0, Connection_Move 0, Connection_Move 0]
   = Some (demo_sub_state Sub_waiting stop [demo_tunnel] h)"
proof -
  have move: "sub_move demo_world (\<lambda>i. demo_world) answer demo_server_config (demo_sub_state Sub_waiting stop [c] h) (Connection_Move 0)
      = Some (demo_sub_state Sub_waiting stop [c\<lparr>co_state := s, co_history := g\<rparr>] h)"
    if "conn_result (co_state c) = None" "conn_step demo_world (co_state c, co_history c) = (s, g)" for c s g
    using that by (simp add: sub_move_def demo_sub_state_def)
  show ?thesis
    by (simp add: move demo_tunnel_steps demo_tunnel_def start_connection_def del: conn_step.simps)
qed

lemma demo_sub_stops:
  "sub_run demo_world N answer demo_server_config (demo_sub_state Sub_waiting False [demo_tunnel] h)
     [Signal_Move, Stop_Move, Join_Move] = Some ((demo_sub_state (Sub_exited (Inr ())) True [demo_tunnel]
       (h @ [WaitSignal, StopServer, JoinServer]))\<lparr>su_server := Returned (Inr ())\<rparr>)"
  by (simp add: sub_move_def demo_sub_state_def serve_move_def sub_exit_def cut_connection_def demo_tunnel_def
      spawned_def map_filter_simps join_server_def)

theorem sub_proxy_refines_witness:
  "\<exists>w S. sub_run demo_world (\<lambda>i. demo_world) (\<lambda>h k. Inr ()) demo_server_config (sub_start demo_server_config)
       ([Register_Move, Serve_Move, Serve_Move] @ [Connection_Move 0, Connection_Move 0, Connection_Move 0, Connection_Move 0, Connection_Move 0] @ [Signal_Move, Stop_Move, Join_Move]) = Some w \<and>
     su_main w = Sub_exited (Inr ()) \<and>
     serve_connection demo_world False 7 [] = (Inr (), co_history demo_tunnel) \<and>
     proxy_main demo_lib demo_tls_lib demo_uds (\<lambda>h k. Inr ())
       (\<lambda>c. fst (server_serve (demo_world\<lparr>tw_stop := S\<rparr>) (http_server_new c) [])) ''/tmp/s.sock'' [] = (Inr (), su_history w)"
proof -
  define w where "w = (demo_sub_state (Sub_exited (Inr ())) True [demo_tunnel]
    ([SpawnServer demo_server_config, SubSignal Interrupt, SubSignal Terminate] @ [WaitSignal, StopServer, JoinServer]))
      \<lparr>su_server := Returned (Inr ())\<rparr>"
  have run: "sub_run demo_world (\<lambda>i. demo_world) (\<lambda>h k. Inr ()) demo_server_config (sub_start demo_server_config)
       ([Register_Move, Serve_Move, Serve_Move] @ [Connection_Move 0, Connection_Move 0, Connection_Move 0, Connection_Move 0, Connection_Move 0] @ [Signal_Move, Stop_Move, Join_Move]) = Some w"
    by (simp only: sub_run_append demo_sub_accepts demo_sub_tunnels demo_sub_stops Option.bind.bind_lunit w_def)
  have w: "su_main w = Sub_exited (Inr ())" "su_connections w = [demo_tunnel]"
    by (simp_all add: w_def demo_sub_state_def)
  have read: "uds_read_into demo_uds (uds_client_new ''/tmp/s.sock'') = Inr demo_cfg"
    by (simp add: uds_read_into_def uds_client_new_def demo_uds_def)
  have conf: "config_try_from demo_lib demo_tls_lib demo_cfg = Inr demo_server_config"
    by (simp add: demo_sub_config demo_server_config_def)
  have "co_tls demo_tunnel = False" "co_stream demo_tunnel = 7" "co_state demo_tunnel = Closed (Inr ())"
    by (simp_all add: demo_tunnel_def)
  with sub_proxy_refines [OF sub_run_reaches[OF run sub_here] read conf] run w show ?thesis by auto
qed

theorem failed_server_unnoticed_witness:
  "\<exists>w w'. sub_run (demo_world\<lparr>tw_accept := \<lambda>h. Inr 9\<rparr>) (\<lambda>i. demo_world) (\<lambda>h k. Inr ()) demo_server_config (sub_start demo_server_config)
       [Register_Move, Serve_Move, Serve_Move] = Some w \<and> su_main w = Sub_waiting \<and>
     sub_run (demo_world\<lparr>tw_accept := \<lambda>h. Inr 9\<rparr>) (\<lambda>i. demo_world) (\<lambda>h k. Inr ()) demo_server_config w [Signal_Move, Join_Move] = Some w' \<and>
     su_main w' = Sub_exited (Inl (Error (External ''task panicked'')))"
proof -
  let ?W = "demo_world\<lparr>tw_accept := \<lambda>h. Inr 9\<rparr>"
  define w where "w = \<lparr>su_server = Returned (Inl (Error (External ''not connected''))),
     su_accepts = listen_steps 1025 @ [AcceptStream, SetNoDelay 9 True], su_connections = [], su_stop = False,
     su_main = Sub_waiting, su_history = [SpawnServer demo_server_config, SubSignal Interrupt, SubSignal Terminate]\<rparr>"
  have listens: "listener_bind (?W\<lparr>tw_stop := S\<rparr>) \<lparr>ip = V4 0, port = 1025\<rparr> [] = (Inr demo_listener, listen_steps 1025)" for S
    by (simp add: socket_code demo_world_def demo_listener_def listen_steps_def)
  have run: "sub_run ?W (\<lambda>i. demo_world) (\<lambda>h k. Inr ()) demo_server_config (sub_start demo_server_config)
       [Register_Move, Serve_Move, Serve_Move] = Some w"
    using listens by (simp add: sub_move_def sub_start_def serve_move_def demo_server_config_def w_def io_bind_run
        spawned_def map_filter_simps listen_steps_def demo_listener_def) (simp add: demo_world_def map_filter_simps)
  obtain w' r where run': "sub_run ?W (\<lambda>i. demo_world) (\<lambda>h k. Inr ()) demo_server_config w [Signal_Move, Join_Move] = Some w'"
    "su_main w' = Sub_exited r"
    by (simp add: sub_move_def w_def sub_exit_def)
  from failed_server_unnoticed [OF _ _ sub_run_reaches[OF run'(1) sub_here], of "External ''not connected''"]
  have "r = Inl (Error (External ''task panicked''))" using run'(2) by (simp add: w_def)
  with run run' show ?thesis by (intro exI[of _ w] exI[of _ w']) (simp add: w_def)
qed

theorem tasks_serve_their_clients_witness:
  "\<exists>w client origin g. sub_run demo_world (\<lambda>i. demo_world) (\<lambda>h k. Inr ()) demo_server_config (sub_start demo_server_config)
       [Register_Move, Serve_Move, Serve_Move] = Some w \<and>
     tw_peer demo_world g 7 = Inr client \<and> tw_local demo_world g 7 = Inr origin \<and>
     prefix (g @ [SpawnHttp 7 client origin]) (su_accepts w) \<and>
     fst (run_service http_poll_ready (http_call demo_lib demo_forwarder)
       (connection_service demo_server_config client origin) [Poll_Ready, Call demo_request] [])"
proof -
  let ?w = "demo_sub_state Sub_waiting False
       [start_connection (False, 7)] [SpawnServer demo_server_config, SubSignal Interrupt, SubSignal Terminate]"
  have "0 < length (su_connections ?w)" "co_stream (su_connections ?w ! 0) = 7"
    "tls_config_of demo_server_config = None"
    by (simp_all add: demo_sub_state_def start_connection_def demo_server_config_def)
  with tasks_serve_their_clients [OF sub_run_reaches[OF demo_sub_accepts sub_here],
      where i = 0 and stream = 7 and L = demo_lib and fw = demo_forwarder
        and ops = "[Poll_Ready, Call demo_request]"] demo_sub_accepts
  show ?thesis by (fastforce split: prod.splits)
qed

theorem signal_stops_sub_proxy_witness:
  "\<exists>w ms w' r. sub_run demo_world (\<lambda>i. demo_world) (\<lambda>h k. Inr ()) demo_server_config (sub_start demo_server_config)
       [Register_Move, Serve_Move, Serve_Move, Connection_Move 0, Signal_Move] = Some w \<and>
     sub_run demo_world (\<lambda>i. demo_world) (\<lambda>h k. Inr ()) demo_server_config w ms = Some w' \<and>
     su_main w' = Sub_exited (Inr ()) \<and> map co_state (su_connections w') = [Cut]"
proof -
  define c where "c = (start_connection (False, 7))\<lparr>co_state := Serving_plain 7\<rparr>"
  define w where "w = demo_sub_state Sub_joining True [c]
    [SpawnServer demo_server_config, SubSignal Interrupt, SubSignal Terminate, WaitSignal, StopServer]"
  have "sub_run demo_world (\<lambda>i. demo_world) (\<lambda>h k. Inr ()) demo_server_config (sub_start demo_server_config)
       ([Register_Move, Serve_Move, Serve_Move] @ [Connection_Move 0, Signal_Move]) = Some w"
    unfolding sub_run_append demo_sub_accepts
    by (simp add: sub_move_def demo_sub_state_def start_connection_def w_def c_def demo_tunnel_steps del: conn_step.simps)
  then have run: "sub_run demo_world (\<lambda>i. demo_world) (\<lambda>h k. Inr ()) demo_server_config (sub_start demo_server_config)
       [Register_Move, Serve_Move, Serve_Move, Connection_Move 0, Signal_Move] = Some w" by simp
  have w: "su_main w = Sub_joining" "su_server w = Accepting demo_listener" "su_connections w = [c]"
    by (simp_all add: w_def demo_sub_state_def)
  have "map co_state (map cut_connection [c]) = [Cut]" by (simp add: cut_connection_def c_def)
  with signal_stops_sub_proxy [OF sub_run_reaches[OF run sub_here] w(1)] run w show ?thesis by fastforce
qed

end
