(* ===== verification/Message_Types.thy ===== *)
theory Message_Types
  imports Tcp_Server
begin

text \<open>
  The types of the \<open>http\<close> crate as predicates. The model represents header names, header values,
  methods and status codes by their text, bytes and numbers; here is which of them the crate
  admits. Its parsers admit nothing else, which is a law the proxy relies on; the lemmas show
  that conversion, actions and handling keep messages inside these types, so that no rule can
  put a line break or another control character into a message head.
\<close>

subsection \<open>The values the crate admits\<close>

text \<open>The characters of a token, as the crate's tables list them.\<close>

definition token_chars :: string where
  "token_chars = ''!#$%&'' @ [CHR 0x27] @ ''*+-.^_`|~0123456789ABCDEFGHIJKLMNOPQRSTUVWXYZabcdefghijklmnopqrstuvwxyz''"

definition upper_chars :: string where
  "upper_chars = ''ABCDEFGHIJKLMNOPQRSTUVWXYZ''"

definition valid_method :: "string \<Rightarrow> bool" where
  "valid_method m \<longleftrightarrow> m \<noteq> [] \<and> list_all (\<lambda>c. List.member token_chars c) m"

definition valid_name :: "hname \<Rightarrow> bool" where
  "valid_name n \<longleftrightarrow> valid_method n \<and> list_all (\<lambda>c. \<not> List.member upper_chars c) n"

definition valid_value :: "hvalue \<Rightarrow> bool" where
  "valid_value v \<longleftrightarrow> list_all (\<lambda>b. b = 9 \<or> 32 \<le> b \<and> b \<noteq> 127) v"

definition valid_status :: "u16 \<Rightarrow> bool" where
  "valid_status s \<longleftrightarrow> 100 \<le> s \<and> s < 1000"

definition wf_headers :: "('u, 'q, 'h, 'j) lib \<Rightarrow> 'h \<Rightarrow> bool" where
  "wf_headers L h \<longleftrightarrow> (\<forall>(k, v) \<in> set (hm_iter L h). valid_name k \<and> valid_value v)"

definition wf_request :: "('u, 'q, 'h, 'j) lib \<Rightarrow> ('u, 'h) request \<Rightarrow> bool" where
  "wf_request L req \<longleftrightarrow> valid_method (req_method req) \<and> wf_headers L (req_headers req)"

definition wf_response :: "('u, 'q, 'h, 'j) lib \<Rightarrow> 'h response \<Rightarrow> bool" where
  "wf_response L rsp \<longleftrightarrow> valid_status (rsp_status rsp) \<and> wf_headers L (rsp_headers rsp)"

text \<open>The parsers of the crate return admitted values.\<close>

definition type_laws :: "('u, 'q, 'h, 'j) lib \<Rightarrow> bool" where
  "type_laws L \<longleftrightarrow>
     (\<forall>s m. method_parse L s = Inr m \<longrightarrow> valid_method m) \<and>
     (\<forall>s n. hname_parse L s = Inr n \<longrightarrow> valid_name n) \<and>
     (\<forall>s v. hvalue_parse L s = Inr v \<longrightarrow> valid_value v) \<and>
     (\<forall>c s. status_from_u16 L c = Inr s \<longrightarrow> valid_status s) \<and>
     (\<forall>m h. hm_of_hash_map L m = Inr h \<longrightarrow> wf_headers L h)"

lemma type_laws_simps:
  assumes "type_laws L"
  shows "method_parse L s = Inr m \<Longrightarrow> valid_method m"
    and "hname_parse L s = Inr n \<Longrightarrow> valid_name n"
    and "hvalue_parse L s = Inr v \<Longrightarrow> valid_value v"
    and "status_from_u16 L c = Inr st \<Longrightarrow> valid_status st"
    and "hm_of_hash_map L hm = Inr h \<Longrightarrow> wf_headers L h"
  using assms unfolding type_laws_def by blast+

subsection \<open>Header maps\<close>

text \<open>The pairs of a map, by the values of its keys.\<close>

lemma wf_headers_values:
  assumes "header_laws L"
  shows "wf_headers L h \<longleftrightarrow> (\<forall>k. \<forall>v \<in> set (hm_get_all L h k). valid_name k \<and> valid_value v)"
  by (auto simp: wf_headers_def header_laws_simps[OF assms])

lemma wf_headers_edit:
  assumes "header_laws L" and "wf_headers L h"
  shows "valid_name k \<Longrightarrow> valid_value v \<Longrightarrow> wf_headers L (hm_insert L k v h)"
    and "valid_name k \<Longrightarrow> valid_value v \<Longrightarrow> wf_headers L (hm_append L k v h)"
    and "wf_headers L (hm_remove L k h)"
  using assms(2) by (auto simp: wf_headers_values[OF assms(1)] header_laws_simps[OF assms(1)])

lemma wf_headers_new: "header_laws L \<Longrightarrow> wf_headers L (hm_new L)"
  by (simp add: wf_headers_values header_laws_simps)

lemma wf_headers_foldl:
  assumes "\<And>k v m. wf_headers L m \<Longrightarrow> valid_name k \<Longrightarrow> valid_value v \<Longrightarrow> wf_headers L (f m k v)"
    and "wf_headers L h" and "\<forall>(k, v) \<in> set kvs. valid_name k \<and> valid_value v"
  shows "wf_headers L (foldl (\<lambda>m (k, v). f m k v) h kvs)"
  using assms(2,3) by (induction kvs arbitrary: h) (auto intro: assms(1))

lemma wf_headers_configured:
  assumes "header_laws L" and "wf_headers L h" and "pred_option (wf_headers L) hdrs"
  shows "wf_headers L (insert_headers L hdrs h)" and "wf_headers L (append_headers L hdrs h)"
proof -
  have ok: "\<forall>(k, v) \<in> set (hm_iter L hs). valid_name k \<and> valid_value v" if "hdrs = Some hs" for hs
    using assms(3) that unfolding wf_headers_def[of L hs, symmetric] by simp
  show "wf_headers L (insert_headers L hdrs h)"
    using wf_headers_foldl[where f = "\<lambda>m k v. hm_insert L k v m",
        OF wf_headers_edit(1)[OF assms(1)] assms(2) ok] assms(2)
    by (cases hdrs) (simp_all add: insert_headers_def)
  show "wf_headers L (append_headers L hdrs h)"
    using wf_headers_foldl[where f = "\<lambda>m k v. hm_append L k v m",
        OF wf_headers_edit(2)[OF assms(1)] assms(2) ok] assms(2)
    by (cases hdrs) (simp_all add: append_headers_def)
qed

subsection \<open>Configured rules\<close>

definition wf_selector :: "('u, 'q, 'h, 'j) lib \<Rightarrow> 'h selector \<Rightarrow> bool" where
  "wf_selector L sel \<longleftrightarrow> pred_option valid_method (sel_method sel) \<and>
     pred_option valid_status (sel_code sel) \<and>
     pred_option (wf_headers L) (sel_request_headers sel) \<and>
     pred_option (wf_headers L) (sel_response_headers sel)"

definition wf_replace :: "('u, 'q, 'h, 'j) lib \<Rightarrow> 'h replace_action \<Rightarrow> bool" where
  "wf_replace L ra \<longleftrightarrow> pred_option valid_method (ra_method ra) \<and>
     pred_option valid_status (ra_code ra) \<and> pred_option (wf_headers L) (ra_headers ra)"

definition wf_actions :: "('u, 'q, 'h, 'j) lib \<Rightarrow> ('h, 'j) actions \<Rightarrow> bool" where
  "wf_actions L actions \<longleftrightarrow> pred_option (wf_replace L) (act_replace actions) \<and>
     pred_option (\<lambda>pa. pred_option (wf_headers L) (pa_headers pa)) (act_patch actions)"

definition wf_rule :: "('u, 'q, 'h, 'j) lib \<Rightarrow> ('h, 'j) rule \<Rightarrow> bool" where
  "wf_rule L r \<longleftrightarrow> wf_selector L (rule_selector r) \<and> wf_actions L (rule_actions r)"

lemma opt_traverse_pred:
  assumes "opt_traverse f t = Inr u" and "\<And>a b. f a = Inr b \<Longrightarrow> P b"
  shows "pred_option P u"
  using assms by (auto simp: opt_traverse_Inr_iff elim: option.rel_cases)

lemma insert_parsed_wf:
  assumes "header_laws L" and "type_laws L"
  shows "wf_headers L h \<Longrightarrow> insert_parsed L h kvs = Inr h' \<Longrightarrow> wf_headers L h'"
proof (induction kvs arbitrary: h)
  case Nil
  then show ?case by simp
next
  case (Cons p kvs)
  obtain key v where p: "p = (key, v)" by (cases p)
  from Cons.prems(2) obtain k w where "hname_parse L key = Inr k" and "hvalue_parse L v = Inr w"
    and rest: "insert_parsed L (hm_insert L k w h) kvs = Inr h'"
    by (auto simp: p res_bind_Inr_iff)
  then have "valid_name k" and "valid_value w"
    using type_laws_simps[OF assms(2)] by simp_all
  from Cons.IH[OF wf_headers_edit(1)[OF assms(1) Cons.prems(1) this] rest] show ?case .
qed

lemma try_from_wf:
  assumes "header_laws L" and "type_laws L"
  shows "try_from_hash_map L t = Inr hs \<Longrightarrow> pred_option (wf_headers L) hs"
    and "try_from_vec L u = Inr hs \<Longrightarrow> pred_option (wf_headers L) hs"
  unfolding try_from_hash_map_def try_from_vec_def
  using insert_parsed_wf[OF assms wf_headers_new[OF assms(1)]]
  by (auto elim!: opt_traverse_pred dest: type_laws_simps(5)[OF assms(2)])

lemma selector_try_from_wf:
  assumes "header_laws L" and "type_laws L" and "selector_try_from L raw = Inr sel"
  shows "wf_selector L sel"
  using assms(3) type_laws_simps[OF assms(2)] try_from_wf(1)[OF assms(1,2)]
  by (auto simp: selector_try_from_def res_bind_Inr_iff wf_selector_def
      elim!: opt_traverse_pred)

lemma replace_action_try_from_wf:
  assumes "header_laws L" and "type_laws L" and "replace_action_try_from L raw = Inr ra"
  shows "wf_replace L ra"
  using assms(3) type_laws_simps[OF assms(2)] try_from_wf(1)[OF assms(1,2)]
  by (auto simp: replace_action_try_from_def res_bind_Inr_iff wf_replace_def
      elim!: opt_traverse_pred)

lemma patch_action_try_from_wf:
  assumes "header_laws L" and "type_laws L" and "patch_action_try_from L raw = Inr pa"
  shows "pred_option (wf_headers L) (pa_headers pa)"
  using assms(3) try_from_wf(2)[OF assms(1,2)]
  by (auto simp: patch_action_try_from_def res_bind_Inr_iff)

lemma rule_try_from_wf:
  assumes "header_laws L" and "type_laws L" and "rule_try_from L raw = Inr r"
  shows "wf_rule L r"
  using assms(3)
  by (auto simp: rule_try_from_def actions_try_from_def res_bind_Inr_iff wf_rule_def wf_actions_def
      elim!: opt_traverse_pred
      intro: selector_try_from_wf[OF assms(1,2)] replace_action_try_from_wf[OF assms(1,2)]
        patch_action_try_from_wf[OF assms(1,2)])

lemma config_try_from_wf:
  assumes "header_laws L" and "type_laws L" and "config_try_from L T raw = Inr cfg"
  shows "list_all (wf_rule L) (hc_rules (http_config cfg))"
  using assms(3) rule_try_from_wf[OF assms(1,2)]
  by (fastforce simp: config_try_from_def res_bind_Inr_iff res_collect_Inr_iff list_all_length
      list_all2_conv_all_nth)

subsection \<open>Handling\<close>

text \<open>A pass over rules keeps what each of its actions keeps.\<close>

locale keeping_pass =
  fixes act :: "'m \<Rightarrow> 'r \<Rightarrow> ('e, 'm) io"
    and good :: "'m \<Rightarrow> bool"
    and fit :: "'r \<Rightarrow> bool"
  assumes act_keeps: "good m \<Longrightarrow> fit r \<Longrightarrow> act m r h = (Inr m', h') \<Longrightarrow> good m'"
begin

lemma pass_keeps:
  "list_all fit rs \<Longrightarrow> good m \<Longrightarrow> io_foldl act m rs h = (Inr m', h') \<Longrightarrow> good m'"
proof (induction rs arbitrary: m h)
  case Nil
  then show ?case by simp
next
  case (Cons r rs)
  obtain x h1 where a: "act m r h = (x, h1)" by (cases "act m r h")
  with Cons.prems(3) obtain m1 where x: "x = Inr m1" and rest: "io_foldl act m1 rs h1 = (Inr m', h')"
    by (cases x) (auto simp: io_bind_run)
  from Cons.prems act_keeps[OF Cons.prems(2), of r h m1 h1] a x have "good m1" by simp
  with Cons.IH[OF _ _ rest] Cons.prems(1) show ?case by simp
qed

end

lemma replace_request_wf:
  assumes "header_laws L" and "wf_request L req" and "wf_replace L ra"
    and "replace_request L req ra = Inr req'"
  shows "wf_request L req'"
  using assms(2,3) replace_request_Inr(3,5)[OF assms(4)] wf_headers_edit(3)[OF assms(1)]
  by (cases "ra_method ra")
    (auto simp: wf_request_def wf_replace_def intro!: wf_headers_configured(1)[OF assms(1)])

lemma patch_request_wf:
  assumes "header_laws L" and "wf_request L req" and "pred_option (wf_headers L) (pa_headers pa)"
    and "patch_request L req pa = Inr req'"
  shows "wf_request L req'"
  using assms(2,3) patch_request_Inr[OF assms(4)] wf_headers_edit(3)[OF assms(1)]
  by (auto simp: wf_request_def intro!: wf_headers_configured(2)[OF assms(1)])

lemma replace_response_wf:
  assumes "header_laws L" and "wf_response L rsp" and "wf_replace L ra"
  shows "wf_response L (replace_response L rsp ra)"
  using assms(2,3) wf_headers_edit(3)[OF assms(1)]
  by (cases "ra_code ra") (auto simp: wf_response_def wf_replace_def replace_response_fields
      intro!: wf_headers_configured(1)[OF assms(1)])

lemma patch_response_wf:
  assumes "header_laws L" and "wf_response L rsp" and "pred_option (wf_headers L) (pa_headers pa)"
    and "patch_response L rsp pa = Inr rsp'"
  shows "wf_response L rsp'"
  using assms(2,3) patch_response_Inr[OF assms(4)] wf_headers_edit(3)[OF assms(1)]
  by (auto simp: wf_response_def intro!: wf_headers_configured(2)[OF assms(1)])

lemma request_step_wf:
  assumes "header_laws L" and "wf_request L req" and "wf_rule L r"
    and "request_step L req r h = (Inr req', h')"
  shows "wf_request L req'"
proof -
  have act: "wf_actions L (rule_actions r)" using assms(3) by (simp add: wf_rule_def)
  from apply_request_action_Inr[OF assms(4)[unfolded request_step_def]] obtain req1 where
    r: "act_replace (rule_actions r) = None \<and> req1 = req \<or>
      (\<exists>ra. act_replace (rule_actions r) = Some ra \<and> replace_request L req ra = Inr req1)" and
    p: "act_patch (rule_actions r) = None \<and> req' = req1 \<or>
      (\<exists>pa. act_patch (rule_actions r) = Some pa \<and> patch_request L req1 pa = Inr req')" by blast
  from r act assms(2) have "wf_request L req1"
    by (auto simp: wf_actions_def intro: replace_request_wf[OF assms(1)])
  with p act show ?thesis by (auto simp: wf_actions_def intro: patch_request_wf[OF assms(1)])
qed

lemma response_step_wf:
  assumes "header_laws L" and "wf_response L rsp" and "wf_rule L r"
    and "response_step L rsp r h = (Inr rsp', h')"
  shows "wf_response L rsp'"
proof -
  have act: "wf_actions L (rule_actions r)" using assms(3) by (simp add: wf_rule_def)
  from apply_response_action_Inr[OF assms(4)[unfolded response_step_def]] obtain rsp1 where
    r: "act_replace (rule_actions r) = None \<and> rsp1 = rsp \<or>
      (\<exists>ra. act_replace (rule_actions r) = Some ra \<and> rsp1 = replace_response L rsp ra)" and
    p: "act_patch (rule_actions r) = None \<and> rsp' = rsp1 \<or>
      (\<exists>pa. act_patch (rule_actions r) = Some pa \<and> patch_response L rsp1 pa = Inr rsp')" by blast
  from r act assms(2) have "wf_response L rsp1"
    by (auto simp: wf_actions_def intro: replace_response_wf[OF assms(1)])
  with p act show ?thesis by (auto simp: wf_actions_def intro: patch_response_wf[OF assms(1)])
qed

interpretation typed_requests: keeping_pass "request_step L"
    "\<lambda>req. header_laws L \<and> wf_request L req" "wf_rule L"
  for L :: "('u, 'q, 'h, 'j) lib"
  by unfold_locales (auto intro: request_step_wf)

interpretation typed_responses: keeping_pass "response_step L"
    "\<lambda>rsp. header_laws L \<and> wf_response L rsp" "wf_rule L"
  for L :: "('u, 'q, 'h, 'j) lib"
  by unfold_locales (auto intro: response_step_wf)

lemma bad_gateway_wf: "header_laws L \<Longrightarrow> wf_response L (bad_gateway L)"
  by (simp add: wf_response_def bad_gateway_def valid_status_def wf_headers_new)

text \<open>Every request among the effects is within its type.\<close>

definition forwards_wf :: "('u, 'q, 'h, 'j) lib \<Rightarrow> ('u, 'h) pevent list \<Rightarrow> bool" where
  "forwards_wf L es \<longleftrightarrow> list_all (\<lambda>e. case e of Sleep _ \<Rightarrow> True
     | Forward _ _ _ req \<Rightarrow> wf_request L req) es"

lemma sleeps_forwards_wf: "sleeps es \<Longrightarrow> forwards_wf L es"
  by (auto simp: sleeps_def forwards_wf_def list_all_iff split: pevent.splits)

lemma forwards_wf_append [simp]:
  "forwards_wf L (xs @ ys) \<longleftrightarrow> forwards_wf L xs \<and> forwards_wf L ys"
  "forwards_wf L (Forward t a b req # es) \<longleftrightarrow> wf_request L req \<and> forwards_wf L es"
  by (auto simp: forwards_wf_def)

lemma list_all_filter: "list_all P xs \<Longrightarrow> list_all P (filter Q xs)"
  by (auto simp: list_all_iff)

lemma handle_keeps_types:
  assumes "header_laws L" and "list_all (wf_rule L) (hc_rules (svc_config svc))"
    and "wf_request L request" and "\<And>h t a b req rsp. fw h t a b req = Inr rsp \<Longrightarrow> wf_response L rsp"
  shows "\<exists>es. snd (handle L fw svc request h) = h @ es \<and> forwards_wf L es \<and>
     (\<forall>rsp. fst (handle L fw svc request h) = Inr rsp \<longrightarrow> wf_response L rsp)"
proof (rule disjE[OF handle_cases[of L fw svc request h]], goal_cases)
  case 1
  then show ?case using sleeps_forwards_wf by fastforce
next
  case 2
  let ?tls = "svc_tls_client_config svc \<noteq> None" and ?rules = "hc_rules (svc_config svc)"
  from 2 obtain s request' u s' rsp h' where
    pass: "io_foldl (request_step L) request (filter (request_selected L svc request) ?rules) h
        = (Inr request', h @ s)" and
    s: "sleeps s" "sleeps s'" and
    rsp: "rsp = (case fw (h @ s) ?tls (svc_target svc) (remote svc) (request'\<lparr>req_uri := u\<rparr>) of
        Inl _ \<Rightarrow> bad_gateway L | Inr resp \<Rightarrow> resp)" and
    h': "h' = h @ s @ [Forward ?tls (svc_target svc) (remote svc) (request'\<lparr>req_uri := u\<rparr>)]" and
    eq: "handle L fw svc request h = io_foldl (response_step L) rsp
      (filter (response_selected L svc (req_uri request') (req_method request') (req_headers request') rsp)
        ?rules) h'" and
    snd: "snd (handle L fw svc request h) = h' @ s'"
    unfolding Let_def by blast
  from typed_requests.pass_keeps[OF list_all_filter[OF assms(2)] _ pass] assms(1,3)
  have "wf_request L request'" by simp
  then have fwd: "wf_request L (request'\<lparr>req_uri := u\<rparr>)" by (simp add: wf_request_def)
  have wf: "wf_response L rsp" using assms(4) bad_gateway_wf[OF assms(1)] by (auto simp: rsp split: sum.splits)
  have "wf_response L rsp'" if f: "fst (handle L fw svc request h) = Inr rsp'" for rsp'
  proof -
    from f snd have "io_foldl (response_step L) rsp (filter (response_selected L svc (req_uri request')
        (req_method request') (req_headers request') rsp) ?rules) h' = (Inr rsp', h' @ s')"
      by (simp add: prod_eq_iff eq)
    from typed_responses.pass_keeps[OF list_all_filter[OF assms(2)] _ this] assms(1) wf show ?thesis
      by simp
  qed
  with fwd s snd show ?case by (intro exI[of _ "s @ [Forward ?tls (svc_target svc) (remote svc)
      (request'\<lparr>req_uri := u\<rparr>)] @ s'"]) (simp add: h' sleeps_forwards_wf)
qed

text \<open>C7: messages stay within their types. With the rules of a converted configuration, when the
  client's request and the responses of targets have only header names, header values, methods
  and status codes the \<open>http\<close> crate admits, then so do the request that is forwarded and the
  response the client receives; no rule can smuggle a line break into a message.\<close>

theorem messages_well_typed:
  assumes "header_laws L" and "type_laws L"
    and "config_try_from L T raw = Inr config"
    and "wf_request L request"
    and "\<And>h t a b req rsp. fw h t a b req = Inr rsp \<Longrightarrow> wf_response L rsp"
  shows "\<exists>es. snd (handle L fw (connection_service config addr_remote addr_local) request h) = h @ es \<and>
     forwards_wf L es \<and>
     (\<forall>rsp. fst (handle L fw (connection_service config addr_remote addr_local) request h) = Inr rsp
       \<longrightarrow> wf_response L rsp)"
proof (rule handle_keeps_types[OF assms(1) _ assms(4,5)])
  show "list_all (wf_rule L)
      (hc_rules (svc_config (connection_service config addr_remote addr_local)))"
    using config_try_from_wf[OF assms(1-3)]
    by (simp add: connection_service_def http_service_new_def split: option.splits)
qed

text \<open>The concrete instance with parsers that admit what the crate admits.\<close>

definition typed_lib ::
  "(demo_paq uri_parts, demo_paq, (hname \<times> hvalue) list, bytes) lib" where
  "typed_lib = demo_lib\<lparr>
     method_parse := (\<lambda>s. if valid_method s then Inr s else Inl (External ''method'')),
     hname_parse := (\<lambda>s. if valid_name s then Inr s else Inl (External ''name'')),
     hvalue_parse := (\<lambda>s. if valid_value (into_bytes s) then Inr (into_bytes s)
        else Inl (External ''value'')),
     status_from_u16 := (\<lambda>c. if valid_status c then Inr c else Inl (External ''status'')),
     hm_of_hash_map := (\<lambda>m. case m ''x'' of None \<Rightarrow> Inr []
        | Some v \<Rightarrow> if valid_value (into_bytes v) then Inr [(''x'', into_bytes v)]
            else Inl (External ''value''))\<rparr>"

lemma typed_header_laws: "header_laws typed_lib"
  using demo_header_laws by (simp add: header_laws_def typed_lib_def)

lemma valid_x: "valid_name ''x''"
  by (simp add: valid_name_def valid_method_def token_chars_def upper_chars_def)

lemma typed_type_laws: "type_laws typed_lib"
  by (auto simp: type_laws_def typed_lib_def wf_headers_def demo_lib_def valid_x
      split: if_splits option.splits)

definition typed_rule :: raw_rule where
  "typed_rule = \<lparr>rr_target = RawResponse,
     rr_selector = \<lparr>rs_port = Some 80, rs_path = None, rs_method = Some ''GET'', rs_code = None,
       rs_request_headers = None, rs_response_headers = None\<rparr>,
     rr_actions = \<lparr>rac_abort = None, rac_delay = None, rac_replace = None,
       rac_patch = Some \<lparr>rpa_body = None, rpa_queries = None, rpa_headers = Some [(''x'', ''v'')]\<rparr>\<rparr>\<rparr>"

definition typed_raw :: proxy_raw_config where
  "typed_raw = \<lparr>prc_proxy_ports = None, prc_listen_port = 1025, prc_safe_mode = False,
     prc_rules = [typed_rule], prc_role = None, prc_tls = None\<rparr>"

definition typed_config :: "((hname \<times> hvalue) list, bytes, nat, nat) config" where
  "typed_config = \<lparr>http_config = \<lparr>hc_listen_port = 1025, hc_rules = [\<lparr>rule_target = Response,
       rule_selector = \<lparr>sel_port = Some 80, sel_path = None, sel_method = Some ''GET'', sel_code = None,
         sel_request_headers = None, sel_response_headers = None\<rparr>,
       rule_actions = \<lparr>act_abort = False, act_delay = None, act_replace = None,
         act_patch = Some \<lparr>pa_body = None, pa_queries = None,
           pa_headers = Some [(''x'', into_bytes ''v'')]\<rparr>\<rparr>\<rparr>], hc_role = None\<rparr>, tls_config_of = None\<rparr>"

lemma typed_values: "valid_method ''GET''" "valid_value (into_bytes ''v'')"
    "valid_value (into_bytes ''h'')" "valid_value (into_bytes ''1'')" "valid_value (into_bytes ''2'')"
    "valid_name HOST" "valid_name CONTENT_LENGTH"
  by (simp_all add: valid_name_def valid_method_def valid_value_def token_chars_def upper_chars_def into_bytes_def
      HOST_def CONTENT_LENGTH_def)

lemma typed_conversion: "config_try_from typed_lib demo_tls_lib typed_raw = Inr typed_config"
  using typed_values
  by (simp add: config_try_from_def typed_raw_def typed_config_def typed_rule_def rule_try_from_def
      selector_try_from_def actions_try_from_def patch_action_try_from_def try_from_hash_map_def
      try_from_vec_def typed_lib_def demo_lib_def valid_x)

theorem messages_well_typed_witness:
  "\<exists>es. snd (handle typed_lib demo_forwarder (connection_service typed_config demo_client demo_origin)
       demo_request []) = es \<and> forwards_wf typed_lib es \<and>
     (\<forall>rsp. fst (handle typed_lib demo_forwarder (connection_service typed_config demo_client demo_origin)
       demo_request []) = Inr rsp \<longrightarrow> wf_response typed_lib rsp)"
proof -
  have "wf_request typed_lib demo_request"
    using typed_values by (simp add: wf_request_def wf_headers_def typed_lib_def demo_lib_def demo_request_def)
  moreover have "wf_response typed_lib rsp" if "demo_forwarder h t a b req = Inr rsp" for h t a b req rsp
    using that typed_values by (auto simp: demo_forwarder_def wf_response_def wf_headers_def typed_lib_def
        demo_lib_def demo_response_def valid_status_def)
  ultimately show ?thesis
    using messages_well_typed [OF typed_header_laws typed_type_laws typed_conversion,
        of demo_request demo_forwarder demo_client demo_origin "[]"]
    by simp
qed

end
