(* ===== verification/Std_Stream.thy ===== *)
theory Std_Stream
  imports Prelude
begin

text \<open>
  \<open>cmd/interactive/stdio.rs\<close>: the stream the configuration service is served on, which joins the
  standard input and output of the controller. \<open>tokio\<close>'s two handles are parameters with a state
  of their own; polling one changes its state and may answer that it is not ready.
\<close>

record ('i, 'o) std_stream =
  stdin :: 'i
  stdout :: 'o

text \<open>A read buffer: what is filled, and how much room is left.\<close>

record read_buf =
  filled :: bytes
  room :: nat

record ('i, 'o) tokio_io =
  open_stdin :: 'i
  open_stdout :: 'o
  read_in :: "'i \<Rightarrow> read_buf \<Rightarrow> (error + unit) poll \<times> 'i \<times> read_buf"
  write_out :: "'o \<Rightarrow> bytes \<Rightarrow> (error + nat) poll \<times> 'o"
  flush_out :: "'o \<Rightarrow> (error + unit) poll \<times> 'o"
  shutdown_out :: "'o \<Rightarrow> (error + unit) poll \<times> 'o"

definition std_stream_new :: "('i, 'o) tokio_io \<Rightarrow> ('i, 'o) std_stream" where
  "std_stream_new K = \<lparr>stdin = open_stdin K, stdout = open_stdout K\<rparr>"

definition std_stream_default :: "('i, 'o) tokio_io \<Rightarrow> ('i, 'o) std_stream" where
  "std_stream_default K = std_stream_new K"

definition poll_read ::
  "('i, 'o) tokio_io \<Rightarrow> ('i, 'o) std_stream \<Rightarrow> read_buf
    \<Rightarrow> (error + unit) poll \<times> ('i, 'o) std_stream \<times> read_buf" where
  "poll_read K s buf = (case read_in K (stdin s) buf of (r, i, buf') \<Rightarrow> (r, s\<lparr>stdin := i\<rparr>, buf'))"

definition poll_write ::
  "('i, 'o) tokio_io \<Rightarrow> ('i, 'o) std_stream \<Rightarrow> bytes \<Rightarrow> (error + nat) poll \<times> ('i, 'o) std_stream" where
  "poll_write K s bs = (case write_out K (stdout s) bs of (r, p) \<Rightarrow> (r, s\<lparr>stdout := p\<rparr>))"

definition poll_flush ::
  "('i, 'o) tokio_io \<Rightarrow> ('i, 'o) std_stream \<Rightarrow> (error + unit) poll \<times> ('i, 'o) std_stream" where
  "poll_flush K s = (case flush_out K (stdout s) of (r, p) \<Rightarrow> (r, s\<lparr>stdout := p\<rparr>))"

definition poll_shutdown ::
  "('i, 'o) tokio_io \<Rightarrow> ('i, 'o) std_stream \<Rightarrow> (error + unit) poll \<times> ('i, 'o) std_stream" where
  "poll_shutdown K s = (case shutdown_out K (stdout s) of (r, p) \<Rightarrow> (r, s\<lparr>stdout := p\<rparr>))"

subsection \<open>The two directions\<close>

text \<open>A use of the stream polls it in any order; each answer is recorded.\<close>

datatype stream_op = Poll_Read read_buf | Poll_Write bytes | Poll_Flush | Poll_Shutdown

datatype stream_answer =
  Read_Answer "(error + unit) poll" read_buf
| Write_Answer "(error + nat) poll"
| Done_Answer "(error + unit) poll"

fun stream_step ::
  "('i, 'o) tokio_io \<Rightarrow> ('i, 'o) std_stream \<Rightarrow> stream_op \<Rightarrow> stream_answer \<times> ('i, 'o) std_stream" where
  "stream_step K s (Poll_Read buf) = (case poll_read K s buf of (r, s', buf') \<Rightarrow> (Read_Answer r buf', s'))"
| "stream_step K s (Poll_Write bs) = (case poll_write K s bs of (r, s') \<Rightarrow> (Write_Answer r, s'))"
| "stream_step K s Poll_Flush = (case poll_flush K s of (r, s') \<Rightarrow> (Done_Answer r, s'))"
| "stream_step K s Poll_Shutdown = (case poll_shutdown K s of (r, s') \<Rightarrow> (Done_Answer r, s'))"

fun stream_run ::
  "('i, 'o) tokio_io \<Rightarrow> ('i, 'o) std_stream \<Rightarrow> stream_op list \<Rightarrow> stream_answer list \<times> ('i, 'o) std_stream"
  where
  "stream_run K s [] = ([], s)"
| "stream_run K s (op # ops) = (let (a, s1) = stream_step K s op; (as, s2) = stream_run K s1 ops
     in (a # as, s2))"

definition reads :: "stream_op \<Rightarrow> bool" where
  "reads op = (case op of Poll_Read _ \<Rightarrow> True | _ \<Rightarrow> False)"

definition read_answer :: "stream_answer \<Rightarrow> bool" where
  "read_answer a = (case a of Read_Answer _ _ \<Rightarrow> True | _ \<Rightarrow> False)"

text \<open>Two streams with the same input answer a read alike, two with the same output the rest.\<close>

lemma stream_step_direction:
  "reads op \<Longrightarrow> read_answer (fst (stream_step K s op)) \<and> stdout (snd (stream_step K s op)) = stdout s"
  "\<not> reads op \<Longrightarrow> \<not> read_answer (fst (stream_step K s op)) \<and> stdin (snd (stream_step K s op)) = stdin s"
  by (cases op; auto simp: reads_def read_answer_def poll_read_def poll_write_def poll_flush_def
      poll_shutdown_def split: prod.splits)+

lemma stream_step_local:
  "reads op \<Longrightarrow> stdin s = stdin t \<Longrightarrow> fst (stream_step K s op) = fst (stream_step K t op) \<and>
     stdin (snd (stream_step K s op)) = stdin (snd (stream_step K t op))"
  "\<not> reads op \<Longrightarrow> stdout s = stdout t \<Longrightarrow> fst (stream_step K s op) = fst (stream_step K t op) \<and>
     stdout (snd (stream_step K s op)) = stdout (snd (stream_step K t op))"
  by (cases op; auto simp: reads_def poll_read_def poll_write_def poll_flush_def
      poll_shutdown_def split: prod.splits)+

lemma stream_run_reads:
  "stdin s = stdin t \<Longrightarrow>
     filter read_answer (fst (stream_run K s ops)) = fst (stream_run K t (filter reads ops)) \<and>
     stdin (snd (stream_run K s ops)) = stdin (snd (stream_run K t (filter reads ops)))"
proof (induction ops arbitrary: s t)
  case Nil
  then show ?case by simp
next
  case (Cons op ops)
  show ?case
  proof (cases "reads op")
    case True
    with Cons.IH[of "snd (stream_step K s op)" "snd (stream_step K t op)"]
      stream_step_local(1)[OF True Cons.prems, of K] stream_step_direction(1)[OF True, of K s]
    show ?thesis by (simp add: Let_def case_prod_beta)
  next
    case False
    with Cons.IH[of "snd (stream_step K s op)" t] Cons.prems stream_step_direction(2)[OF False, of K s]
    show ?thesis by (simp add: Let_def case_prod_beta)
  qed
qed

lemma stream_run_writes:
  "stdout s = stdout t \<Longrightarrow>
     filter (\<lambda>a. \<not> read_answer a) (fst (stream_run K s ops))
       = fst (stream_run K t (filter (\<lambda>op. \<not> reads op) ops)) \<and>
     stdout (snd (stream_run K s ops)) = stdout (snd (stream_run K t (filter (\<lambda>op. \<not> reads op) ops)))"
proof (induction ops arbitrary: s t)
  case Nil
  then show ?case by simp
next
  case (Cons op ops)
  show ?case
  proof (cases "reads op")
    case True
    with Cons.IH[of "snd (stream_step K s op)" t] Cons.prems stream_step_direction(1)[OF True, of K s]
    show ?thesis by (simp add: Let_def case_prod_beta)
  next
    case False
    with Cons.IH[of "snd (stream_step K s op)" "snd (stream_step K t op)"]
      stream_step_local(2)[OF False Cons.prems, of K] stream_step_direction(2)[OF False, of K s]
    show ?thesis by (simp add: Let_def case_prod_beta)
  qed
qed

text \<open>The two directions of the stream do not interfere. However reads and writes are
  interleaved, the reads get what they would get from the standard input alone, the writes,
  flushes and shutdowns what they would get from the standard output alone, and each handle
  ends in the state its own operations lead to.\<close>

theorem stream_directions:
  "filter read_answer (fst (stream_run K s ops)) = fst (stream_run K s (filter reads ops)) \<and>
   filter (\<lambda>a. \<not> read_answer a) (fst (stream_run K s ops))
     = fst (stream_run K s (filter (\<lambda>op. \<not> reads op) ops)) \<and>
   stdin (snd (stream_run K s ops)) = stdin (snd (stream_run K s (filter reads ops))) \<and>
   stdout (snd (stream_run K s ops)) = stdout (snd (stream_run K s (filter (\<lambda>op. \<not> reads op) ops)))"
  using stream_run_reads[of s s K ops] stream_run_writes[of s s K ops] by simp

end
