(* ===== verification/Gateway_Ping.thy ===== *)
theory Gateway_Ping
  imports Prelude "HOL-Library.Stream"
begin

text \<open>
  The task \<open>try_ping\<close> of \<open>proxy/net/ping.rs\<close> spawns when it has made its client: a loop that never
  ends, and so the infinite stream of what it does in each round.
\<close>

datatype ping_event = Tick | Ping u16 bytes

text \<open>The counter of the loop body shadows the one outside of the loop, which stays as it is.\<close>

primcorec ping_loop :: "u16 \<Rightarrow> ping_event list stream" where
  "ping_loop idx =
     (let payload = replicate 56 0; idx' = idx + 1 in [Tick, Ping idx' payload]) ## ping_loop idx"

definition ping_task :: "ping_event list stream" where
  "ping_task = ping_loop 0"

lemma ping_loop_rounds: "stake n (ping_loop idx) = replicate n [Tick, Ping (idx + 1) (replicate 56 0)]"
  by (induction n) (simp_all add: Let_def)

text \<open>The sequence number never advances: in any number of rounds, the task sends the ping with the
  number 1 once in each, after waiting for the interval.\<close>

theorem pings_never_advance: "stake n ping_task = replicate n [Tick, Ping 1 (replicate 56 0)]"
  by (simp add: ping_task_def ping_loop_rounds)

end
