(* ===== verification/Spec2Isabelle.thy ===== *)
theory Spec2Isabelle
  imports Controller Sub_Tasks Message_Types Services Std_Stream Gateway_Ping
begin

text \<open>
  A model of chaos-tproxy, a transparent proxy that injects faults into HTTP traffic.

  The program has two halves. The controller (\<open>chaos-tproxy-controller\<close>) reads a configuration
  file, or serves an interactive configuration service on its standard streams; it builds a
  network namespace with bridges and virtual devices, redirects the traffic of the machine into
  it, and runs the sub proxy in it. The sub proxy (\<open>chaos-tproxy-proxy\<close>) receives its
  configuration over a Unix socket, accepts the redirected connections over transparent
  sockets, selects requests and responses by rules, applies the rules' actions (abort, delay,
  replace, patch), and forwards the requests to where they were going.

  The theories, in the order the code has its parts:

  \<^item> \<open>Prelude\<close>: results with errors, panics and divergence (\<open>res\<close>); effectful code as functions
    on the history of effects (\<open>io\<close>), in which every answer of the outside world is a parameter
    that sees the whole history; the predicates \<open>no_panic\<close> and \<open>within\<close>.
  \<^item> \<open>Retry\<close>: the contracts \<open>command_runner\<close> (running a sequence of commands that record
    themselves) and \<open>retry_loop\<close> (repeating a step until it gives a result).
  \<^item> \<open>Std_Text\<close>: the formatting of numbers, lists and addresses by Rust's standard library.
  \<^item> \<open>Http_Lib\<close>: the third-party operations the proxy calls (\<open>http\<close>, \<open>hyper::Body\<close>,
    \<open>serde_json\<close>, \<open>json_patch\<close>, \<open>serde_urlencoded\<close>, \<open>wildmatch\<close>, \<open>base64\<close>), as fields of a
    record of parameters, with their documented laws as predicates.
  \<^item> \<open>Selector\<close>: \<open>handler/http/selector.rs\<close> and \<open>rule.rs\<close>. The lemmas show that every criterion
    narrows the selection.
  \<^item> \<open>Action\<close>: \<open>handler/http/action.rs\<close>. The lemmas give the effects of an action in every
    outcome, the header values it leaves, and the URI edits.
  \<^item> \<open>Raw_Config\<close>: \<open>raw_config.rs\<close> of the proxy and \<open>proxy/http/config.rs\<close>. The lemmas give the
    exact condition of a successful conversion, and where it can panic. \<open>Serde\<close>: the serialised form
    that the \<open>serde\<close> attributes of \<open>raw_config.rs\<close> give the configuration, as JSON documents; a
    configuration that is written is read back unchanged.
  \<^item> \<open>Http_Service\<close>: the handling of one request, \<open>HttpService\<close> of \<open>proxy/http/server.rs\<close>. The
    locales \<open>rule_pass\<close> and \<open>targeted_pass\<close> state the contract of a loop over rules; they are
    interpreted on the request and on the response loop.
  \<^item> \<open>Tcp_Server\<close>: transparent sockets, connector, listener, and \<open>HttpServer\<close> with the TCP tunnel
    that bytes fall back to when they are not HTTP. The sockets are a \<open>command_runner\<close>, the
    accept loop a \<open>retry_loop\<close>.
  \<^item> \<open>Services\<close>: the \<open>Service\<close> instances of \<open>HttpService\<close> and \<open>HttpConnector\<close>, polled and called in
    any order. The locale \<open>cloned_service\<close> is their contract; it gives what all requests of one
    connection do together.
  \<^item> \<open>Ctl_Config\<close>: \<open>raw_config.rs\<close> and \<open>proxy/config.rs\<close> of the controller, with the choice of
    the listen port.
  \<^item> \<open>Net_Commands\<close>: the commands of \<open>proxy/net/bridge.rs\<close> and \<open>iptables.rs\<close> and how they are
    run; the runner is a \<open>command_runner\<close>.
  \<^item> \<open>Bridge\<close>: \<open>NetEnv\<close> (\<open>bridge.rs\<close>), \<open>routes.rs\<close>, \<open>set_net.rs\<close>, \<open>arp.rs\<close>, \<open>ping.rs\<close>. The lemmas
    give the exact sequence of effects of set-up and tear-down, and what the machine must answer
    for a set-up to succeed (\<open>cooperative\<close>); the loop that draws a name
    prefix is a \<open>retry_loop\<close>. \<open>Gateway_Ping\<close>: the endless task that \<open>ping.rs\<close> spawns, as a stream.
  \<^item> \<open>Proxy_Exec\<close>: \<open>proxy/exec.rs\<close>, the operations of the sub proxy. The locale \<open>proxy_control\<close>
    states what a controller may rely on, the relation \<open>controlled\<close> what it may do; the invariant
    \<open>proxy_inv\<close> ties the state to the history.
  \<^item> \<open>Lifecycle\<close>: what these operations amount to. The namespaces that commands have left follow
    the state (\<open>lifecycle_inv\<close>, a second interpretation of \<open>proxy_control\<close>); the state and history
    represent an abstract life, idle or serving a configuration, that the operations refine; and
    what a panic leaves behind (\<open>reload_leftover\<close>). The invariant \<open>leak_inv\<close> is its general form, for
    a history in which a set of namespaces was left behind before.
  \<^item> \<open>Cancellation\<close>: what a reload leaves that is dropped at one of its awaits (\<open>reload_dropped\<close>): a
    prefix of its history and the assignments made before. The lemmas give the state after a drop
    and the drop that leaks a namespace.
  \<^item> \<open>Signals\<close>: \<open>signal.rs\<close>, which both programs use.
  \<^item> \<open>Config_Transfer\<close>: the two ends of the Unix socket, \<open>uds_server.rs\<close> and \<open>uds_client.rs\<close>, which
    are generic in what they transfer; \<open>Sub_Proxy\<close> uses them at the configuration, with \<open>Serde\<close>.
  \<^item> \<open>Command_Line\<close>: \<open>cmd/command_line.rs\<close>, the check of the options and the configuration file.
  \<^item> \<open>Std_Stream\<close>: \<open>cmd/interactive/stdio.rs\<close>; its two directions do not interfere.
  \<^item> \<open>Config_Service\<close>: \<open>cmd/interactive/handler.rs\<close>, the interactive configuration service, as a
    transition system: the task that serves requests, the lock on the proxy, and the main flow that
    awaits a signal and stops; a handler returns, panics or is dropped. The lemmas show its
    invariant, with the number of namespaces that may be left (\<open>leaks\<close>), that it refines a
    specification of its answers, that the shutdown is final and completes, and that a dropped
    request can leak.
  \<^item> \<open>Controller\<close>: \<open>main.rs\<close>, from the arguments to the exit status.
  \<^item> \<open>Message_Types\<close>: the values the \<open>http\<close> crate admits as header names, header values, methods and
    status codes; conversion and handling keep messages within them. The locale \<open>keeping_pass\<close> is
    the contract of a loop over rules that keeps a predicate on messages.
  \<^item> \<open>Sub_Proxy\<close>: \<open>lib.rs\<close>, the program of the sub proxy.
  \<^item> \<open>Server_Tasks\<close>: the task of the server and the tasks of its connections
    (\<open>proxy/http/server.rs\<close>), which step from one \<open>await\<close> to the next. The locale \<open>stepped_code\<close> is the
    contract of a task: its steps are those of the sequential code, and code that returns is
    finished after some number of them. It is interpreted on both kinds of task.
  \<^item> \<open>Sub_Tasks\<close>: the main flow of \<open>lib.rs\<close> and all these tasks, interleaved in any order
    (\<open>sub_reaches\<close>). The invariant \<open>sub_inv\<close> reduces every run to the sequential code of its parts;
    every connection is served in the name of its client, a failed server goes unnoticed until a
    signal, and a signal ends the program.
  \<^item> this theory: the properties that span the two programs.

  State is kept as the code keeps it: a struct is a record, an enum a datatype, \<open>u8\<close> and \<open>u16\<close>
  are words, a \<open>String\<close> is the list of its bytes as characters, a \<open>HashMap\<close> is a map. A \<open>Result\<close> is
  a sum; where the state outlives an error (\<open>Proxy::reload\<close>) the operation returns the pair of
  result and state. Panics (\<open>unwrap\<close>) are failures of their own that neither \<open>?\<close> nor \<open>match\<close>
  catches; a panic ends its task, and where the state it was changing lives on behind a lock, a
  definition of its own says what it leaves. Loops that need not end (drawing a prefix, accepting,
  serving) are partial functions whose \<open>None\<close> becomes the outcome \<open>Diverge\<close>; the search for a
  listen port is proved to terminate. Nothing uses fuel except the five attempts at the gateway,
  which are the code's own bound. A channel is named by the length of the history at which it was
  made, so that names are fresh by construction, and the task that owns its receiver has the same
  name.

  Properties quantify over all answers of the outside world, however they depend on the
  history; only what a property needs of a library is a hypothesis. The interactive service takes
  its steps in any order that is possible (\<open>reaches\<close>), and \<open>main\<close> is given the order that happens
  as a parameter (\<open>mw_schedule\<close>), over which its properties quantify; an order after which the
  main flow still waits is a run that does not end. The concrete worlds named \<open>demo_...\<close> serve to
  apply the properties to inputs, and no definition of the model uses them.

  A future that is dropped leaves what it has done up to the await at which it is suspended. The
  commands of the controller are run and waited for synchronously, so only the netlink requests,
  the making of a ping and the joining of the task suspend a reload (\<open>suspends\<close>); the route
  deletions, which the code sends together and awaits together, are given more moments to be
  dropped at than they have.

  Not modelled: pinning and waking of futures, logging, the parsing of the command line by
  \<open>structopt\<close> (a parameter), the text of JSON documents and of durations (parameters with
  documented laws, \<open>serde_laws\<close>), and what the system commands do to the kernel: a namespace counts
  as left by the commands the program ran. A task of the controller that runs beside the main flow
  (the Unix socket server, the process of the sub proxy, the pings) is an event of the history
  where it is spawned, and its body is a definition of its own. In the sub proxy the tasks are
  interleaved; the serving of a connection by \<open>hyper\<close> is one step of its task, and each task has an
  environment of its own (\<open>N i\<close>), over which the properties quantify.

  The calls of one connection's service follow each other, as \<open>hyper\<close> makes them for HTTP/1, in the
  sub proxy and in the configuration service of the controller. Both servers would also accept
  HTTP/2, whose streams run beside each other; in the configuration service they would take turns
  by the lock that \<open>Lock\<close> takes, but a second handler waiting for it is not a state of the model.
  The \<open>Service\<close> instance of \<open>ConfigService\<close> is the moves \<open>Lock\<close> and \<open>Handle\<close> of the configuration
  service. What happens to a handler after the main flow has finished, with which the program ends,
  is not followed. The task ends its wait for the shutdown only after the sender was used, as
  nothing else drops it. The text of an error of a library stands for its display and its debug
  output alike.
\<close>

section \<open>Properties that span components\<close>

lemma config_http_fields:
  "config_try_from L T raw = Inr config \<Longrightarrow>
    hc_listen_port (http_config config) = prc_listen_port raw \<and> hc_role (http_config config) = prc_role raw"
  by (auto simp: config_try_from_def res_bind_Inr_iff)

text \<open>The rule that takes the traffic to the given ports to the port of the proxy.\<close>

definition redirect_rule :: "net_env \<Rightarrow> string \<Rightarrow> u16 \<Rightarrow> string list" where
  "redirect_rule env ports lp = ip_netns (netns env)
     [''iptables'', ''-t'', ''mangle'', ''-A'', ''PREROUTING'', ''-p'', ''tcp'', ''-m'', ''multiport'',
      ''--dports'', ports, ''-j'', ''TPROXY'', ''--tproxy-mark'', ''0x1/0x1'', ''--on-port'', dec (unat lp)]"

lemma redirect_rule_set: "redirect_rule env ports lp \<in> set (set_iptables env (Some ports) (dec (unat lp)) mac)"
  by (simp add: redirect_rule_def set_iptables_def Let_def)

text \<open>C24: traffic is redirected to where the sub proxy listens. After a reload by a configuration
  file with proxied ports has succeeded, the rule that was installed in the namespace of the running
  environment, before the sub proxy was spawned there, takes the traffic to these ports to a port
  that is none of them; the configuration that is handed out to the sub proxy is the one of the
  reload, and the server started by its conversion does nothing before it has bound a socket to
  that port of every address and listens on it, and selects by the addresses the controller looked up.\<close>

theorem redirect_reaches_server:
  assumes "ctl_config_try_from ifs raw = Inr cc" and "rc_proxy_ports raw = Some ports"
    and "proxy_inv p h" and "proxy_reload S p (proxy_config cc) h = (Inr (Inr (), p'), h')"
    and "config_try_from L T (proxy_config cc) = Inr config"
    and "server_serve W (http_server_new config) [] = (r, g)"
  shows "\<exists>t c exe lp. h' = h @ t @ [SpawnTask c (sub_proxy_argv p' exe)] \<and> running h' = {c} \<and>
     Exec (redirect_rule (px_env p') (ports_to_string ports) lp) \<in> set t \<and> \<not> port_taken (Some ports) lp \<and>
     SpawnUdsServer (ipc_path (opt p')) (proxy_config cc) \<in> set t \<and>
     (prefix g [NewSocket, SetTransparent, SetReuseAddr, BindSocket \<lparr>ip = V4 0, port = lp\<rparr>, ListenSocket 1024] \<or>
      prefix [NewSocket, SetTransparent, SetReuseAddr, BindSocket \<lparr>ip = V4 0, port = lp\<rparr>, ListenSocket 1024] g) \<and>
     hc_role (http_config config) = prc_role (proxy_config cc)"
proof -
  let ?cfg = "proxy_config cc"
  have cc: "prc_proxy_ports ?cfg = Some (ports_to_string ports)" "\<not> port_taken (Some ports) (prc_listen_port ?cfg)"
    using ctl_config_Inr[OF assms(1)] assms(2) by auto
  from assms(3,4) cc(1) obtain c exe p1 h1 g' u where up: "running h' = {c}" "prefix h h1" "prefix h1 g'" and
    net: "set_net S (px_env p') (Some (ports_to_string ports)) (prc_listen_port ?cfg) (prc_safe_mode ?cfg)
       (g' @ [UdsBind (ipc_path (opt p')), SpawnUdsServer (ipc_path (opt p')) ?cfg, CurrentExe])
     = (Inr (), (g' @ [UdsBind (ipc_path (opt p')), SpawnUdsServer (ipc_path (opt p')) ?cfg, CurrentExe]) @ u)" and
    h': "h' = g' @ ([UdsBind (ipc_path (opt p')), SpawnUdsServer (ipc_path (opt p')) ?cfg, CurrentExe] @ u) @
       [SpawnTask c (sub_proxy_argv p' exe)]"
    by (rule reload_set_up) auto
  from prefix_order.trans[OF up(2,3)] obtain s where "g' = h @ s" by (auto simp: prefix_def)
  moreover from set_net_iptables[OF net] redirect_rule_set[of "px_env p'" "ports_to_string ports" "prc_listen_port ?cfg"]
  have "Exec (redirect_rule (px_env p') (ports_to_string ports) (prc_listen_port ?cfg)) \<in> set u" by blast
  ultimately show ?thesis
    using up(1) h' cc(2) server_listens[OF assms(6)] config_http_fields[OF assms(5)]
    by (intro exI[of _ "s @ [UdsBind (ipc_path (opt p')), SpawnUdsServer (ipc_path (opt p')) ?cfg, CurrentExe] @ u"]
        exI[of _ c] exI[of _ exe] exI[of _ "prc_listen_port ?cfg"]) (simp add: listen_steps_def)
qed


definition safe_http_config :: "((hname \<times> hvalue) list, bytes, nat, nat) config" where
  "safe_http_config = \<lparr>http_config = \<lparr>hc_listen_port = 1025, hc_rules = [], hc_role = Some (Client [0x0A000005])\<rparr>,
     tls_config_of = None\<rparr>"

theorem redirect_reaches_server_witness:
  "\<exists>p' h' r g lp. proxy_reload demo_sys demo_proxy (proxy_config safe_config) demo_start = (Inr (Inr (), p'), h') \<and>
     Exec (redirect_rule (px_env p') ''80,443'' lp) \<in> set h' \<and>
     server_serve demo_world (http_server_new safe_http_config) [] = (r, g) \<and>
     (prefix g (listen_steps lp) \<or> prefix (listen_steps lp) g)"
proof -
  have config: "config_try_from demo_lib demo_tls_lib (proxy_config safe_config) = Inr safe_http_config"
    by (simp add: config_try_from_def safe_config_def demo_ctl_config_def safe_http_config_def)
  obtain p' h' where rl: "proxy_reload demo_sys demo_proxy (proxy_config safe_config) demo_start
      = (Inr (Inr (), p'), h')"
    using demo_reload_at[of demo_start demo_proxy "proxy_config safe_config"]
    by (auto simp: demo_start_def demo_proxy_def)
  have ports: "rc_proxy_ports safe_raw = Some [80, 443]" by (simp add: safe_raw_def demo_ctl_raw_def)
  have shown: "ports_to_string [80, 443] = ''80,443''"
    by (simp add: ports_to_string_def dec.simps digit_def char_of_eq_iff)
  obtain r g where run: "server_serve demo_world (http_server_new safe_http_config) [] = (r, g)" by fastforce
  from redirect_reaches_server [OF safe_conversion ports demo_inv rl config run, unfolded shown] obtain t c exe lp where
    "h' = demo_start @ t @ [SpawnTask c (sub_proxy_argv p' exe)]"
    "Exec (redirect_rule (px_env p') ''80,443'' lp) \<in> set t"
    "prefix g [NewSocket, SetTransparent, SetReuseAddr, BindSocket \<lparr>ip = V4 0, port = lp\<rparr>, ListenSocket 1024] \<or>
      prefix [NewSocket, SetTransparent, SetReuseAddr, BindSocket \<lparr>ip = V4 0, port = lp\<rparr>, ListenSocket 1024] g"
    by (elim exE conjE) (rule that)
  with rl run show ?thesis
    by (intro exI[of _ p'] exI[of _ h'] exI[of _ r] exI[of _ g] exI[of _ lp]) (auto simp: listen_steps_def)
qed


subsection \<open>Roles\<close>

text \<open>The end of a connection a role is about: its client, or its server.\<close>

definition role_end :: "raw_role \<Rightarrow> socket_addr \<Rightarrow> socket_addr \<Rightarrow> ip_addr" where
  "role_end r addr_remote addr_local = (case r of RawClient \<Rightarrow> ip addr_remote | RawServer \<Rightarrow> ip addr_local)"

definition own_address :: "network_interface \<Rightarrow> ip_addr \<Rightarrow> bool" where
  "own_address dev a \<longleftrightarrow> (\<exists>v p. a = V4 v \<and> NetV4 v p \<in> set (if_ips dev))"

text \<open>The connections the file is about: with a role, those between IPv4 addresses that have an
  address of the interface at the end of the role.\<close>

definition concerns :: "ctl_raw_config \<Rightarrow> network_interface \<Rightarrow> socket_addr \<Rightarrow> socket_addr \<Rightarrow> bool" where
  "concerns raw dev addr_remote addr_local =
     (case rc_role raw of None \<Rightarrow> True | Some r \<Rightarrow>
        own_address dev (role_end r addr_remote addr_local) \<and>
        (\<exists>a b. ip addr_remote = V4 a \<and> ip addr_local = V4 b))"

lemma configured_role:
  assumes "ctl_config_try_from ifs raw = Inr cc"
    and "config_try_from L T (proxy_config cc) = Inr config"
    and "find usable ifs = Some dev"
  shows "role_ok (connection_service config addr_remote addr_local) \<longleftrightarrow> concerns raw dev addr_remote addr_local"
proof -
  from ctl_config_Inr[OF assms(1)] assms(3) obtain addrs where
    addrs: "set addrs = {a. \<exists>p. NetV4 a p \<in> set (if_ips dev)}" and
    "prc_role (proxy_config cc) = map_option (\<lambda>r. case r of RawClient \<Rightarrow> Client addrs
         | RawServer \<Rightarrow> Server addrs) (rc_role raw)" by auto
  with config_http_fields[OF assms(2)] have
    "hc_role (http_config config) = map_option (\<lambda>r. case r of RawClient \<Rightarrow> Client addrs
         | RawServer \<Rightarrow> Server addrs) (rc_role raw)" by simp
  with addrs show ?thesis
    by (fastforce simp: concerns_def role_ok_def select_role_iff own_address_def role_end_def
        split: option.split raw_role.split)
qed

lemma foreign_inert:
  assumes "ctl_config_try_from ifs raw = Inr cc"
    and "config_try_from L T (proxy_config cc) = Inr config"
    and "find usable ifs = Some dev" and "rc_role raw = Some r"
    and "\<not> own_address dev (role_end r addr_remote addr_local)"
  shows "inert (connection_service config addr_remote addr_local)"
  using configured_role[OF assms(1-3), of addr_remote addr_local] assms(4,5)
  by (simp add: inert_def concerns_def)

text \<open>C6: a proxy with a role leaves foreign traffic alone. When the configuration file gives a
  role, then on a connection whose client (for the role client) or whose server (for the role
  server) does not have an IPv4 address of the interface the controller chose, no rule of the
  file acts: a request is forwarded unchanged but for its rebuilt URI, and its answer returned
  as it is.\<close>

theorem foreign_traffic_untouched:
  assumes "ctl_config_try_from ifs raw = Inr cc"
    and "config_try_from L T (proxy_config cc) = Inr config"
    and "find usable ifs = Some dev" and "rc_role raw = Some r"
    and "\<not> own_address dev (role_end r addr_remote addr_local)"
  shows "handle L fw (connection_service config addr_remote addr_local) request h =
    (case rebuild_uri L (connection_service config addr_remote addr_local) request of
       Inl e \<Rightarrow> (Inl e, h)
     | Inr u \<Rightarrow>
        let tls = tls_config_of config \<noteq> None; fwd = request\<lparr>req_uri := u\<rparr> in
        (Inr (case fw h tls addr_local addr_remote fwd of Inl _ \<Rightarrow> bad_gateway L | Inr resp \<Rightarrow> resp),
         h @ [Forward tls addr_local addr_remote fwd]))"
  using handle_inert[OF foreign_inert[OF assms], of L fw request h]
  by (simp only: connection_service_fields option.map_disc_iff)

text \<open>C3: a fault of the file happens. On a connection the file is about, a request that the selector
  of one of its aborting request rules selects is not forwarded, whatever the other rules are:
  its handling ends in an error, with delays as the only effects.\<close>

theorem configured_abort_blocks:
  assumes "ctl_config_try_from ifs raw = Inr cc"
    and "config_try_from L T (proxy_config cc) = Inr config"
    and "find usable ifs = Some dev" and "concerns raw dev client origin"
    and "rr \<in> set (unwrap_or [] (rc_rules raw))" and "rr_target rr = RawRequest"
    and "rac_abort (rr_actions rr) = Some True"
    and "selector_try_from L (rr_selector rr) = Inr sel" and "select_request L (port origin) request sel"
  shows "\<exists>e s. handle L fw (connection_service config client origin) request h = (Inl e, h @ s) \<and> sleeps s"
proof -
  from ctl_config_Inr[OF assms(1)] assms(5) have "rr \<in> set (prc_rules (proxy_config cc))" by auto
  from configured_rule[OF assms(2) this] obtain r where
    r: "r \<in> set (hc_rules (http_config config))" "rule_try_from L rr = Inr r" by blast
  from r(2) assms(6-8) have "rule_target r = Request" "rule_selector r = sel" "act_abort (rule_actions r)"
    by (auto simp: rule_try_from_def actions_try_from_def res_bind_Inr_iff)
  with r(1) assms(4,9) show ?thesis
    by (intro abort_blocks[of r]) (simp_all add: request_selected_def configured_role[OF assms(1-3)])
qed

text \<open>A file with the role client and a rule that aborts every request, on the machine
  10.0.0.5, and a connection of the client 10.0.0.9.\<close>

definition aborting_raw :: ctl_raw_config where
  "aborting_raw = demo_ctl_raw\<lparr>rc_rules := Some [\<lparr>rr_target = RawRequest,
     rr_selector = \<lparr>rs_port = None, rs_path = None, rs_method = None, rs_code = None,
       rs_request_headers = None, rs_response_headers = None\<rparr>,
     rr_actions = \<lparr>rac_abort = Some True, rac_delay = None, rac_replace = None, rac_patch = None\<rparr>\<rparr>]\<rparr>"

definition aborting_config :: ctl_config where
  "aborting_config = \<lparr>proxy_config = (proxy_config demo_ctl_config)\<lparr>prc_rules := the (rc_rules aborting_raw)\<rparr>\<rparr>"

definition aborting_http :: "((hname \<times> hvalue) list, bytes, nat, nat) config" where
  "aborting_http = \<lparr>http_config = \<lparr>hc_listen_port = 1025, hc_rules = [\<lparr>rule_target = Request,
       rule_selector = any_selector, rule_actions = \<lparr>act_abort = True, act_delay = None,
         act_replace = None, act_patch = None\<rparr>\<rparr>],
     hc_role = Some (Client [0x0A000005])\<rparr>, tls_config_of = None\<rparr>"

lemma aborting_conversion: "ctl_config_try_from [demo_interface] aborting_raw = Inr aborting_config"
  by (simp add: ctl_config_try_from_def demo_interface_def demo_ctl_raw_def demo_ctl_config_def
      aborting_raw_def aborting_config_def
      ipv4s_of_def List.map_filter_simps get_free_port_def free_port_step[of 1025] port_taken_def
      ports_to_string_def dec.simps digit_def Let_def char_of_eq_iff)

lemma aborting_http_conversion:
  "config_try_from demo_lib demo_tls_lib (proxy_config aborting_config) = Inr aborting_http"
  by (simp add: config_try_from_def aborting_config_def aborting_raw_def demo_ctl_config_def
      aborting_http_def rule_try_from_def selector_try_from_def actions_try_from_def
      try_from_hash_map_def any_selector_def)

definition foreign_client :: socket_addr where
  "foreign_client = \<lparr>ip = V4 0x0A000009, port = 4000\<rparr>"

theorem foreign_traffic_untouched_witness:
  "handle demo_lib demo_forwarder (connection_service aborting_http foreign_client demo_origin)
     demo_request [] =
   (Inr demo_response, [Forward False demo_origin foreign_client (demo_request\<lparr>req_uri := demo_rebuilt\<rparr>)])"
proof -
  have dev: "find usable [demo_interface] = Some demo_interface"
    by (simp add: usable_def demo_interface_def)
  have role: "rc_role aborting_raw = Some RawClient" by (simp add: aborting_raw_def demo_ctl_raw_def)
  have away: "\<not> own_address demo_interface (role_end RawClient foreign_client demo_origin)"
    by (simp add: own_address_def role_end_def demo_interface_def foreign_client_def)
  have "rebuild_uri demo_lib (connection_service aborting_http foreign_client demo_origin) demo_request
      = Inr demo_rebuilt"
    by (simp add: rebuild_uri_def demo_rebuilt_def demo_defs Let_def char_of_eq_iff aborting_http_def)
  with foreign_traffic_untouched [OF aborting_conversion aborting_http_conversion dev role away,
      of demo_forwarder demo_request "[]"] show ?thesis
    by (simp add: aborting_http_def demo_forwarder_def Let_def)
qed

theorem configured_abort_blocks_witness:
  "\<exists>e s. handle demo_lib demo_forwarder (connection_service aborting_http demo_client demo_origin)
     demo_request [] = (Inl e, [] @ s) \<and> sleeps s"
proof -
  have dev: "find usable [demo_interface] = Some demo_interface"
    by (simp add: usable_def demo_interface_def)
  have own: "concerns aborting_raw demo_interface demo_client demo_origin"
    by (simp add: concerns_def aborting_raw_def demo_ctl_raw_def own_address_def role_end_def
        demo_interface_def demo_client_def demo_origin_def)
  have sel: "selector_try_from demo_lib \<lparr>rs_port = None, rs_path = None, rs_method = None, rs_code = None,
       rs_request_headers = None, rs_response_headers = None\<rparr> = Inr any_selector"
    by (simp add: selector_try_from_def try_from_hash_map_def any_selector_def)
  have any: "select_request demo_lib (port demo_origin) demo_request any_selector"
    by (simp add: select_request_def any_selector_def)
  show ?thesis
    by (rule configured_abort_blocks [OF aborting_conversion aborting_http_conversion dev own _ _ _ _ any,
          where rr = "the_elem (set (the (rc_rules aborting_raw)))"])
      (simp_all add: aborting_raw_def sel)
qed

end
